(* ===== verification/Prelude.thy ===== *)
theory Prelude
  imports Main "HOL-Library.Word" "HOL-Library.Sublist" "HOL-Library.Signed_Division"
begin

text \<open>
  Shared vocabulary of the development. It holds
  \<^item> the machine integer types of the Go sources (\<open>uint32\<close>, \<open>uint64\<close>);
  \<^item> panics as values and the state-and-panic monad in which handlers are written: a panic
    keeps the state reached so far, as unwinding a Go stack does;
  \<^item> the calls made on metrics objects, as an event log;
  \<^item> the parts of the Go packages \<open>strings\<close> and \<open>strconv\<close> the sources call;
  \<^item> generic lemmas on these, collected in the named theorem collections
    \<open>monad_simps\<close> (evaluation of monadic code) and \<open>go_simps\<close> (library functions).
  Go's integer division and remainder truncate towards zero: they are \<open>sdiv\<close> and \<open>smod\<close>
  of the theory \<open>Signed_Division\<close>.
\<close>

named_theorems monad_simps "evaluation of the state-and-panic monad"
named_theorems go_simps "characteristic equations of the Go library functions"

section \<open>Machine integers\<close>

type_synonym u32 = "32 word"
type_synonym u64 = "64 word"

definition MaxUint32 :: u32 where
  "MaxUint32 = 4294967295"

section \<open>Panics\<close>

text \<open>
  The dynamic types of the values the sources panic with. \<open>StringPanic\<close> is
  \<open>panic("...")\<close>, \<open>AssertPanic\<close> the panic of \<open>assert.Assert\<close>, \<open>NilPanic\<close> the
  runtime error of dereferencing a nil pointer, \<open>ErrorPanic\<close> a panic with any other
  \<open>error\<close> value, \<open>FatalExit\<close> a \<open>logger.Fatalf\<close>, which ends the process.
\<close>

datatype panic =
    RateLimitConfigError string
  | RedisError string
  | ServiceError string
  | MemcacheError string
  | StringPanic string
  | AssertPanic
  | NilPanic
  | ErrorPanic string
  | FatalExit string

type_synonym 'a res = "panic + 'a"

section \<open>The state-and-panic monad\<close>

type_synonym ('s, 'a) M = "'s \<Rightarrow> 'a res \<times> 's"

definition ret :: "'a \<Rightarrow> ('s, 'a) M" where
  "ret x = (\<lambda>s. (Inr x, s))"

definition raise :: "panic \<Rightarrow> ('s, 'a) M" where
  "raise p = (\<lambda>s. (Inl p, s))"

definition bind :: "('s, 'a) M \<Rightarrow> ('a \<Rightarrow> ('s, 'b) M) \<Rightarrow> ('s, 'b) M" where
  "bind m f = (\<lambda>s. case m s of (Inl p, t) \<Rightarrow> (Inl p, t) | (Inr x, t) \<Rightarrow> f x t)"

definition gets :: "('s \<Rightarrow> 'a) \<Rightarrow> ('s, 'a) M" where
  "gets f = (\<lambda>s. (Inr (f s), s))"

definition modify :: "('s \<Rightarrow> 's) \<Rightarrow> ('s, unit) M" where
  "modify f = (\<lambda>s. (Inr (), f s))"

definition lift_res :: "'a res \<Rightarrow> ('s, 'a) M" where
  "lift_res r = (\<lambda>s. (r, s))"

text \<open>A \<open>for range\<close> loop that collects one result per element.\<close>

primrec mapM :: "('a \<Rightarrow> ('s, 'b) M) \<Rightarrow> 'a list \<Rightarrow> ('s, 'b list) M" where
  "mapM f [] = ret []"
| "mapM f (x # xs) = bind (f x) (\<lambda>y. bind (mapM f xs) (\<lambda>ys. ret (y # ys)))"

text \<open>A \<open>for range\<close> loop run for its effect.\<close>

primrec forM :: "('a \<Rightarrow> ('s, unit) M) \<Rightarrow> 'a list \<Rightarrow> ('s, unit) M" where
  "forM f [] = ret ()"
| "forM f (x # xs) = bind (f x) (\<lambda>_. forM f xs)"

text \<open>A loop that updates local variables, held in an accumulator.\<close>

primrec foldM :: "('a \<Rightarrow> 'v \<Rightarrow> ('s, 'v) M) \<Rightarrow> 'a list \<Rightarrow> 'v \<Rightarrow> ('s, 'v) M" where
  "foldM f [] v = ret v"
| "foldM f (x # xs) v = bind (f x v) (foldM f xs)"

text \<open>Dereferencing a pointer.\<close>

definition nonnil :: "'a option \<Rightarrow> ('s, 'a) M" where
  "nonnil p = (case p of None \<Rightarrow> raise NilPanic | Some x \<Rightarrow> ret x)"

section \<open>Metrics\<close>

text \<open>
  Counters, gauges and timers belong to the package gostats, outside the sources. A metric is
  the handle its constructor call names (the \<open>Scope\<close> calls that made its scope, its name and
  its tags), so that two constructor calls with equal arguments give equal handles, as
  \<open>stats.Manager\<close> documents. What the program does to metrics is the list of its calls.
\<close>

datatype scope =
    ScopeWithTags string "(string \<times> string) list"
  | Scope scope string

datatype metric =
    Metric scope string
  | MetricWithTags scope string "(string \<times> string) list"

datatype stat_event =
    CounterAdd metric u64
  | CounterInc metric
  | GaugeAdd metric u64
  | GaugeSub metric u64
  | GaugeSet metric u64
  | TimerAdd metric int

text \<open>The total a log adds to a counter (\<open>Inc\<close> adds one), modulo \<open>2 ^ 64\<close>.\<close>

fun event_amount :: "metric \<Rightarrow> stat_event \<Rightarrow> u64" where
  "event_amount c (CounterAdd d n) = (if c = d then n else 0)"
| "event_amount c (CounterInc d) = (if c = d then 1 else 0)"
| "event_amount c _ = 0"

definition counted :: "metric \<Rightarrow> stat_event list \<Rightarrow> u64" where
  "counted c es = sum_list (map (event_amount c) es)"

section \<open>Package strings\<close>

definition HasPrefix :: "string \<Rightarrow> string \<Rightarrow> bool" where
  "HasPrefix s p = prefix p s"

definition TrimPrefix :: "string \<Rightarrow> string \<Rightarrow> string" where
  "TrimPrefix s p = (if prefix p s then drop (length p) s else s)"

definition TrimSuffix :: "string \<Rightarrow> string \<Rightarrow> string" where
  "TrimSuffix s p = (if suffix p s then take (length s - length p) s else s)"

text \<open>\<open>Cut s sep\<close>: the text around the first \<open>sep\<close>; \<open>None\<close> when \<open>found\<close> is false.\<close>

fun Cut :: "string \<Rightarrow> string \<Rightarrow> (string \<times> string) option" where
  "Cut s sep =
     (if prefix sep s then Some ([], drop (length sep) s)
      else case s of [] \<Rightarrow> None
           | c # cs \<Rightarrow> map_option (\<lambda>(a, b). (c # a, b)) (Cut cs sep))"

declare Cut.simps [simp del]

lemma Cut_Some: "Cut s sep = Some (a, b) \<Longrightarrow> s = a @ sep @ b"
proof (induction s sep arbitrary: a b rule: Cut.induct)
  case (1 s sep)
  show ?case
  proof (cases "prefix sep s")
    case True
    with "1.prems" show ?thesis by (auto simp: Cut.simps [of s sep] prefix_def)
  next
    case False
    with "1.prems" obtain c cs a' where s: "s = c # cs" and "Cut cs sep = Some (a', b)"
      and a: "a = c # a'"
      by (auto simp: Cut.simps [of s sep] split: list.splits)
    with "1.IH" [OF False s] show ?thesis by simp
  qed
qed

text \<open>
  \<open>Split s sep\<close>: the pieces between the separators. The sources split at literal, non-empty
  separators only; Go's special case for an empty one does not arise.
\<close>

function Split :: "string \<Rightarrow> string \<Rightarrow> string list" where
  "Split s sep =
     (if sep = [] then [s]
      else case Cut s sep of None \<Rightarrow> [s] | Some (a, b) \<Rightarrow> a # Split b sep)"
  by pat_completeness auto
termination
  by (relation "measure (length \<circ> fst)") (auto dest: Cut_Some)

declare Split.simps [simp del]

fun Join :: "string list \<Rightarrow> string \<Rightarrow> string" where
  "Join [] sep = []"
| "Join [x] sep = x"
| "Join (x # y # ys) sep = x @ sep @ Join (y # ys) sep"

text \<open>
  Upper and lower case of ASCII letters; other bytes are kept. Go also maps other letters. The sources
  change the case of unit names and of configuration words only, to compare them with ASCII words; a
  unit name with a letter outside ASCII is unknown here, and in Go too, unless its upper case is ASCII
  (as that of the long s is).
\<close>

definition to_upper_char :: "char \<Rightarrow> char" where
  "to_upper_char c =
     (let n = (of_char c :: nat) in if 97 \<le> n \<and> n \<le> 122 then char_of (n - 32) else c)"

definition to_lower_char :: "char \<Rightarrow> char" where
  "to_lower_char c =
     (let n = (of_char c :: nat) in if 65 \<le> n \<and> n \<le> 90 then char_of (n + 32) else c)"

definition ToUpper :: "string \<Rightarrow> string" where
  "ToUpper s = map to_upper_char s"

definition ToLower :: "string \<Rightarrow> string" where
  "ToLower s = map to_lower_char s"

section \<open>Package strconv\<close>

definition digit_char :: "nat \<Rightarrow> char" where
  "digit_char d = char_of (48 + d)"

fun FormatNat :: "nat \<Rightarrow> string" where
  "FormatNat n =
     (if n < 10 then [digit_char n] else FormatNat (n div 10) @ [digit_char (n mod 10)])"

declare FormatNat.simps [simp del]

definition FormatInt :: "int \<Rightarrow> string" where
  "FormatInt i = (if i < 0 then CHR ''-'' # FormatNat (nat (- i)) else FormatNat (nat i))"

definition is_digit :: "char \<Rightarrow> bool" where
  "is_digit c = (48 \<le> (of_char c :: nat) \<and> (of_char c :: nat) \<le> 57)"

definition digit_val :: "char \<Rightarrow> nat" where
  "digit_val c = of_char c - 48"

definition nat_of_digits :: "string \<Rightarrow> nat" where
  "nat_of_digits s = foldl (\<lambda>n c. 10 * n + digit_val c) 0 s"

text \<open>
  \<open>strconv.ParseInt(s, 10, bits)\<close>: an optional sign and decimal digits, \<open>None\<close> for the
  errors \<open>ErrSyntax\<close> and \<open>ErrRange\<close>.
\<close>

definition ParseInt :: "string \<Rightarrow> nat \<Rightarrow> int option" where
  "ParseInt s bits =
     (let (neg, ds) =
        (case s of [] \<Rightarrow> (False, [])
         | c # cs \<Rightarrow> if c = CHR ''-'' then (True, cs)
                    else if c = CHR ''+'' then (False, cs) else (False, s));
        v = (if neg then - int (nat_of_digits ds) else int (nat_of_digits ds))
      in if ds = [] \<or> \<not> list_all is_digit ds then None
         else if - (2 ^ (bits - 1)) \<le> v \<and> v < 2 ^ (bits - 1) then Some v
         else None)"

section \<open>Lemmas: the monad\<close>

lemma ret_apply [monad_simps]: "ret x s = (Inr x, s)"
  by (simp add: ret_def)

lemma raise_apply [monad_simps]: "raise p s = (Inl p, s)"
  by (simp add: raise_def)

lemma gets_apply [monad_simps]: "gets f s = (Inr (f s), s)"
  by (simp add: gets_def)

lemma modify_apply [monad_simps]: "modify f s = (Inr (), f s)"
  by (simp add: modify_def)

lemma lift_res_apply [monad_simps]: "lift_res r s = (r, s)"
  by (simp add: lift_res_def)

lemma bind_apply [monad_simps]:
  "bind m f s = (case m s of (Inl p, t) \<Rightarrow> (Inl p, t) | (Inr x, t) \<Rightarrow> f x t)"
  by (simp add: bind_def)

lemmas prim_simps = ret_apply raise_apply gets_apply modify_apply lift_res_apply

lemma bind_Inr_iff:
  "bind m f s = (Inr y, u) \<longleftrightarrow> (\<exists>x t. m s = (Inr x, t) \<and> f x t = (Inr y, u))"
  by (auto simp: bind_def split: prod.splits sum.splits)

lemma bind_Inr:
  "m s = (Inr x, t) \<Longrightarrow> bind m f s = f x t"
  by (simp add: bind_def)

lemma bind_Inl:
  "m s = (Inl p, t) \<Longrightarrow> bind m f s = (Inl p, t)"
  by (simp add: bind_def)

text \<open>The laws of the monad.\<close>

lemma bind_ret: "bind (ret x) f = f x"
  by (simp add: bind_def ret_def)

lemma bind_assoc: "bind (bind m f) g = bind m (\<lambda>x. bind (f x) g)"
  by (auto simp: bind_def fun_eq_iff split: prod.splits sum.splits)

lemma bind_if: "bind (if b then m else n) f = (if b then bind m f else bind n f)"
  by simp

lemmas bind_laws = bind_ret bind_assoc bind_if

text \<open>A loop whose body never panics: it does not panic and gives one result per element.\<close>

lemma mapM_length: "mapM f xs s = (Inr ys, t) \<Longrightarrow> length ys = length xs"
  by (induction xs arbitrary: s ys t) (auto simp: bind_Inr_iff prim_simps)

lemma mapM_total:
  assumes "\<And>x s. x \<in> set xs \<Longrightarrow> \<exists>y t. f x s = (Inr y, t)"
  shows "\<exists>ys t. mapM f xs s = (Inr ys, t)"
  using assms
proof (induction xs arbitrary: s)
  case Nil
  then show ?case by (simp add: monad_simps)
next
  case (Cons x xs)
  obtain y u where y: "f x s = (Inr y, u)" using Cons.prems by force
  obtain ys t where "mapM f xs u = (Inr ys, t)" using Cons.IH Cons.prems by force
  with y show ?case by (simp add: monad_simps)
qed

text \<open>What every step of a loop keeps, the loop keeps, whether it panics or not.\<close>

lemma mapM_invariant:
  assumes "\<And>x s. x \<in> set xs \<Longrightarrow> I s \<Longrightarrow> I (snd (f x s))" and "I s"
  shows "I (snd (mapM f xs s))"
  using assms
proof (induction xs arbitrary: s)
  case Nil
  then show ?case by (simp add: monad_simps)
next
  case (Cons x xs)
  have "I (snd (f x s))" using Cons.prems by simp
  with Cons show ?case
    by (auto simp: monad_simps split: prod.splits sum.splits)
      (metis list.set_intros(2) snd_conv)+
qed

lemma mapM_elem:
  assumes "mapM f xs s = (Inr ys, t)" and "i < length xs"
  shows "\<exists>u v. f (xs ! i) u = (Inr (ys ! i), v)"
  using assms
proof (induction xs arbitrary: s ys i)
  case Nil
  then show ?case by simp
next
  case (Cons x xs)
  then obtain y zs u where y: "f x s = (Inr y, u)" and zs: "mapM f xs u = (Inr zs, t)"
    and ys: "ys = y # zs"
    by (auto simp: bind_Inr_iff prim_simps)
  show ?case
  proof (cases i)
    case 0
    with y ys show ?thesis by auto
  next
    case (Suc j)
    with Cons.IH [OF zs, of j] Cons.prems ys show ?thesis by simp
  qed
qed

lemma nonnil_apply [monad_simps]:
  "nonnil p s = (case p of None \<Rightarrow> (Inl NilPanic, s) | Some x \<Rightarrow> (Inr x, s))"
  by (simp add: nonnil_def prim_simps split: option.split)

text \<open>
  A loop over local variables that keeps a relation between them and the state: if every step
  keeps it and does not panic, so does the loop.
\<close>

lemma foldM_total:
  assumes "\<And>x v s. x \<in> set xs \<Longrightarrow> I v s \<Longrightarrow> \<exists>w t. f x v s = (Inr w, t) \<and> I w t" and "I v s"
  shows "\<exists>w t. foldM f xs v s = (Inr w, t) \<and> I w t"
  using assms
proof (induction xs arbitrary: v s)
  case Nil
  then show ?case by (simp add: prim_simps)
next
  case (Cons x xs)
  obtain w t where w: "f x v s = (Inr w, t)" "I w t" using Cons.prems by fastforce
  have "\<exists>w' t'. foldM f xs w t = (Inr w', t') \<and> I w' t'"
    by (rule Cons.IH) (use Cons.prems w in auto)
  with w show ?case by (simp add: bind_apply)
qed

text \<open>
  Partial correctness with panics: \<open>m\<close> run from \<open>s\<close> returns a value and a state related by \<open>Q\<close>,
  or panics with a value of which \<open>E\<close> holds.
\<close>

definition runs :: "(panic \<Rightarrow> bool) \<Rightarrow> ('s, 'a) M \<Rightarrow> 's \<Rightarrow> ('a \<Rightarrow> 's \<Rightarrow> bool) \<Rightarrow> bool" where
  "runs E m s Q = (case m s of (Inr x, t) \<Rightarrow> Q x t | (Inl p, t) \<Rightarrow> E p)"

lemma runsD: "runs E m s Q \<Longrightarrow> m s = (Inr x, t) \<Longrightarrow> Q x t"
  by (simp add: runs_def)

lemma runs_cases:
  assumes "runs E m s Q"
  obtains (returns) x t where "m s = (Inr x, t)" and "Q x t"
  | (panics) p t where "m s = (Inl p, t)" and "E p"
  using assms by (cases "m s") (auto simp: runs_def split: sum.splits)

lemma runs_eq: "m s = (Inr x, t) \<Longrightarrow> Q x t \<Longrightarrow> runs E m s Q"
  by (simp add: runs_def)

lemma runs_ret: "Q x s \<Longrightarrow> runs E (ret x) s Q"
  by (simp add: runs_def ret_def)

lemma runs_raise: "E p \<Longrightarrow> runs E (raise p) s Q"
  by (simp add: runs_def raise_def)

lemma runs_bind:
  assumes "runs E m s Q" and "\<And>x t. Q x t \<Longrightarrow> runs E (f x) t R"
  shows "runs E (bind m f) s R"
  using assms(1)
proof (cases rule: runs_cases)
  case (returns x t)
  with assms(2) [of x t] show ?thesis by (simp add: runs_def bind_def)
next
  case (panics p t)
  then show ?thesis by (simp add: runs_def bind_def)
qed

lemma runs_prod: "(\<And>a b. x = (a, b) \<Longrightarrow> runs E (f a b) s Q) \<Longrightarrow> runs E (case x of (a, b) \<Rightarrow> f a b) s Q"
  by (cases x) simp

lemma runs_conseq: "runs E m s Q \<Longrightarrow> (\<And>x t. Q x t \<Longrightarrow> R x t) \<Longrightarrow> runs E m s R"
  by (auto simp: runs_def split: prod.splits sum.splits)

lemma runs_foldM:
  assumes "I v s" and "\<And>x v s. x \<in> set xs \<Longrightarrow> I v s \<Longrightarrow> runs E (f x v) s I"
  shows "runs E (foldM f xs v) s I"
  using assms
proof (induction xs arbitrary: v s)
  case Nil
  then show ?case by (simp add: runs_ret)
next
  case (Cons x xs)
  then have "runs E (f x v) s I" by simp
  then show ?case by (simp, rule runs_bind) (use Cons in auto)
qed

lemma runs_mapM:
  assumes "J s" and "\<And>x s. x \<in> set xs \<Longrightarrow> J s \<Longrightarrow> runs E (f x) s (\<lambda>y t. R x y \<and> J t)"
  shows "runs E (mapM f xs) s (\<lambda>ys t. list_all2 R xs ys \<and> J t)"
  using assms
proof (induction xs arbitrary: s)
  case Nil
  then show ?case by (simp add: runs_ret)
next
  case (Cons x xs)
  have "runs E (f x) s (\<lambda>y t. R x y \<and> J t)" using Cons.prems by simp
  then show ?case
  proof (simp, rule runs_bind, elim conjE)
    fix y t assume y: "R x y" "J t"
    have "runs E (mapM f xs) t (\<lambda>ys t. list_all2 R xs ys \<and> J t)"
      by (rule Cons.IH) (use Cons.prems y in auto)
    then show "runs E (bind (mapM f xs) (\<lambda>ys. ret (y # ys))) t (\<lambda>ys t. list_all2 R (x # xs) ys \<and> J t)"
      by (rule runs_bind) (use y in \<open>auto intro: runs_ret\<close>)
  qed
qed

section \<open>Lemmas: metrics\<close>

lemma counted_Nil [simp]: "counted c [] = 0"
  by (simp add: counted_def)

lemma counted_append [simp]: "counted c (es @ fs) = counted c es + counted c fs"
  by (simp add: counted_def)

lemma counted_Cons [simp]: "counted c (e # es) = event_amount c e + counted c es"
  by (simp add: counted_def)

section \<open>Lemmas: strings\<close>

lemma HasPrefix_append [go_simps]: "HasPrefix (p @ s) p"
  by (simp add: HasPrefix_def)

lemma TrimPrefix_append [go_simps]: "TrimPrefix (p @ s) p = s"
  by (simp add: TrimPrefix_def)

lemma TrimSuffix_append [go_simps]: "TrimSuffix (s @ p) p = s"
  by (simp add: TrimSuffix_def suffix_def)

lemma Cut_None: "Cut s sep = None \<Longrightarrow> s \<noteq> a @ sep @ b"
proof (induction s sep arbitrary: a rule: Cut.induct)
  case (1 s sep)
  from "1.prems" have np: "\<not> prefix sep s"
    by (auto simp: Cut.simps [of s sep] split: if_splits)
  show ?case
  proof
    assume s: "s = a @ sep @ b"
    with np obtain c cs where a: "a = c # cs" by (cases a) auto
    with s have s': "s = c # (cs @ sep @ b)" by simp
    from "1.prems" np s' have "Cut (cs @ sep @ b) sep = None"
      using Cut.simps [of s sep] by simp
    with "1.IH" [OF np s'] show False by blast
  qed
qed

text \<open>The piece before the first separator does not contain the separator.\<close>

lemma Cut_first: "Cut s sep = Some (a, b) \<Longrightarrow> sep \<noteq> [] \<Longrightarrow> Cut a sep = None"
proof (induction s sep arbitrary: a rule: Cut.induct)
  case (1 s sep)
  show ?case
  proof (cases "prefix sep s")
    case True
    with "1.prems" show ?thesis by (simp add: Cut.simps [of s sep] Cut.simps [of "[]" sep])
  next
    case False
    with "1.prems"(1) obtain c cs a' where s: "s = c # cs" and c: "Cut cs sep = Some (a', b)"
      and a: "a = c # a'"
      by (auto simp: Cut.simps [of s sep] split: list.splits)
    have "Cut a' sep = None" by (rule "1.IH" [OF False s c "1.prems"(2)])
    moreover have "\<not> prefix sep (c # a')"
      using False s Cut_Some [OF c] by (metis append_Cons append_assoc prefix_def)
    ultimately show ?thesis by (simp add: a Cut.simps [of "c # a'" sep])
  qed
qed

lemma Split_ne: "Split s sep \<noteq> []"
  by (subst Split.simps) (auto split: option.splits)

text \<open>Joining the pieces of a split with the same separator gives the string back.\<close>

lemma Join_Split: "Join (Split s sep) sep = s"
proof (induction s sep rule: Split.induct)
  case (1 s sep)
  show ?case
  proof (cases "sep = [] \<or> Cut s sep = None")
    case True
    then show ?thesis by (auto simp: Split.simps [of s sep])
  next
    case False
    then obtain a b where c: "Cut s sep = Some (a, b)" by auto
    with False have "Join (Split b sep) sep = b" using "1.IH" by auto
    moreover obtain y ys where "Split b sep = y # ys"
      using Split_ne by (metis neq_Nil_conv)
    ultimately show ?thesis
      using False c Cut_Some [OF c] Split.simps [of s sep] by simp
  qed
qed

text \<open>
  A separator no proper beginning of which is also its end cannot overlap itself, so a text without it
  is what comes before its first occurrence.
\<close>

definition border_free :: "string \<Rightarrow> bool" where
  "border_free sep = (sep \<noteq> [] \<and> (\<forall>x. x \<noteq> [] \<longrightarrow> prefix x sep \<longrightarrow> suffix x sep \<longrightarrow> x = sep))"

lemma not_prefix_before:
  assumes "border_free sep" and "\<not> prefix sep p" and "p \<noteq> []"
  shows "\<not> prefix sep (p @ sep @ r)"
proof
  assume "prefix sep (p @ sep @ r)"
  then consider "prefix sep p" | x where "sep = p @ x" "prefix x (sep @ r)"
    unfolding prefix_append by blast
  then show False
  proof cases
    case 2
    have len: "length sep = length p + length x" using 2(1) by simp
    have "prefix x sep \<or> (\<exists>us. x = sep @ us \<and> prefix us r)" using 2(2) by (simp only: prefix_append)
    then have "prefix x sep" using len assms(3) by auto
    moreover have "suffix x sep" unfolding suffix_def using 2(1) by blast
    moreover have "x \<noteq> []" using 2(1) assms(2) by auto
    ultimately have "x = sep" using assms(1) unfolding border_free_def by blast
    with len assms(3) show False by simp
  qed (use assms(2) in blast)
qed

lemma Cut_unique:
  assumes "border_free sep" and "Cut p sep = None"
  shows "Cut (p @ sep @ r) sep = Some (p, r)"
  using assms(2)
proof (induction p)
  case Nil
  then show ?case by (simp add: Cut.simps [of "sep @ r" sep])
next
  case (Cons c p)
  have np: "\<not> prefix sep (c # p)" and "Cut p sep = None"
    using Cons.prems by (auto simp: Cut.simps [of "c # p" sep] split: if_splits)
  with not_prefix_before [OF assms(1) np, of r] Cons.IH show ?case
    by (simp add: Cut.simps [of "c # (p @ sep @ r)" sep])
qed

lemma Split_Join_border_free:
  assumes "border_free sep" and "xs \<noteq> []" and "\<forall>x \<in> set xs. Cut x sep = None"
  shows "Split (Join xs sep) sep = xs"
  using assms
proof (induction xs sep rule: Join.induct)
  case (2 x sep)
  then show ?case by (simp add: Split.simps [of x sep])
next
  case (3 x y ys sep)
  then have "Cut (x @ sep @ Join (y # ys) sep) sep = Some (x, Join (y # ys) sep)" and "sep \<noteq> []"
    by (simp_all add: Cut_unique border_free_def)
  with 3 show ?case by (simp add: Split.simps [of "x @ sep @ Join (y # ys) sep" sep])
qed simp

section \<open>Lemmas: decimal numbers\<close>

lemma of_char_digit_char: "d < 10 \<Longrightarrow> (of_char (digit_char d) :: nat) = 48 + d"
  by (simp add: digit_char_def)

lemma digit_char_simps [go_simps]:
  assumes "d < 10"
  shows "digit_val (digit_char d) = d" and "is_digit (digit_char d)"
  using of_char_digit_char [OF assms] assms by (simp_all add: digit_val_def is_digit_def)

lemma FormatNat_ne [simp]: "FormatNat n \<noteq> []"
  by (subst FormatNat.simps) simp

lemma FormatNat_digits: "list_all is_digit (FormatNat n)"
proof (induction n rule: FormatNat.induct)
  case (1 n)
  then show ?case
    by (subst FormatNat.simps) (auto simp: go_simps)
qed

lemma nat_of_digits_snoc: "nat_of_digits (s @ [c]) = 10 * nat_of_digits s + digit_val c"
  by (simp add: nat_of_digits_def)

lemma nat_of_digits_FormatNat [go_simps]: "nat_of_digits (FormatNat n) = n"
proof (induction n rule: FormatNat.induct)
  case (1 n)
  show ?case
  proof (cases "n < 10")
    case True
    then show ?thesis
      by (subst FormatNat.simps) (simp add: nat_of_digits_def go_simps)
  next
    case False
    with 1 have "nat_of_digits (FormatNat (n div 10)) = n div 10" by simp
    with False show ?thesis
      by (subst FormatNat.simps) (simp add: nat_of_digits_snoc go_simps)
  qed
qed

lemma FormatNat_inject [simp]: "FormatNat m = FormatNat n \<longleftrightarrow> m = n"
  by (metis nat_of_digits_FormatNat)

lemma digit_not_sign: "is_digit c \<Longrightarrow> c \<noteq> CHR ''-'' \<and> c \<noteq> CHR ''+''"
  by (auto simp: is_digit_def)

lemma FormatNat_no_sign: "FormatNat n = c # cs \<Longrightarrow> c \<noteq> CHR ''-'' \<and> c \<noteq> CHR ''+''"
  using FormatNat_digits [of n] digit_not_sign by auto

lemma FormatInt_inject [simp]: "FormatInt i = FormatInt j \<longleftrightarrow> i = j"
proof
  assume eq: "FormatInt i = FormatInt j"
  show "i = j"
  proof (cases "i < 0 \<longleftrightarrow> j < 0")
    case True
    with eq show ?thesis by (auto simp: FormatInt_def split: if_splits)
  next
    case False
    with eq show ?thesis
      using FormatNat_no_sign [of "nat i"] FormatNat_no_sign [of "nat j"]
      by (auto simp: FormatInt_def split: if_splits) (metis FormatNat_no_sign)+
  qed
qed simp

text \<open>Reading back a printed number: it succeeds exactly when the value fits.\<close>

lemma ParseInt_FormatNat [go_simps]:
  "ParseInt (FormatNat n) bits = (if int n < 2 ^ (bits - 1) then Some (int n) else None)"
proof -
  obtain c cs where f: "FormatNat n = c # cs" by (metis FormatNat_ne neq_Nil_conv)
  moreover have "list_all is_digit (c # cs)" using FormatNat_digits [of n] f by simp
  moreover have "nat_of_digits (c # cs) = n" using nat_of_digits_FormatNat [of n] f by simp
  moreover have "- (2 ^ (bits - 1)) \<le> int n" by (smt (verit) of_nat_0_le_iff zero_le_power)
  ultimately show ?thesis
    using FormatNat_no_sign [OF f] by (simp add: ParseInt_def)
qed

section \<open>Lemmas: lists\<close>

lemma map_of_distinct_Some:
  "distinct (map fst xs) \<Longrightarrow> map_of xs k = Some v \<longleftrightarrow> (k, v) \<in> set xs"
  by (auto intro: map_of_is_SomeI dest: map_of_SomeD)

lemma map_of_append_None [simp]: "map_of xs k = None \<Longrightarrow> map_of (xs @ ys) k = map_of ys k"
  by (simp add: map_add_def)

lemma map_of_append_Some [simp]:
  "map_of ys k = None \<Longrightarrow> map_of (xs @ ys) k = map_of xs k"
  by (simp add: map_add_def split: option.splits)

section \<open>Lemmas: machine integers\<close>

lemma unat_add_no_wrap:
  fixes a b :: u32
  assumes "unat a + unat b < 2 ^ 32"
  shows "unat (a + b) = unat a + unat b"
  using assms by (simp add: unat_word_ariths)

lemma unat_sub_no_wrap:
  fixes a b :: u32
  assumes "b \<le> a"
  shows "unat (a - b) = unat a - unat b"
  using assms by (simp add: unat_sub)

lemma unat_MaxUint32: "unat MaxUint32 = 2 ^ 32 - 1"
  by (simp add: MaxUint32_def)

end
