(* ===== verification/Utils.thy ===== *)
theory Utils
  imports Prelude
begin

text \<open>
  The package \<open>utils\<close>, and \<open>assert.Assert\<close>: units of time and fixed windows, the clock and
  the jitter source, masking of credentials, metric names, closing several closers.

  The part of the program's state every component shares is the record \<open>world\<close>: what the clock
  and the random source will return, read by read, and the log of metric calls. Components with
  more state extend it, so that the operations here run on theirs.
\<close>

section \<open>Units\<close>

text \<open>
  \<open>RateLimitResponse_RateLimit_Unit\<close>, an open protobuf enumeration: \<open>UnitOther n\<close> is any
  number other than those of the five constants the sources name.
\<close>

datatype Unit = UNKNOWN | SECOND | MINUTE | HOUR | DAY | UnitOther int

fun UnitToDivider :: "Unit \<Rightarrow> int res" where
  "UnitToDivider SECOND = Inr 1"
| "UnitToDivider MINUTE = Inr 60"
| "UnitToDivider HOUR = Inr (60 * 60)"
| "UnitToDivider DAY = Inr (60 * 60 * 24)"
| "UnitToDivider _ = Inl (StringPanic ''should not get here'')"

text \<open>The units for which a window length is defined.\<close>

fun valid_unit :: "Unit \<Rightarrow> bool" where
  "valid_unit SECOND = True"
| "valid_unit MINUTE = True"
| "valid_unit HOUR = True"
| "valid_unit DAY = True"
| "valid_unit _ = False"

section \<open>The shared state: clock, random source, metric calls\<close>

record world =
  now_at :: "nat \<Rightarrow> int"      \<comment> \<open>what the k-th reading of the clock returns\<close>
  reads :: nat                  \<comment> \<open>readings so far\<close>
  rand_at :: "nat \<Rightarrow> int"     \<comment> \<open>what the k-th draw of the random source is taken from\<close>
  draws :: nat                  \<comment> \<open>draws so far\<close>
  stats :: "stat_event list"    \<comment> \<open>the calls made on metrics, oldest first\<close>

definition UnixNow :: "('x world_scheme, int) M" where
  "UnixNow = (\<lambda>s. (Inr (now_at s (reads s)), s\<lparr>reads := Suc (reads s)\<rparr>))"

text \<open>
  \<open>rand.Rand.Int63n(n)\<close> on the locked source: some number of \<open>[0, n)\<close>, and a panic for
  \<open>n \<le> 0\<close>.
\<close>

definition Int63n :: "int \<Rightarrow> ('x world_scheme, int) M" where
  "Int63n n = (\<lambda>s.
     if n \<le> 0 then (Inl (StringPanic ''invalid argument to Int63n''), s)
     else (Inr (rand_at s (draws s) mod n), s\<lparr>draws := Suc (draws s)\<rparr>))"

definition emit :: "stat_event list \<Rightarrow> ('x world_scheme, unit) M" where
  "emit es = modify (\<lambda>s. s\<lparr>stats := stats s @ es\<rparr>)"

definition Assert :: "bool \<Rightarrow> ('s, unit) M" where
  "Assert something = (if something then ret () else raise AssertPanic)"

section \<open>Windows\<close>

text \<open>The seconds of \<open>durationpb.Duration{Seconds: sec - now%sec}\<close>.\<close>

definition CalculateReset :: "Unit \<Rightarrow> ('x world_scheme, int) M" where
  "CalculateReset unit =
     bind (lift_res (UnitToDivider unit)) (\<lambda>sec.
     bind UnixNow (\<lambda>now.
     ret (sec - now smod sec)))"

definition Max_u32 :: "u32 \<Rightarrow> u32 \<Rightarrow> u32" where
  "Max_u32 a b = (if a > b then a else b)"

section \<open>Strings\<close>

definition mask_one :: "string \<Rightarrow> string" where
  "mask_one url =
     (let authUrlParts = Split url ''@'' in
      if length authUrlParts > 1 \<and> HasPrefix (authUrlParts ! 0) ''redis://''
      then ''redis://*****@'' @ authUrlParts ! (length authUrlParts - 1)
      else url)"

definition MaskCredentialsInUrl :: "string \<Rightarrow> string" where
  "MaskCredentialsInUrl url = Join (map mask_one (Split url '','')) '',''"

definition SanitizeStatName :: "string \<Rightarrow> string" where
  "SanitizeStatName s = map (\<lambda>c. if c = CHR '':'' \<or> c = CHR ''|'' then CHR ''_'' else c) s"

section \<open>Closing\<close>

text \<open>
  \<open>MultiCloser.Close\<close>. A closer is an operation returning an error or nil;
  \<open>errors.Join(err)\<close> of a single error is nil for nil and otherwise an error with its text.
\<close>

primrec MultiCloser_loop ::
  "('s, string option) M list \<Rightarrow> string option \<Rightarrow> ('s, string option) M" where
  "MultiCloser_loop [] e = ret e"
| "MultiCloser_loop (closer # closers) e = bind closer (\<lambda>err. MultiCloser_loop closers err)"

definition MultiCloser_Close :: "('s, string option) M list \<Rightarrow> ('s, string option) M" where
  "MultiCloser_Close closers = MultiCloser_loop closers None"

section \<open>Lemmas: units and windows\<close>

lemma UnitToDivider_valid: "valid_unit u \<longleftrightarrow> (\<exists>d. UnitToDivider u = Inr d)"
  by (cases u) auto

lemma UnitToDivider_pos: "UnitToDivider u = Inr d \<Longrightarrow> 0 < d"
  by (cases u) auto

lemma UnitToDivider_invalid:
  "\<not> valid_unit u \<Longrightarrow> UnitToDivider u = Inl (StringPanic ''should not get here'')"
  by (cases u) auto

lemma valid_unitE:
  assumes "valid_unit u"
  obtains d where "UnitToDivider u = Inr d" and "0 < d"
  using assms UnitToDivider_pos by (auto simp: UnitToDivider_valid)

lemma UnixNow_apply [monad_simps]:
  "UnixNow s = (Inr (now_at s (reads s)), s\<lparr>reads := Suc (reads s)\<rparr>)"
  by (simp add: UnixNow_def)

lemma emit_apply [monad_simps]: "emit es s = (Inr (), s\<lparr>stats := stats s @ es\<rparr>)"
  by (simp add: emit_def modify_def)

lemma Assert_apply [monad_simps]:
  "Assert b s = (if b then (Inr (), s) else (Inl AssertPanic, s))"
  by (simp add: Assert_def prim_simps)

lemma CalculateReset_apply [monad_simps]:
  "CalculateReset u s =
     (case UnitToDivider u of
        Inl p \<Rightarrow> (Inl p, s)
      | Inr sec \<Rightarrow> (Inr (sec - now_at s (reads s) smod sec), s\<lparr>reads := Suc (reads s)\<rparr>))"
  by (simp add: CalculateReset_def bind_apply prim_simps UnixNow_apply split: sum.splits)

lemma Int63n_range:
  "Int63n n s = (Inr r, t) \<Longrightarrow> 0 \<le> r \<and> r < n"
  by (auto simp: Int63n_def split: if_splits)

text \<open>
  The window of a time: Go's \<open>(now/d)*d\<close>. Two non-negative times have the same window start
  iff they lie in the same window.
\<close>

definition window_start :: "int \<Rightarrow> int \<Rightarrow> int" where
  "window_start d now = (now sdiv d) * d"

lemma sdiv_nonneg: "0 \<le> a \<Longrightarrow> 0 < b \<Longrightarrow> a sdiv b = a div (b :: int)"
  by (cases "a = 0") (simp_all add: signed_divide_int_def)

lemma window_start_eq:
  assumes "0 < d" and "0 \<le> now"
  shows "window_start d now = now - now mod d"
  using assms
  by (simp add: window_start_def sdiv_nonneg minus_mod_eq_div_mult)

lemma same_window_iff:
  assumes "0 < d" and "0 \<le> a" and "0 \<le> b"
  shows "window_start d a = window_start d b \<longleftrightarrow> a div d = b div d"
  using assms by (simp add: window_start_def sdiv_nonneg)

lemma div_unchanged_before_reset:
  fixes a d t :: int
  assumes "0 < d" and "a \<le> t" and "t < a + (d - a mod d)"
  shows "t div d = a div d"
proof -
  have "t = a div d * d + (t - a div d * d)" by simp
  moreover have "0 \<le> t - a div d * d" and "t - a div d * d < d"
    using assms minus_mod_eq_div_mult [of a d] pos_mod_sign [of d a] by linarith+
  ultimately show ?thesis
    by (metis add.commute assms(1) div_mult_self1 div_pos_pos_trivial add_0 less_le)
qed

lemma div_next_at_reset:
  fixes a d :: int
  assumes "0 < d"
  shows "(a + (d - a mod d)) div d = a div d + 1"
proof -
  have "a + (d - a mod d) = (a div d + 1) * d"
    by (simp add: algebra_simps minus_mod_eq_mult_div [symmetric])
  then show ?thesis using assms by simp
qed

lemma Max_u32_eq [simp]: "Max_u32 a b = max a b"
  by (auto simp: Max_u32_def max_def)

section \<open>Lemmas: strings\<close>

lemma Split_none:
  assumes "c \<notin> set s" shows "Split s [c] = [s]"
proof -
  have "Cut s [c] = None"
    using assms by (induction s) (simp_all add: Cut.simps [of "_ # _"] Cut.simps [of "[]"])
  then show ?thesis by (simp add: Split.simps)
qed

lemma Cut_char: "c \<notin> set a \<Longrightarrow> Cut (a @ c # b) [c] = Some (a, b)"
  by (induction a) (simp_all add: Cut.simps [of "_ # _"])

lemma Split_char: "c \<notin> set a \<Longrightarrow> Split (a @ c # b) [c] = a # Split b [c]"
  by (simp add: Split.simps [of "a @ c # b"] Cut_char)

lemma Split_Join_char:
  assumes "xs \<noteq> []" and "\<forall>x \<in> set xs. c \<notin> set x"
  shows "Split (Join xs [c]) [c] = xs"
  using assms
  by (induction xs "[c]" rule: Join.induct) (simp_all add: Split_none Split_char)

lemma last_Split_char: "c \<notin> set h \<Longrightarrow> last (Split (a @ c # h) [c]) = h"
proof (induction "length a" arbitrary: a rule: less_induct)
  case less
  show ?case
  proof (cases "c \<in> set a")
    case False
    then show ?thesis using less.prems by (simp add: Split_char Split_none)
  next
    case True
    then obtain a1 a2 where a: "a = a1 @ c # a2" and n: "c \<notin> set a1"
      by (meson split_list_first)
    then have "last (Split (a2 @ c # h) [c]) = h" using less by simp
    with a n show ?thesis by (simp add: Split_char Split_ne)
  qed
qed

lemma length_Split_char: "c \<in> set s \<Longrightarrow> 1 < length (Split s [c])"
proof -
  assume "c \<in> set s"
  then obtain a b where s: "s = a @ c # b" and n: "c \<notin> set a" by (meson split_list_first)
  then show ?thesis using Split_ne [of b "[c]"] by (simp add: Split_char)
qed

lemma hd_Split_prefix:
  assumes "c \<notin> set p" shows "prefix p (Split (p @ s) [c] ! 0)"
proof (cases "c \<in> set s")
  case True
  then obtain a b where "s = a @ c # b" and "c \<notin> set a" by (meson split_list_first)
  then show ?thesis using assms Split_char [of c "p @ a" b] by simp
next
  case False
  then show ?thesis using assms by (simp add: Split_none)
qed

text \<open>One address with credentials: only what follows the last \<open>@\<close> is kept.\<close>

lemma mask_one_credentials:
  assumes "CHR ''@'' \<notin> set host"
  shows "mask_one (''redis://'' @ cred @ ''@'' @ host) = ''redis://*****@'' @ host"
proof -
  let ?u = "''redis://'' @ cred @ ''@'' @ host"
  have l: "1 < length (Split ?u ''@'')" by (rule length_Split_char) simp
  moreover have "prefix ''redis://'' (Split ?u ''@'' ! 0)" by (rule hd_Split_prefix) simp
  moreover have "last (Split ?u ''@'') = host"
    using last_Split_char [OF assms, of "''redis://'' @ cred"] by simp
  ultimately show ?thesis
    by (simp add: mask_one_def HasPrefix_def last_conv_nth Split_ne Let_def)
qed

lemma SanitizeStatName_clean:
  "CHR '':'' \<notin> set (SanitizeStatName s)" "CHR ''|'' \<notin> set (SanitizeStatName s)"
  by (auto simp: SanitizeStatName_def)

lemma SanitizeStatName_id:
  "CHR '':'' \<notin> set s \<Longrightarrow> CHR ''|'' \<notin> set s \<Longrightarrow> SanitizeStatName s = s"
  unfolding SanitizeStatName_def by (rule map_idI) auto

lemma MultiCloser_loop_append:
  "MultiCloser_loop (xs @ ys) e = bind (MultiCloser_loop xs e) (MultiCloser_loop ys)"
  by (induction xs arbitrary: e) (auto simp: bind_def prim_simps fun_eq_iff split: prod.splits sum.splits)

section \<open>Properties\<close>

text \<open>
  Fixed windows. For a valid unit and a non-negative clock, \<open>CalculateReset\<close> returns a
  positive number of seconds, at most the length of the window; every time from now until it has
  passed belongs to the current window, and the moment it has passed belongs to the next one.
\<close>

lemma CalculateReset_window:
  assumes "valid_unit u" and "0 \<le> now_at s (reads s)"
  shows "\<exists>d r. UnitToDivider u = Inr d \<and> fst (CalculateReset u s) = Inr r \<and> 0 < r \<and> r \<le> d \<and>
    (\<forall>t. now_at s (reads s) \<le> t \<and> t < now_at s (reads s) + r \<longrightarrow>
       window_start d t = window_start d (now_at s (reads s))) \<and>
    window_start d (now_at s (reads s) + r) = window_start d (now_at s (reads s)) + d"
proof -
  let ?n = "now_at s (reads s)"
  obtain d where d: "UnitToDivider u = Inr d" "0 < d" using assms(1) by (rule valid_unitE)
  let ?r = "d - ?n mod d"
  have "fst (CalculateReset u s) = Inr ?r"
    using d assms(2) by (simp add: CalculateReset_apply smod_mod_positive)
  moreover have "0 < ?r" "?r \<le> d" using d by simp_all
  moreover have "window_start d t = window_start d ?n" if "?n \<le> t" "t < ?n + ?r" for t
    using that assms(2) d by (simp add: same_window_iff div_unchanged_before_reset)
  moreover have "window_start d (?n + ?r) = window_start d ?n + d"
  proof -
    have "0 \<le> ?n + ?r" using assms(2) \<open>0 < ?r\<close> by linarith
    then have "window_start d (?n + ?r) = (?n + ?r) div d * d"
      unfolding window_start_def using d(2) by (simp only: sdiv_nonneg)
    also have "\<dots> = (?n div d) * d + d" by (simp only: div_next_at_reset [OF d(2)] distrib_right mult_1)
    finally show ?thesis using assms(2) d by (simp add: window_start_def sdiv_nonneg)
  qed
  ultimately show ?thesis using d by blast
qed

definition sample_world :: world where
  "sample_world = \<lparr>now_at = (\<lambda>_. 1234), reads = 0, rand_at = (\<lambda>_. 0), draws = 0, stats = []\<rparr>"

lemma CalculateReset_window_witness:
  "\<exists>d r. UnitToDivider MINUTE = Inr d \<and> fst (CalculateReset MINUTE sample_world) = Inr r \<and>
    0 < r \<and> r \<le> d"
  using CalculateReset_window [of MINUTE sample_world] by (auto simp: sample_world_def)

text \<open>
  Masking hides credentials: in a comma-separated list of \<open>redis://credentials@host\<close>
  addresses, every part before a host becomes \<open>redis://*****@\<close>, so the result does not depend
  on the credentials at all.
\<close>

lemma MaskCredentialsInUrl_hides:
  assumes "us \<noteq> []"
    and "\<forall>(cred, host) \<in> set us.
      CHR '','' \<notin> set cred \<and> CHR '','' \<notin> set host \<and> CHR ''@'' \<notin> set host"
  shows "MaskCredentialsInUrl
      (Join (map (\<lambda>(cred, host). ''redis://'' @ cred @ ''@'' @ host) us) '','') =
    Join (map (\<lambda>(cred, host). ''redis://*****@'' @ host) us) '',''"
proof -
  let ?full = "\<lambda>(cred, host). ''redis://'' @ cred @ ''@'' @ host"
  have "Split (Join (map ?full us) '','') '','' = map ?full us"
    using assms by (intro Split_Join_char) auto
  moreover have "map mask_one (map ?full us) = map (\<lambda>(cred, host). ''redis://*****@'' @ host) us"
    using assms(2) mask_one_credentials by auto
  ultimately show ?thesis by (simp only: MaskCredentialsInUrl_def)
qed

lemma MaskCredentialsInUrl_hides_witness:
  "MaskCredentialsInUrl ''redis://u:p@h1,redis://q@h2'' = ''redis://*****@h1,redis://*****@h2''"
  using MaskCredentialsInUrl_hides [of "[(''u:p'', ''h1''), (''q'', ''h2'')]"] by simp

text \<open>
  \<open>MultiCloser.Close\<close> reports the error of its last closer only: adding a closer at the
  end runs the others first and then returns that closer's own result, whatever errors the
  others returned.
\<close>

lemma MultiCloser_Close_last:
  "MultiCloser_Close (closers @ [closer]) s =
     (case MultiCloser_Close closers s of (Inl p, t) \<Rightarrow> (Inl p, t) | (Inr _, t) \<Rightarrow> closer t)"
  by (auto simp: MultiCloser_Close_def MultiCloser_loop_append bind_def prim_simps
      split: prod.splits sum.splits)

end
