(* ===== verification/Stats.thy ===== *)
theory Stats
  imports Utils
begin

text \<open>
  The package \<open>stats\<close>: the structures of metrics the other components write to, and the
  manager that builds them (\<open>src/stats/manager.go\<close>, \<open>src/stats/manager_impl.go\<close>).
\<close>

section \<open>Structures of metrics\<close>

record ShouldRateLimitStats =
  srl_RedisError :: metric
  srl_ServiceError :: metric

record ServiceStats =
  ConfigLoadSuccess :: metric
  ConfigLoadError :: metric
  ShouldRateLimitStats :: ShouldRateLimitStats
  GlobalShadowMode :: metric

record RateLimitStats =
  Key :: string
  TotalHits :: metric
  OverLimit :: metric
  NearLimit :: metric
  OverLimitWithLocalCache :: metric
  WithinLimit :: metric
  ShadowModeStat :: metric

record DomainStats =
  ds_Key :: string
  NotFound :: metric

text \<open>The manager holds three scopes.\<close>

record ManagerImpl =
  rlStatsScope :: scope
  serviceStatsScope :: scope
  shouldRateLimitScope :: scope

section \<open>Operations\<close>

definition NewStatManager :: "(string \<times> string) list \<Rightarrow> ManagerImpl" where
  "NewStatManager extraTags =
     (let serviceScope = Scope (ScopeWithTags ''ratelimit'' extraTags) ''service'' in
      \<lparr>rlStatsScope = Scope serviceScope ''rate_limit'',
       serviceStatsScope = serviceScope,
       shouldRateLimitScope = Scope serviceScope ''call.should_rate_limit''\<rparr>)"

definition NewStats :: "ManagerImpl \<Rightarrow> string \<Rightarrow> RateLimitStats" where
  "NewStats this key =
     (let name = SanitizeStatName key; counter = (\<lambda>n. Metric (rlStatsScope this) (name @ n)) in
      \<lparr>Key = key,
       TotalHits = counter ''.total_hits'',
       OverLimit = counter ''.over_limit'',
       NearLimit = counter ''.near_limit'',
       OverLimitWithLocalCache = counter ''.over_limit_with_local_cache'',
       WithinLimit = counter ''.within_limit'',
       ShadowModeStat = counter ''.shadow_mode''\<rparr>)"

definition NewDomainStats :: "ManagerImpl \<Rightarrow> string \<Rightarrow> DomainStats" where
  "NewDomainStats this domain =
     (let name = SanitizeStatName domain in
      \<lparr>ds_Key = '''', NotFound = Metric (rlStatsScope this) (name @ ''.domain_not_found'')\<rparr>)"

definition NewShouldRateLimitStats :: "ManagerImpl \<Rightarrow> ShouldRateLimitStats" where
  "NewShouldRateLimitStats this =
     \<lparr>srl_RedisError = Metric (shouldRateLimitScope this) ''redis_error'',
      srl_ServiceError = Metric (shouldRateLimitScope this) ''service_error''\<rparr>"

definition NewServiceStats :: "ManagerImpl \<Rightarrow> ServiceStats" where
  "NewServiceStats this =
     \<lparr>ConfigLoadSuccess = Metric (serviceStatsScope this) ''config_load_success'',
      ConfigLoadError = Metric (serviceStatsScope this) ''config_load_error'',
      ShouldRateLimitStats = NewShouldRateLimitStats this,
      GlobalShadowMode = Metric (serviceStatsScope this) ''global_shadow_mode''\<rparr>"

definition GetKey :: "RateLimitStats \<Rightarrow> string" where
  "GetKey this = Key this"

section \<open>Lemmas\<close>

lemma NewStats_Key [simp]: "Key (NewStats m k) = k" "GetKey (NewStats m k) = k"
  by (simp_all add: NewStats_def GetKey_def Let_def)

text \<open>The six counters of one structure are six different metrics.\<close>

definition counters :: "RateLimitStats \<Rightarrow> metric list" where
  "counters rs = [TotalHits rs, OverLimit rs, NearLimit rs, OverLimitWithLocalCache rs,
     WithinLimit rs, ShadowModeStat rs]"

lemma NewStats_distinct: "distinct (counters (NewStats m k))"
  by (simp add: counters_def NewStats_def Let_def)

end
