(* ===== verification/Config.thy ===== *)
theory Config
  imports Stats
begin

text \<open>
  The package \<open>config\<close>, loading (\<open>src/config/config.go\<close>, \<open>src/config/config_impl.go\<close>,
  \<open>src/config/config_xds.go\<close>): the YAML data model, the validation of keys, and the
  construction of the tree of descriptors with its limits.

  A \<open>RateLimit\<close> is reached through pointers from the tree and from the requests that use it,
  and \<open>GetLimit\<close> may write to it. The limits are therefore the cells of a store, the list
  \<open>limits\<close> of the configuration, and a pointer is an index into it.

  Generated protobuf code is not part of the sources. What they use of it, the table from unit
  names to units and the printed form of a unit, are arguments.
\<close>

section \<open>Data\<close>

text \<open>\<open>pb.RateLimitResponse_RateLimit\<close>\<close>

record RateLimitPb =
  RequestsPerUnit :: u32
  lim_Unit :: Unit
  lim_Name :: string

record RateLimit =
  FullKey :: string
  rl_Stats :: RateLimitStats
  Limit :: RateLimitPb
  Unlimited :: bool
  ShadowMode :: bool
  Name :: string
  Replaces :: "string list"
  DetailedMetric :: bool

record YamlRateLimit =
  yl_RequestsPerUnit :: u32
  yl_Unit :: string
  yl_Unlimited :: bool
  yl_Name :: string
  yl_Replaces :: "string list"

datatype YamlDescriptor =
  YamlDescriptor (yd_Key: string) (yd_Value: string) (yd_RateLimit: "YamlRateLimit option")
    (yd_Descriptors: "YamlDescriptor list") (yd_ShadowMode: bool) (yd_DetailedMetric: bool)

record YamlRoot =
  yr_Domain :: string
  yr_Descriptors :: "YamlDescriptor list"

record RateLimitConfigToLoad =
  cl_Name :: string
  cl_ConfigYaml :: YamlRoot

text \<open>
  A Go map with string keys is an association list with distinct keys. The embedded
  \<open>rateLimitDomain\<close> adds nothing to a descriptor.
\<close>

datatype rateLimitDescriptor =
  RateLimitDescriptor (descriptors: "(string \<times> rateLimitDescriptor) list")
    (limit: "nat option") (wildcardKeys: "string list")

record rateLimitConfigImpl =
  domains :: "(string \<times> rateLimitDescriptor) list"
  statsManager :: ManagerImpl
  mergeDomainConfigs :: bool
  limits :: "RateLimit list"

section \<open>Loading\<close>

definition NewRateLimit ::
  "u32 \<Rightarrow> Unit \<Rightarrow> RateLimitStats \<Rightarrow> bool \<Rightarrow> bool \<Rightarrow> string \<Rightarrow> string list \<Rightarrow> bool \<Rightarrow> RateLimit" where
  "NewRateLimit requestsPerUnit unit rlStats unlimited shadowMode name replaces detailedMetric =
     \<lparr>FullKey = GetKey rlStats,
      rl_Stats = rlStats,
      Limit = \<lparr>RequestsPerUnit = requestsPerUnit, lim_Unit = unit, lim_Name = name\<rparr>,
      Unlimited = unlimited,
      ShadowMode = shadowMode,
      Name = name,
      Replaces = replaces,
      DetailedMetric = detailedMetric\<rparr>"

definition newRateLimitConfigError :: "string \<Rightarrow> string \<Rightarrow> panic" where
  "newRateLimitConfigError name err = RateLimitConfigError (name @ '': '' @ err)"

text \<open>The loop over \<open>Replaces\<close> (lines 176-183).\<close>

fun checkReplaces :: "string \<Rightarrow> string \<Rightarrow> string list \<Rightarrow> unit res" where
  "checkReplaces cname own [] = Inr ()"
| "checkReplaces cname own (r # rs) =
     (if r = '''' then
        Inl (newRateLimitConfigError cname ''should not have an empty replaces entry'')
      else if r = own then
        Inl (newRateLimitConfigError cname ''replaces should not contain name of same descriptor'')
      else checkReplaces cname own rs)"

text \<open>
  The limit of one YAML descriptor (lines 142-184): \<open>None\<close> without a \<open>rate_limit\<close> block,
  otherwise a new cell of the store.
\<close>

definition loadRateLimit ::
  "(string \<Rightarrow> Unit option) \<Rightarrow> ManagerImpl \<Rightarrow> string \<Rightarrow> string \<Rightarrow> YamlRateLimit option \<Rightarrow> bool \<Rightarrow> bool
    \<Rightarrow> RateLimit list \<Rightarrow> (nat option \<times> RateLimit list) res" where
  "loadRateLimit Unit_value sm cname newParentKey yrl shadow detailed h =
     (case yrl of
        None \<Rightarrow> Inr (None, h)
      | Some rl \<Rightarrow>
          (let unlimited = yl_Unlimited rl;
               looked_up = Unit_value (ToUpper (yl_Unit rl));
               value = (case looked_up of None \<Rightarrow> UNKNOWN | Some u \<Rightarrow> u);
               validUnit = (looked_up \<noteq> None \<and> value \<noteq> UNKNOWN)
           in if unlimited \<and> validUnit then
                Inl (newRateLimitConfigError cname
                  ''should not specify rate limit unit when unlimited'')
              else if \<not> unlimited \<and> \<not> validUnit then
                Inl (newRateLimitConfigError cname
                  (''invalid rate limit unit '' @ [CHR 0x27] @ yl_Unit rl @ [CHR 0x27]))
              else
                (let rateLimit = NewRateLimit (yl_RequestsPerUnit rl) value
                       (NewStats sm newParentKey) unlimited shadow (yl_Name rl) (yl_Replaces rl)
                       detailed
                 in case checkReplaces cname (yl_Name rl) (yl_Replaces rl) of
                      Inl p \<Rightarrow> Inl p
                    | Inr _ \<Rightarrow> Inr (Some (length h), h @ [rateLimit]))))"

definition finalKey :: "string \<Rightarrow> string \<Rightarrow> string" where
  "finalKey key value = (if value \<noteq> '''' then key @ ''_'' @ value else key)"

text \<open>\<open>finalKey[len(finalKey)-1:] == "*"\<close>, for a key that is not empty\<close>

definition ends_with_star :: "string \<Rightarrow> bool" where
  "ends_with_star k = (k \<noteq> [] \<and> last k = CHR ''*'')"

text \<open>Storing a new child and remembering its key if it is a wildcard (lines 190-195).\<close>

definition add_child ::
  "rateLimitDescriptor \<Rightarrow> string \<Rightarrow> rateLimitDescriptor \<Rightarrow> rateLimitDescriptor" where
  "add_child this k d =
     RateLimitDescriptor (descriptors this @ [(k, d)]) (limit this)
       (wildcardKeys this @ (if ends_with_star k then [k] else []))"

fun loadDescriptors ::
  "(string \<Rightarrow> Unit option) \<Rightarrow> ManagerImpl \<Rightarrow> string \<Rightarrow> string \<Rightarrow> rateLimitDescriptor
    \<Rightarrow> YamlDescriptor list \<Rightarrow> RateLimit list \<Rightarrow> (rateLimitDescriptor \<times> RateLimit list) res" where
  "loadDescriptors Unit_value sm cname parentKey this [] h = Inr (this, h)"
| "loadDescriptors Unit_value sm cname parentKey this
     (YamlDescriptor key value yrl subs shadow detailed # ds) h =
     (if key = '''' then Inl (newRateLimitConfigError cname ''descriptor has empty key'')
      else if map_of (descriptors this) (finalKey key value) \<noteq> None then
        Inl (newRateLimitConfigError cname
          (''duplicate descriptor composite key '' @ [CHR 0x27] @ parentKey @ finalKey key value
             @ [CHR 0x27]))
      else
        (case loadRateLimit Unit_value sm cname (parentKey @ finalKey key value) yrl shadow
                detailed h of
           Inl p \<Rightarrow> Inl p
         | Inr (rateLimit, h1) \<Rightarrow>
             (case loadDescriptors Unit_value sm cname (parentKey @ finalKey key value @ ''.'')
                     (RateLimitDescriptor [] rateLimit []) subs h1 of
                Inl p \<Rightarrow> Inl p
              | Inr (newDescriptor, h2) \<Rightarrow>
                  loadDescriptors Unit_value sm cname parentKey
                    (add_child this (finalKey key value) newDescriptor) ds h2)))"

text \<open>Writing an entry of a map: in place when the key is there, at the end otherwise.\<close>

fun store :: "'k \<Rightarrow> 'v \<Rightarrow> ('k \<times> 'v) list \<Rightarrow> ('k \<times> 'v) list" where
  "store k v [] = [(k, v)]"
| "store k v ((k', v') # m) = (if k = k' then (k, v) # m else (k', v') # store k v m)"

definition loadConfig ::
  "(string \<Rightarrow> Unit option) \<Rightarrow> rateLimitConfigImpl \<Rightarrow> RateLimitConfigToLoad
    \<Rightarrow> rateLimitConfigImpl res" where
  "loadConfig Unit_value this config =
     (let root = cl_ConfigYaml config; dom = yr_Domain root;
          load = (\<lambda>d. case loadDescriptors Unit_value (statsManager this) (cl_Name config)
                         (dom @ ''.'') d (yr_Descriptors root) (limits this) of
                    Inl p \<Rightarrow> Inl p
                  | Inr (d', h) \<Rightarrow> Inr (this\<lparr>domains := store dom d' (domains this), limits := h\<rparr>))
      in if dom = '''' then
           Inl (newRateLimitConfigError (cl_Name config) ''config file cannot have empty domain'')
         else case map_of (domains this) dom of
           Some d \<Rightarrow>
             if \<not> mergeDomainConfigs this then
               Inl (newRateLimitConfigError (cl_Name config)
                 (''duplicate domain '' @ [CHR 0x27] @ dom @ [CHR 0x27] @ '' in config file''))
             else load d
         | None \<Rightarrow> load (RateLimitDescriptor [] None []))"

fun loadConfigs ::
  "(string \<Rightarrow> Unit option) \<Rightarrow> rateLimitConfigImpl \<Rightarrow> RateLimitConfigToLoad list
    \<Rightarrow> rateLimitConfigImpl res" where
  "loadConfigs Unit_value this [] = Inr this"
| "loadConfigs Unit_value this (c # cs) =
     (case loadConfig Unit_value this c of Inl p \<Rightarrow> Inl p
      | Inr this' \<Rightarrow> loadConfigs Unit_value this' cs)"

definition NewRateLimitConfigImpl ::
  "(string \<Rightarrow> Unit option) \<Rightarrow> RateLimitConfigToLoad list \<Rightarrow> ManagerImpl \<Rightarrow> bool
    \<Rightarrow> rateLimitConfigImpl res" where
  "NewRateLimitConfigImpl Unit_value configs sm merge =
     loadConfigs Unit_value
       \<lparr>domains = [], statsManager = sm, mergeDomainConfigs = merge, limits = []\<rparr> configs"

definition IsEmptyDomains :: "rateLimitConfigImpl \<Rightarrow> bool" where
  "IsEmptyDomains this = (length (domains this) = 0)"

section \<open>Validation of YAML keys\<close>

text \<open>
  A value decoded by \<open>yaml.Unmarshal\<close> into \<open>interface{}\<close>: \<open>YOther\<close> is any other dynamic
  type. A YAML map is the list of its entries in the order in which Go happens to range over it.
\<close>

datatype yaml =
    YMap "(yaml \<times> yaml) list"
  | YList "yaml list"
  | YString string
  | YInt int
  | YBool bool
  | YNil
  | YOther

definition validKeys :: "string list" where
  "validKeys = [''domain'', ''key'', ''value'', ''descriptors'', ''rate_limit'', ''unit'',
     ''requests_per_unit'', ''unlimited'', ''shadow_mode'', ''name'', ''replaces'',
     ''detailed_metric'']"

text \<open>\<open>fmt_v\<close> is the formatting of a value by \<open>%v\<close>.\<close>

fun validateYamlKeys :: "(yaml \<Rightarrow> string) \<Rightarrow> string \<Rightarrow> (yaml \<times> yaml) list \<Rightarrow> unit res"
  and validateYamlValue :: "(yaml \<Rightarrow> string) \<Rightarrow> string \<Rightarrow> yaml \<Rightarrow> unit res"
  and validateYamlElems :: "(yaml \<Rightarrow> string) \<Rightarrow> string \<Rightarrow> yaml list \<Rightarrow> unit res" where
  "validateYamlKeys fmt_v fileName [] = Inr ()"
| "validateYamlKeys fmt_v fileName ((k, v) # rest) =
     (case k of
        YString key \<Rightarrow>
          if key \<notin> set validKeys then
            Inl (newRateLimitConfigError fileName
              (''config error, unknown key '' @ [CHR 0x27] @ key @ [CHR 0x27]))
          else (case validateYamlValue fmt_v fileName v of
                  Inl p \<Rightarrow> Inl p | Inr _ \<Rightarrow> validateYamlKeys fmt_v fileName rest)
      | _ \<Rightarrow> Inl (newRateLimitConfigError fileName
                 (''config error, key is not of type string: '' @ fmt_v k)))"
| "validateYamlValue fmt_v fileName (YList es) = validateYamlElems fmt_v fileName es"
| "validateYamlValue fmt_v fileName (YMap m) = validateYamlKeys fmt_v fileName m"
| "validateYamlValue fmt_v fileName (YString _) = Inr ()"
| "validateYamlValue fmt_v fileName (YInt _) = Inr ()"
| "validateYamlValue fmt_v fileName (YBool _) = Inr ()"
| "validateYamlValue fmt_v fileName YNil = Inr ()"
| "validateYamlValue fmt_v fileName YOther =
     Inl (newRateLimitConfigError fileName ''error checking config'')"
| "validateYamlElems fmt_v fileName [] = Inr ()"
| "validateYamlElems fmt_v fileName (e # es) =
     (case e of
        YMap m \<Rightarrow>
          (case validateYamlKeys fmt_v fileName m of
             Inl p \<Rightarrow> Inl p | Inr _ \<Rightarrow> validateYamlElems fmt_v fileName es)
      | _ \<Rightarrow> Inl (newRateLimitConfigError fileName
                 (''config error, yaml file contains list of type other than map: '' @ fmt_v e)))"

text \<open>
  \<open>ConfigFileContentToYaml\<close>: the two calls of \<open>yaml.Unmarshal\<close>, into a generic map and into
  the structure, are arguments; \<open>Inl\<close> is the text of the error.
\<close>

definition ConfigFileContentToYaml ::
  "(yaml \<Rightarrow> string) \<Rightarrow> (string \<Rightarrow> string + (yaml \<times> yaml) list) \<Rightarrow> (string \<Rightarrow> string + YamlRoot)
    \<Rightarrow> string \<Rightarrow> string \<Rightarrow> YamlRoot res" where
  "ConfigFileContentToYaml fmt_v unmarshal_any unmarshal_root fileName content =
     (case unmarshal_any content of
        Inl err \<Rightarrow> Inl (newRateLimitConfigError fileName (''error loading config file: '' @ err))
      | Inr any \<Rightarrow>
          (case validateYamlKeys fmt_v fileName any of
             Inl p \<Rightarrow> Inl p
           | Inr _ \<Rightarrow>
               (case unmarshal_root content of
                  Inl err \<Rightarrow>
                    Inl (newRateLimitConfigError fileName (''error loading config file: '' @ err))
                | Inr root \<Rightarrow> Inr root)))"

end
