(* ===== verification/Config_Lookup.thy ===== *)
theory Config_Lookup
  imports Config
begin

text \<open>
  The package \<open>config\<close>, lookups (\<open>GetLimit\<close>, \<open>descriptorKey\<close> of
  \<open>src/config/config_impl.go\<close>), and what a lookup finds in a loaded configuration.

  The properties relate the code to a specification on the YAML itself, \<open>yaml_lookup\<close>, which
  says with \<open>find\<close> alone which YAML descriptor a request descriptor selects: at every level the
  entry with the exact key and value, else the first wildcard entry that fits, else the entry with
  the key alone; and the selected path has as many levels as the request has entries.
\<close>

section \<open>Request descriptors\<close>

record Entry =
  en_Key :: string
  en_Value :: string

record RateLimitOverride =
  ov_RequestsPerUnit :: u32
  ov_Unit :: Unit

record Descriptor =
  Entries :: "Entry list"
  de_Limit :: "RateLimitOverride option"

section \<open>Lookup\<close>

fun descriptorKey_loop :: "string \<Rightarrow> Entry list \<Rightarrow> string" where
  "descriptorKey_loop acc [] = acc"
| "descriptorKey_loop acc (e # es) =
     (let a1 = (if acc \<noteq> '''' then acc @ ''.'' else acc);
          a2 = a1 @ en_Key e;
          a3 = (if en_Value e \<noteq> '''' then a2 @ ''_'' @ en_Value e else a2)
      in descriptorKey_loop a3 es)"

definition descriptorKey :: "string \<Rightarrow> Descriptor \<Rightarrow> string" where
  "descriptorKey domain descriptor = domain @ ''.'' @ descriptorKey_loop '''' (Entries descriptor)"

text \<open>
  One level of the lookup (lines 319-340): the map the level searches, the descriptor that owns
  the wildcard keys, and the entry of the request.
\<close>

definition nextDescriptor ::
  "(string \<times> rateLimitDescriptor) list \<Rightarrow> rateLimitDescriptor \<Rightarrow> Entry
    \<Rightarrow> rateLimitDescriptor option" where
  "nextDescriptor descriptorsMap prevDescriptor entry =
     (let key = en_Key entry @ ''_'' @ en_Value entry;
          n1 = map_of descriptorsMap key;
          n2 = (if n1 = None \<and> length (wildcardKeys prevDescriptor) > 0
                then (case find (\<lambda>w. HasPrefix key (TrimSuffix w ''*''))
                              (wildcardKeys prevDescriptor) of
                        None \<Rightarrow> n1
                      | Some w \<Rightarrow> map_of descriptorsMap w)
                else n1)
      in if n2 = None then map_of descriptorsMap (en_Key entry) else n2)"

text \<open>
  Leaving the loop (lines 356-360): a detailed limit is copied, so that the store's cell is not
  the one written afterwards.
\<close>

definition GetLimit_break ::
  "ManagerImpl \<Rightarrow> RateLimit list \<Rightarrow> nat option \<Rightarrow> RateLimit list \<times> nat option" where
  "GetLimit_break sm h rateLimit =
     (case rateLimit of
        Some a \<Rightarrow>
          (let rl = h ! a in
           if DetailedMetric rl
           then (h @ [NewRateLimit (RequestsPerUnit (Limit rl)) (lim_Unit (Limit rl))
                        (NewStats sm (FullKey rl)) (Unlimited rl) (ShadowMode rl) (Name rl)
                        (Replaces rl) (DetailedMetric rl)], Some (length h))
           else (h, rateLimit))
      | None \<Rightarrow> (h, rateLimit))"

text \<open>
  The loop (lines 316-363) with its variables: the store of limits, \<open>descriptorsMap\<close>,
  \<open>prevDescriptor\<close>, the detailed key built so far and \<open>rateLimit\<close>; it returns the store, the
  key and \<open>rateLimit\<close>. The last entry is the one with no entries after it.
\<close>

fun GetLimit_loop ::
  "ManagerImpl \<Rightarrow> RateLimit list \<Rightarrow> (string \<times> rateLimitDescriptor) list \<Rightarrow> rateLimitDescriptor
    \<Rightarrow> string \<Rightarrow> nat option \<Rightarrow> Entry list \<Rightarrow> RateLimit list \<times> string \<times> nat option" where
  "GetLimit_loop sm h descriptorsMap prevDescriptor fullKey rateLimit [] = (h, fullKey, rateLimit)"
| "GetLimit_loop sm h descriptorsMap prevDescriptor fullKey rateLimit (entry # rest) =
     (let key' = fullKey @ ''.'' @ en_Key entry @ ''_'' @ en_Value entry;
          next = nextDescriptor descriptorsMap prevDescriptor entry;
          rateLimit' = (case next of
                          Some d \<Rightarrow> if limit d \<noteq> None \<and> rest = [] then limit d else rateLimit
                        | None \<Rightarrow> rateLimit);
          break = (case GetLimit_break sm h rateLimit' of (h', r) \<Rightarrow> (h', key', r))
      in case next of
           Some d \<Rightarrow>
             if length (descriptors d) > 0
             then GetLimit_loop sm h (descriptors d) d key' rateLimit' rest
             else break
         | None \<Rightarrow> break)"

text \<open>
  \<open>GetLimit\<close>: the pointer it returns, the configuration after the call (its store may have a
  new cell, or a written one), and the metric calls.
\<close>

definition GetLimit ::
  "rateLimitConfigImpl \<Rightarrow> string \<Rightarrow> Descriptor
    \<Rightarrow> nat option \<times> rateLimitConfigImpl \<times> stat_event list" where
  "GetLimit this domain descriptor =
     (case map_of (domains this) domain of
        None \<Rightarrow> (None, this, [CounterInc (NotFound (NewDomainStats (statsManager this) domain))])
      | Some value \<Rightarrow>
          (case de_Limit descriptor of
             Some ov \<Rightarrow>
               (Some (length (limits this)),
                this\<lparr>limits := limits this @
                  [NewRateLimit (ov_RequestsPerUnit ov) (ov_Unit ov)
                     (NewStats (statsManager this) (descriptorKey domain descriptor))
                     False False '''' [] False]\<rparr>,
                [])
           | None \<Rightarrow>
               (case GetLimit_loop (statsManager this) (limits this) (descriptors value) value
                       domain None (Entries descriptor) of
                  (h, fullKey, rateLimit) \<Rightarrow>
                    (case rateLimit of
                       Some a \<Rightarrow>
                         if DetailedMetric (h ! a)
                         then (rateLimit,
                               this\<lparr>limits := h[a := (h ! a)\<lparr>rl_Stats :=
                                 NewStats (statsManager this) fullKey\<rparr>]\<rparr>, [])
                         else (rateLimit, this\<lparr>limits := h\<rparr>, [])
                     | None \<Rightarrow> (rateLimit, this\<lparr>limits := h\<rparr>, [])))))"

section \<open>The specification on the YAML\<close>

definition composite :: "YamlDescriptor \<Rightarrow> string" where
  "composite d = finalKey (yd_Key d) (yd_Value d)"

definition fits :: "Entry \<Rightarrow> string \<Rightarrow> bool" where
  "fits e w = (ends_with_star w \<and> prefix (butlast w) (en_Key e @ ''_'' @ en_Value e))"

definition yaml_find :: "YamlDescriptor list \<Rightarrow> Entry \<Rightarrow> YamlDescriptor option" where
  "yaml_find ds e =
     (case find (\<lambda>d. composite d = en_Key e @ ''_'' @ en_Value e) ds of
        Some d \<Rightarrow> Some d
      | None \<Rightarrow>
          (case find (\<lambda>d. fits e (composite d)) ds of
             Some d \<Rightarrow> Some d
           | None \<Rightarrow> find (\<lambda>d. composite d = en_Key e) ds))"

text \<open>The descriptor a request selects, with its full key.\<close>

fun yaml_lookup ::
  "string \<Rightarrow> YamlDescriptor list \<Rightarrow> Entry list \<Rightarrow> (string \<times> YamlDescriptor) option" where
  "yaml_lookup parentKey ds [] = None"
| "yaml_lookup parentKey ds (e # es) =
     Option.bind (yaml_find ds e)
       (\<lambda>d. if es = [] then Some (parentKey @ composite d, d)
            else yaml_lookup (parentKey @ composite d @ ''.'') (yd_Descriptors d) es)"

text \<open>The limit a YAML descriptor describes, given its full key.\<close>

definition yaml_limit ::
  "(string \<Rightarrow> Unit option) \<Rightarrow> ManagerImpl \<Rightarrow> string \<Rightarrow> YamlDescriptor \<Rightarrow> RateLimit option" where
  "yaml_limit Unit_value sm key d =
     map_option (\<lambda>rl. NewRateLimit (yl_RequestsPerUnit rl)
         (case Unit_value (ToUpper (yl_Unit rl)) of None \<Rightarrow> UNKNOWN | Some u \<Rightarrow> u)
         (NewStats sm key) (yl_Unlimited rl) (yd_ShadowMode d) (yl_Name rl) (yl_Replaces rl)
         (yd_DetailedMetric d))
       (yd_RateLimit d)"

text \<open>The descriptors that the configuration files give a domain, in load order.\<close>

definition yaml_of :: "RateLimitConfigToLoad list \<Rightarrow> string \<Rightarrow> YamlDescriptor list" where
  "yaml_of cs domain =
     concat (map (\<lambda>c. if yr_Domain (cl_ConfigYaml c) = domain
                      then yr_Descriptors (cl_ConfigYaml c) else []) cs)"

text \<open>The key under which a limit is counted in the metrics, when the limit is detailed.\<close>

definition detailed_key :: "string \<Rightarrow> Entry list \<Rightarrow> string" where
  "detailed_key domain es =
     domain @ concat (map (\<lambda>e. ''.'' @ en_Key e @ ''_'' @ en_Value e) es)"


section \<open>A tree mirrors its YAML\<close>

text \<open>
  A cell of the store holds the limit its YAML describes; of a detailed limit the metrics may have
  been replaced by a lookup.
\<close>

definition cell_ok :: "RateLimit \<Rightarrow> RateLimit \<Rightarrow> bool" where
  "cell_ok rl c = (if DetailedMetric rl then c\<lparr>rl_Stats := rl_Stats rl\<rparr> = rl else c = rl)"

definition limit_mirrors :: "RateLimit option \<Rightarrow> RateLimit list \<Rightarrow> nat option \<Rightarrow> bool" where
  "limit_mirrors yl h p =
     (case yl of None \<Rightarrow> p = None
      | Some rl \<Rightarrow> (\<exists>a < length h. p = Some a \<and> cell_ok rl (h ! a)))"

definition wildcards_ok :: "rateLimitDescriptor \<Rightarrow> bool" where
  "wildcards_ok d = (wildcardKeys d = filter ends_with_star (map fst (descriptors d)))"

fun mirrors ::
  "(string \<Rightarrow> Unit option) \<Rightarrow> ManagerImpl \<Rightarrow> RateLimit list \<Rightarrow> string \<Rightarrow> YamlDescriptor
    \<Rightarrow> rateLimitDescriptor \<Rightarrow> bool"
  and mirrors_all ::
  "(string \<Rightarrow> Unit option) \<Rightarrow> ManagerImpl \<Rightarrow> RateLimit list \<Rightarrow> string \<Rightarrow> YamlDescriptor list
    \<Rightarrow> (string \<times> rateLimitDescriptor) list \<Rightarrow> bool" where
  "mirrors tbl sm h parent (YamlDescriptor k v rl subs sh dm) d =
     (limit_mirrors (yaml_limit tbl sm (parent @ finalKey k v) (YamlDescriptor k v rl subs sh dm))
        h (limit d) \<and>
      distinct (map fst (descriptors d)) \<and> wildcards_ok d \<and>
      mirrors_all tbl sm h (parent @ finalKey k v @ ''.'') subs (descriptors d))"
| "mirrors_all tbl sm h parent [] cs = (cs = [])"
| "mirrors_all tbl sm h parent (y # ys) [] = False"
| "mirrors_all tbl sm h parent (y # ys) ((k, d) # cs) =
     (k = composite y \<and> mirrors tbl sm h parent y d \<and> mirrors_all tbl sm h parent ys cs)"

definition mirrors_level ::
  "(string \<Rightarrow> Unit option) \<Rightarrow> ManagerImpl \<Rightarrow> RateLimit list \<Rightarrow> string \<Rightarrow> YamlDescriptor list
    \<Rightarrow> rateLimitDescriptor \<Rightarrow> bool" where
  "mirrors_level tbl sm h parent ys d =
     (distinct (map fst (descriptors d)) \<and> wildcards_ok d \<and>
      mirrors_all tbl sm h parent ys (descriptors d))"

lemma mirrors_iff:
  "mirrors tbl sm h parent y d \<longleftrightarrow>
     limit_mirrors (yaml_limit tbl sm (parent @ composite y) y) h (limit d) \<and>
     mirrors_level tbl sm h (parent @ composite y @ ''.'') (yd_Descriptors y) d"
  by (cases y) (simp add: composite_def mirrors_level_def)

lemma mirrors_all_keys: "mirrors_all tbl sm h parent ys cs \<Longrightarrow> map fst cs = map composite ys"
  by (induction ys cs rule: list_induct2') auto

lemma cell_ok_refl [simp]: "cell_ok rl rl"
  by (simp add: cell_ok_def)

lemma cell_ok_update: "cell_ok rl c \<Longrightarrow> DetailedMetric c \<Longrightarrow> cell_ok rl (c\<lparr>rl_Stats := st\<rparr>)"
  by (auto simp: cell_ok_def split: if_splits)

lemma limit_mirrors_append: "limit_mirrors yl h p \<Longrightarrow> limit_mirrors yl (h @ h') p"
  by (auto simp: limit_mirrors_def nth_append split: option.splits)

lemma limit_mirrors_update:
  assumes "limit_mirrors yl h p" and "DetailedMetric (h ! a)"
  shows "limit_mirrors yl (h[a := (h ! a)\<lparr>rl_Stats := st\<rparr>]) p"
  using assms cell_ok_update
  by (auto simp: limit_mirrors_def split: option.splits)
    (metis nth_list_update_eq nth_list_update_neq)

text \<open>What happens to the store later keeps the tree a mirror of its YAML.\<close>

lemma mirrors_append:
  "mirrors tbl sm h parent y d \<Longrightarrow> mirrors tbl sm (h @ h') parent y d"
  "mirrors_all tbl sm h parent ys cs \<Longrightarrow> mirrors_all tbl sm (h @ h') parent ys cs"
  by (induction tbl sm h parent y d and tbl sm h parent ys cs rule: mirrors_mirrors_all.induct)
    (auto simp: limit_mirrors_append)

lemma mirrors_update:
  "mirrors tbl sm h parent y d \<Longrightarrow> DetailedMetric (h ! a) \<Longrightarrow>
      mirrors tbl sm (h[a := (h ! a)\<lparr>rl_Stats := st\<rparr>]) parent y d"
  "mirrors_all tbl sm h parent ys cs \<Longrightarrow> DetailedMetric (h ! a) \<Longrightarrow>
      mirrors_all tbl sm (h[a := (h ! a)\<lparr>rl_Stats := st\<rparr>]) parent ys cs"
  by (induction tbl sm h parent y d and tbl sm h parent ys cs rule: mirrors_mirrors_all.induct)
    (auto simp: limit_mirrors_update)

lemma mirrors_all_append:
  "mirrors_all tbl sm h parent ys cs \<Longrightarrow> mirrors_all tbl sm h parent zs ds \<Longrightarrow>
   mirrors_all tbl sm h parent (ys @ zs) (cs @ ds)"
  by (induction ys cs rule: list_induct2') auto

section \<open>Loading gives a mirror\<close>

lemma loadRateLimit_mirrors:
  assumes "loadRateLimit tbl sm cname key rl sh dm h = Inr (p, h')"
  shows "(\<exists>h2. h' = h @ h2) \<and>
    limit_mirrors (yaml_limit tbl sm key (YamlDescriptor k v rl subs sh dm)) h' p"
  using assms
  by (auto simp: loadRateLimit_def limit_mirrors_def yaml_limit_def Let_def nth_append
      split: option.splits if_splits sum.splits)

lemma add_child_simps [simp]:
  "descriptors (add_child this k d) = descriptors this @ [(k, d)]"
  "limit (add_child this k d) = limit this"
  "wildcardKeys (add_child this k d) = wildcardKeys this @ (if ends_with_star k then [k] else [])"
  by (simp_all add: add_child_def)

lemma add_child_ok:
  "wildcards_ok this \<Longrightarrow> wildcards_ok (add_child this k d)"
  by (simp add: wildcards_ok_def)

text \<open>
  Loading a list of descriptors into a node adds one child per descriptor, each a mirror of it,
  and keeps what was there.
\<close>

lemma loadDescriptors_mirrors:
  assumes "loadDescriptors tbl sm cname parent this ys h = Inr (this', h')"
    and "distinct (map fst (descriptors this))" and "wildcards_ok this"
  shows "\<exists>cs h2. h' = h @ h2 \<and> descriptors this' = descriptors this @ cs \<and>
    limit this' = limit this \<and> distinct (map fst (descriptors this')) \<and> wildcards_ok this' \<and>
    mirrors_all tbl sm h' parent ys cs"
  using assms
proof (induction tbl sm cname parent this ys h arbitrary: this' h' rule: loadDescriptors.induct)
  case (1 tbl sm cname parent this h)
  then show ?case by simp
next
  case (2 tbl sm cname parent this k v rl subs sh dm ds h)
  let ?fk = "finalKey k v"
  from "2.prems"(1) have k: "k \<noteq> ''''" and new: "map_of (descriptors this) ?fk = None"
    by (auto split: if_splits)
  from "2.prems"(1) k new obtain p h1 where
    rl: "loadRateLimit tbl sm cname (parent @ ?fk) rl sh dm h = Inr (p, h1)"
    by (auto split: sum.splits)
  from "2.prems"(1) k new rl obtain nd h3 where
    nd: "loadDescriptors tbl sm cname (parent @ ?fk @ ''.'') (RateLimitDescriptor [] p []) subs h1
           = Inr (nd, h3)"
    and rest: "loadDescriptors tbl sm cname parent (add_child this ?fk nd) ds h3 = Inr (this', h')"
    by (auto split: sum.splits)
  have kn: "\<not> k = ''''" "\<not> map_of (descriptors this) ?fk \<noteq> None" using k new by auto
  obtain h2 where h1: "h1 = h @ h2"
    and lm: "limit_mirrors (yaml_limit tbl sm (parent @ ?fk) (YamlDescriptor k v rl subs sh dm)) h1 p"
    using loadRateLimit_mirrors [OF rl] by blast
  obtain cs h4 where h3: "h3 = h1 @ h4" and nd': "descriptors nd = cs" "limit nd = p"
      "distinct (map fst (descriptors nd))" "wildcards_ok nd"
    and subs: "mirrors_all tbl sm h3 (parent @ ?fk @ ''.'') subs cs"
    using "2.IH"(1) [OF kn rl refl nd] by (auto simp: wildcards_ok_def)
  have "distinct (map fst (descriptors (add_child this ?fk nd)))"
    using "2.prems"(2) new by (auto simp: map_of_eq_None_iff)
  then obtain cs' h5 where h': "h' = h3 @ h5"
    and d': "descriptors this' = descriptors this @ (?fk, nd) # cs'" "limit this' = limit this"
      "distinct (map fst (descriptors this'))" "wildcards_ok this'"
    and ds: "mirrors_all tbl sm h' parent ds cs'"
    using "2.IH"(2) [OF kn rl refl nd refl rest] add_child_ok [OF "2.prems"(3)] by auto
  have "mirrors tbl sm h' parent (YamlDescriptor k v rl subs sh dm) nd"
    using lm mirrors_append(2) [OF subs, of h5] nd' h' h3 by (simp add: limit_mirrors_append)
  with ds d' h' h3 h1 show ?case
    by (intro exI [of _ "(?fk, nd) # cs'"] exI [of _ "h2 @ h4 @ h5"])
      (auto simp: composite_def)
qed


lemma map_of_store: "map_of (store k v m) = (map_of m)(k \<mapsto> v)"
  by (induction k v m rule: store.induct) (auto simp: fun_eq_iff)

text \<open>A configuration mirrors the files loaded so far.\<close>

definition config_mirrors ::
  "(string \<Rightarrow> Unit option) \<Rightarrow> RateLimitConfigToLoad list \<Rightarrow> rateLimitConfigImpl \<Rightarrow> bool" where
  "config_mirrors tbl cs cfg =
     (\<forall>dn. case map_of (domains cfg) dn of
        None \<Rightarrow> dn \<notin> (\<lambda>c. yr_Domain (cl_ConfigYaml c)) ` set cs
      | Some d \<Rightarrow> dn \<in> (\<lambda>c. yr_Domain (cl_ConfigYaml c)) ` set cs \<and>
          mirrors_level tbl (statsManager cfg) (limits cfg) (dn @ ''.'') (yaml_of cs dn) d)"

lemma mirrors_level_append:
  "mirrors_level tbl sm h parent ys d \<Longrightarrow> mirrors_level tbl sm (h @ h') parent ys d"
  by (simp add: mirrors_level_def mirrors_append)

lemma yaml_of_snoc:
  "yaml_of (cs @ [c]) dn = yaml_of cs dn @
     (if yr_Domain (cl_ConfigYaml c) = dn then yr_Descriptors (cl_ConfigYaml c) else [])"
  by (simp add: yaml_of_def)

lemma yaml_of_absent:
  "dn \<notin> (\<lambda>c. yr_Domain (cl_ConfigYaml c)) ` set cs \<Longrightarrow> yaml_of cs dn = []"
  by (induction cs) (auto simp: yaml_of_def)

text \<open>What \<open>loadConfig\<close> does when it succeeds: the domain's node is loaded with more children.\<close>

lemma loadConfig_cases:
  assumes "loadConfig tbl this c = Inr this'"
  obtains d d' h where
    "d = (case map_of (domains this) (yr_Domain (cl_ConfigYaml c)) of
            Some d0 \<Rightarrow> d0 | None \<Rightarrow> RateLimitDescriptor [] None [])"
    "loadDescriptors tbl (statsManager this) (cl_Name c) (yr_Domain (cl_ConfigYaml c) @ ''.'') d
       (yr_Descriptors (cl_ConfigYaml c)) (limits this) = Inr (d', h)"
    "this' = this\<lparr>domains := store (yr_Domain (cl_ConfigYaml c)) d' (domains this), limits := h\<rparr>"
  using assms
  by (auto simp: loadConfig_def Let_def split: if_splits option.splits sum.splits)

lemma loadConfig_mirrors:
  assumes load: "loadConfig tbl this c = Inr this'" and inv: "config_mirrors tbl cs this"
  shows "config_mirrors tbl (cs @ [c]) this' \<and> statsManager this' = statsManager this"
proof -
  let ?dn = "yr_Domain (cl_ConfigYaml c)" and ?ys = "yr_Descriptors (cl_ConfigYaml c)"
  let ?sm = "statsManager this"
  obtain d d' h where d: "d = (case map_of (domains this) ?dn of
            Some d0 \<Rightarrow> d0 | None \<Rightarrow> RateLimitDescriptor [] None [])"
    and ld: "loadDescriptors tbl ?sm (cl_Name c) (?dn @ ''.'') d ?ys (limits this) = Inr (d', h)"
    and this': "this' = this\<lparr>domains := store ?dn d' (domains this), limits := h\<rparr>"
    using load by (rule loadConfig_cases)
  have old: "mirrors_level tbl ?sm (limits this) (?dn @ ''.'') (yaml_of cs ?dn) d"
    using inv [unfolded config_mirrors_def, rule_format, of ?dn] d
    by (auto simp: yaml_of_absent mirrors_level_def wildcards_ok_def split: option.splits)
  obtain ch h2 where h: "h = limits this @ h2" and ch: "descriptors d' = descriptors d @ ch"
      "distinct (map fst (descriptors d'))" "wildcards_ok d'"
      "mirrors_all tbl ?sm h (?dn @ ''.'') ?ys ch"
    using loadDescriptors_mirrors [OF ld] old by (auto simp: mirrors_level_def)
  have new: "mirrors_level tbl ?sm h (?dn @ ''.'') (yaml_of (cs @ [c]) ?dn) d'"
    using mirrors_level_append [OF old, of h2] ch h
    by (auto simp: mirrors_level_def yaml_of_snoc intro: mirrors_all_append)
  have "case map_of (domains this') dn of
        None \<Rightarrow> dn \<notin> (\<lambda>c. yr_Domain (cl_ConfigYaml c)) ` set (cs @ [c])
      | Some d \<Rightarrow> dn \<in> (\<lambda>c. yr_Domain (cl_ConfigYaml c)) ` set (cs @ [c]) \<and>
          mirrors_level tbl ?sm (limits this') (dn @ ''.'') (yaml_of (cs @ [c]) dn) d" for dn
    using inv [unfolded config_mirrors_def, rule_format, of dn] new this' h
    by (auto simp: map_of_store yaml_of_snoc mirrors_level_append split: option.splits)
  moreover have "statsManager this' = ?sm" using this' by simp
  ultimately show ?thesis unfolding config_mirrors_def by (simp only:) blast
qed

lemma loadConfigs_mirrors:
  "loadConfigs tbl this cs = Inr this' \<Longrightarrow> config_mirrors tbl cs0 this \<Longrightarrow>
   config_mirrors tbl (cs0 @ cs) this' \<and> statsManager this' = statsManager this"
proof (induction cs arbitrary: this cs0)
  case Nil
  then show ?case by simp
next
  case (Cons c cs)
  from Cons.prems(1) obtain t where t: "loadConfig tbl this c = Inr t"
    and rest: "loadConfigs tbl t cs = Inr this'"
    by (auto split: sum.splits)
  from loadConfig_mirrors [OF t Cons.prems(2)] Cons.IH [OF rest, of "cs0 @ [c]"]
  show ?case by simp
qed

lemma NewRateLimitConfigImpl_mirrors:
  assumes "NewRateLimitConfigImpl tbl cs sm merge = Inr cfg"
  shows "config_mirrors tbl cs cfg \<and> statsManager cfg = sm"
  using loadConfigs_mirrors [of tbl _ cs cfg "[]"] assms
  by (simp add: NewRateLimitConfigImpl_def config_mirrors_def)

section \<open>A lookup in a mirror\<close>

lemma mirrors_all_find:
  assumes "mirrors_all tbl sm h parent ys cs"
  shows "case find (\<lambda>y. composite y = k) ys of
           None \<Rightarrow> map_of cs k = None
         | Some y \<Rightarrow> \<exists>d. map_of cs k = Some d \<and> mirrors tbl sm h parent y d"
  using assms by (induction ys cs rule: list_induct2') (auto split: option.splits)

lemma find_filter: "find P (filter Q xs) = find (\<lambda>x. Q x \<and> P x) xs"
  by (induction xs) auto

lemma find_map: "find P (map f xs) = map_option f (find (P \<circ> f) xs)"
  by (induction xs) auto

lemma TrimSuffix_star: "ends_with_star w \<Longrightarrow> TrimSuffix w ''*'' = butlast w"
  by (auto simp: ends_with_star_def TrimSuffix_def suffix_def butlast_conv_take)
    (metis append_butlast_last_id)

lemma find_composite_same:
  "find (\<lambda>y. P (composite y)) ys = Some y \<Longrightarrow> find (\<lambda>z. composite z = composite y) ys = Some y"
  by (induction ys) (auto split: if_splits simp: find_Some_iff)

text \<open>One level of a lookup selects the child that mirrors the YAML descriptor it should.\<close>

lemma nextDescriptor_mirrors:
  assumes lev: "mirrors_level tbl sm h parent ys d"
  shows "case yaml_find ys e of
           None \<Rightarrow> nextDescriptor (descriptors d) d e = None
         | Some y \<Rightarrow> \<exists>c. nextDescriptor (descriptors d) d e = Some c \<and> mirrors tbl sm h parent y c"
proof -
  let ?key = "en_Key e @ ''_'' @ en_Value e"
  have all: "mirrors_all tbl sm h parent ys (descriptors d)" and wc: "wildcards_ok d"
    using lev by (simp_all add: mirrors_level_def)
  have wild: "find (\<lambda>w. HasPrefix ?key (TrimSuffix w ''*'')) (wildcardKeys d) =
      map_option composite (find (\<lambda>y. fits e (composite y)) ys)"
  proof -
    have "find (\<lambda>w. HasPrefix ?key (TrimSuffix w ''*'')) (wildcardKeys d) =
        find (\<lambda>w. ends_with_star w \<and> HasPrefix ?key (TrimSuffix w ''*'')) (map composite ys)"
      using wc mirrors_all_keys [OF all] by (simp add: wildcards_ok_def find_filter)
    also have "(\<lambda>w. ends_with_star w \<and> HasPrefix ?key (TrimSuffix w ''*'')) = fits e"
      by (auto simp: fits_def HasPrefix_def TrimSuffix_star fun_eq_iff)
    finally show ?thesis by (simp add: find_map comp_def)
  qed
  show ?thesis
  proof (cases "find (\<lambda>y. composite y = ?key) ys")
    case (Some y)
    with mirrors_all_find [OF all, of ?key] show ?thesis
      by (auto simp: yaml_find_def nextDescriptor_def Let_def)
  next
    case none: None
    then have m1: "map_of (descriptors d) ?key = None"
      using mirrors_all_find [OF all, of ?key] by simp
    show ?thesis
    proof (cases "find (\<lambda>y. fits e (composite y)) ys")
      case (Some y)
      with wild have w: "find (\<lambda>w. HasPrefix ?key (TrimSuffix w ''*'')) (wildcardKeys d) =
        Some (composite y)" by simp
      then have "wildcardKeys d \<noteq> []" by auto
      moreover obtain c where "map_of (descriptors d) (composite y) = Some c"
          "mirrors tbl sm h parent y c"
        using mirrors_all_find [OF all, of "composite y"] find_composite_same [OF Some] by auto
      ultimately show ?thesis
        using none m1 w Some by (simp add: yaml_find_def nextDescriptor_def Let_def)
    next
      case None
      with wild have w: "find (\<lambda>w. HasPrefix ?key (TrimSuffix w ''*'')) (wildcardKeys d) = None"
        by simp
      show ?thesis
        using none None m1 w mirrors_all_find [OF all, of "en_Key e"]
        by (simp add: yaml_find_def nextDescriptor_def Let_def split: option.splits)
    qed
  qed
qed


text \<open>
  The whole loop. It ends with \<open>rateLimit\<close> nil unless the request selects a descriptor of the
  YAML; then it holds that descriptor's limit, copied if the limit is detailed and its node has no
  children, and the key is the detailed key.
\<close>

definition loop_result ::
  "ManagerImpl \<Rightarrow> RateLimit list \<Rightarrow> string \<Rightarrow> Entry list \<Rightarrow> rateLimitDescriptor
    \<Rightarrow> RateLimit list \<times> string \<times> nat option" where
  "loop_result sm h fullKey es c =
     (case (if descriptors c = [] then GetLimit_break sm h (limit c) else (h, limit c)) of
        (h', r) \<Rightarrow> (h', detailed_key fullKey es, r))"

lemma GetLimit_loop_mirrors:
  assumes "mirrors_level tbl sm h parent ys d" and "es \<noteq> []"
  shows "case yaml_lookup parent ys es of
           None \<Rightarrow> \<exists>key. GetLimit_loop sm h (descriptors d) d fullKey None es = (h, key, None)
         | Some (k, y) \<Rightarrow> \<exists>c. limit_mirrors (yaml_limit tbl sm k y) h (limit c) \<and>
             GetLimit_loop sm h (descriptors d) d fullKey None es = loop_result sm h fullKey es c"
  using assms
proof (induction es arbitrary: parent ys d fullKey)
  case Nil
  then show ?case by simp
next
  case (Cons e es)
  let ?key = "fullKey @ ''.'' @ en_Key e @ ''_'' @ en_Value e"
  show ?case
  proof (cases "yaml_find ys e")
    case None
    then have "nextDescriptor (descriptors d) d e = None"
      using nextDescriptor_mirrors [OF Cons.prems(1), of e] by simp
    with None show ?thesis by (simp add: GetLimit_break_def Let_def)
  next
    case (Some y)
    then obtain c where c: "nextDescriptor (descriptors d) d e = Some c"
      and m: "mirrors tbl sm h parent y c"
      using nextDescriptor_mirrors [OF Cons.prems(1), of e] by auto
    have lim: "limit_mirrors (yaml_limit tbl sm (parent @ composite y) y) h (limit c)"
      and lev: "mirrors_level tbl sm h (parent @ composite y @ ''.'') (yd_Descriptors y) c"
      using m by (simp_all add: mirrors_iff)
    show ?thesis
    proof (cases "es = []")
      case True
      have "GetLimit_loop sm h (descriptors d) d fullKey None (e # es) =
          loop_result sm h fullKey (e # es) c"
        using c True by (cases "limit c") (simp_all add: loop_result_def detailed_key_def Let_def)
      moreover have "yaml_lookup parent ys (e # es) = Some (parent @ composite y, y)"
        using Some True by simp
      ultimately show ?thesis using lim by (simp only: option.case prod.case) blast
    next
      case False
      have yl: "yaml_lookup parent ys (e # es) =
          yaml_lookup (parent @ composite y @ ''.'') (yd_Descriptors y) es"
        using Some False by simp
      show ?thesis
      proof (cases "descriptors c = []")
        case True
        then have "yd_Descriptors y = []"
          using lev mirrors_all_keys by (fastforce simp: mirrors_level_def)
        then have "yaml_lookup p (yd_Descriptors y) es = None" for p
          using False by (cases es) (simp_all add: yaml_find_def)
        with yl c False True show ?thesis by (simp add: GetLimit_break_def Let_def)
      next
        case ch: False
        have "GetLimit_loop sm h (descriptors d) d fullKey None (e # es) =
            GetLimit_loop sm h (descriptors c) c ?key None es"
          using c False ch by (simp add: Let_def)
        moreover have "loop_result sm h ?key es = loop_result sm h fullKey (e # es)"
          by (simp add: loop_result_def detailed_key_def fun_eq_iff)
        ultimately show ?thesis
          using Cons.IH [OF lev False, of ?key] yl by (simp only:)
      qed
    qed
  qed
qed

text \<open>
  The state of a configuration during its life: it is loaded from files, and lookups are made.
\<close>

inductive in_service ::
  "(string \<Rightarrow> Unit option) \<Rightarrow> RateLimitConfigToLoad list \<Rightarrow> ManagerImpl \<Rightarrow> bool \<Rightarrow> rateLimitConfigImpl
    \<Rightarrow> bool" for tbl cs sm merge where
  loaded: "NewRateLimitConfigImpl tbl cs sm merge = Inr cfg \<Longrightarrow> in_service tbl cs sm merge cfg"
| looked_up: "in_service tbl cs sm merge cfg \<Longrightarrow> GetLimit cfg domain descriptor = (p, cfg', ev) \<Longrightarrow>
    in_service tbl cs sm merge cfg'"

lemma config_mirrors_mono:
  assumes "config_mirrors tbl cs cfg"
    and "\<And>parent ys d. mirrors_level tbl (statsManager cfg) (limits cfg) parent ys d \<Longrightarrow>
      mirrors_level tbl (statsManager cfg) h parent ys d"
  shows "config_mirrors tbl cs (cfg\<lparr>limits := h\<rparr>)"
  unfolding config_mirrors_def
proof (rule allI)
  fix dn
  show "case map_of (domains (cfg\<lparr>limits := h\<rparr>)) dn of
      None \<Rightarrow> dn \<notin> (\<lambda>c. yr_Domain (cl_ConfigYaml c)) ` set cs
    | Some d \<Rightarrow> dn \<in> (\<lambda>c. yr_Domain (cl_ConfigYaml c)) ` set cs \<and>
        mirrors_level tbl (statsManager (cfg\<lparr>limits := h\<rparr>)) (limits (cfg\<lparr>limits := h\<rparr>)) (dn @ ''.'')
          (yaml_of cs dn) d"
    using assms(1) [unfolded config_mirrors_def, rule_format, of dn]
    by (cases "map_of (domains cfg) dn") (simp_all add: assms(2))
qed

lemma config_mirrors_append:
  "config_mirrors tbl cs cfg \<Longrightarrow> config_mirrors tbl cs (cfg\<lparr>limits := limits cfg @ h\<rparr>)"
  by (rule config_mirrors_mono) (auto intro: mirrors_level_append)

lemma config_mirrors_update:
  "config_mirrors tbl cs cfg \<Longrightarrow> DetailedMetric (limits cfg ! a) \<Longrightarrow>
   config_mirrors tbl cs (cfg\<lparr>limits := (limits cfg)[a := (limits cfg ! a)\<lparr>rl_Stats := st\<rparr>]\<rparr>)"
  by (rule config_mirrors_mono) (auto simp: mirrors_level_def mirrors_update)

lemma GetLimit_loop_store:
  "GetLimit_loop sm h m d k r es = (h', k', r') \<Longrightarrow> \<exists>h2. h' = h @ h2"
  by (induction sm h m d k r es rule: GetLimit_loop.induct)
    (auto simp: GetLimit_break_def Let_def split: option.splits if_splits)

lemma GetLimit_frame:
  "GetLimit cfg domain descriptor = (p, cfg', ev) \<Longrightarrow>
   statsManager cfg' = statsManager cfg \<and> domains cfg' = domains cfg"
  by (auto simp: GetLimit_def Let_def split: option.splits prod.splits if_splits)

lemma GetLimit_mirrors:
  assumes "config_mirrors tbl cs cfg" and "GetLimit cfg domain descriptor = (p, cfg', ev)"
  shows "config_mirrors tbl cs cfg'"
proof (cases "map_of (domains cfg) domain = None \<or> de_Limit descriptor \<noteq> None")
  case True
  with assms show ?thesis
    by (auto simp: GetLimit_def config_mirrors_append split: option.splits)
next
  case False
  then obtain d where d: "map_of (domains cfg) domain = Some d" "de_Limit descriptor = None" by auto
  obtain h k r where loop: "GetLimit_loop (statsManager cfg) (limits cfg) (descriptors d) d domain
      None (Entries descriptor) = (h, k, r)" by (metis prod_cases3)
  obtain h2 where "h = limits cfg @ h2" using GetLimit_loop_store [OF loop] by blast
  then have "config_mirrors tbl cs (cfg\<lparr>limits := h\<rparr>)"
    using assms(1) by (simp add: config_mirrors_append)
  moreover from this have "config_mirrors tbl cs (cfg\<lparr>limits := h[a := (h ! a)\<lparr>rl_Stats := st\<rparr>]\<rparr>)"
    if "DetailedMetric (h ! a)" for a st
    using config_mirrors_update [of tbl cs "cfg\<lparr>limits := h\<rparr>" a st] that by simp
  ultimately show ?thesis
    using assms(2) d loop by (auto simp: GetLimit_def split: option.splits if_splits)
qed

lemma in_service_mirrors:
  "in_service tbl cs sm merge cfg \<Longrightarrow> config_mirrors tbl cs cfg \<and> statsManager cfg = sm"
proof (induction rule: in_service.induct)
  case (loaded cfg)
  then show ?case by (rule NewRateLimitConfigImpl_mirrors)
next
  case (looked_up cfg domain descriptor p cfg' ev)
  then show ?case using GetLimit_mirrors GetLimit_frame by metis
qed


section \<open>Properties of lookups\<close>

definition deref :: "rateLimitConfigImpl \<Rightarrow> nat option \<Rightarrow> RateLimit option" where
  "deref cfg p = map_option (\<lambda>a. limits cfg ! a) p"

text \<open>A detailed limit is counted under the detailed key.\<close>

definition detail :: "ManagerImpl \<Rightarrow> string \<Rightarrow> RateLimit \<Rightarrow> RateLimit" where
  "detail sm key rl = (if DetailedMetric rl then rl\<lparr>rl_Stats := NewStats sm key\<rparr> else rl)"

lemma detail_same [simp]:
  "Limit (detail sm k rl) = Limit rl" "Unlimited (detail sm k rl) = Unlimited rl"
  "ShadowMode (detail sm k rl) = ShadowMode rl" "Name (detail sm k rl) = Name rl"
  "Replaces (detail sm k rl) = Replaces rl"
  by (simp_all add: detail_def)

text \<open>The specification of \<open>GetLimit\<close> on the files the configuration was loaded from.\<close>

definition limit_spec ::
  "(string \<Rightarrow> Unit option) \<Rightarrow> RateLimitConfigToLoad list \<Rightarrow> ManagerImpl \<Rightarrow> string \<Rightarrow> Descriptor
    \<Rightarrow> RateLimit option" where
  "limit_spec tbl cs sm domain descriptor =
     (if \<not> list_ex (\<lambda>c. yr_Domain (cl_ConfigYaml c) = domain) cs then None
      else case de_Limit descriptor of
        Some ov \<Rightarrow> Some (NewRateLimit (ov_RequestsPerUnit ov) (ov_Unit ov)
          (NewStats sm (descriptorKey domain descriptor)) False False '''' [] False)
      | None \<Rightarrow>
          map_option (detail sm (detailed_key domain (Entries descriptor)))
            (Option.bind (yaml_lookup (domain @ ''.'') (yaml_of cs domain) (Entries descriptor))
              (\<lambda>(k, y). yaml_limit tbl sm k y)))"

lemma cell_ok_Detailed: "cell_ok rl c \<Longrightarrow> DetailedMetric c = DetailedMetric rl"
  by (metis RateLimit.select_convs(8) RateLimit.surjective RateLimit.update_convs(2) cell_ok_def)

lemma cell_ok_set: "cell_ok rl c \<Longrightarrow> DetailedMetric rl \<Longrightarrow> c\<lparr>rl_Stats := st\<rparr> = rl\<lparr>rl_Stats := st\<rparr>"
  by (cases rl; cases c) (auto simp: cell_ok_def)

text \<open>The copy made of a detailed limit differs from it in its metrics only.\<close>

lemma copy_detailed:
  assumes "yaml_limit tbl sm k y = Some rl" and "cell_ok rl c" and "DetailedMetric rl"
  shows "(NewRateLimit (RequestsPerUnit (Limit c)) (lim_Unit (Limit c)) (NewStats sm (FullKey c))
      (Unlimited c) (ShadowMode c) (Name c) (Replaces c) (DetailedMetric c))\<lparr>rl_Stats := st\<rparr> =
    rl\<lparr>rl_Stats := st\<rparr>"
  using assms by (cases c) (auto simp: yaml_limit_def cell_ok_def NewRateLimit_def)

lemma GetLimit_known_domain:
  assumes mir: "config_mirrors tbl cs cfg" "statsManager cfg = sm"
    and dn: "map_of (domains cfg) domain = Some d" and ov: "de_Limit descriptor = None"
    and get: "GetLimit cfg domain descriptor = (p, cfg', ev)"
  shows "ev = [] \<and> (\<forall>a. p = Some a \<longrightarrow> a < length (limits cfg')) \<and>
    deref cfg' p = limit_spec tbl cs sm domain descriptor"
proof -
  let ?h = "limits cfg" and ?es = "Entries descriptor"
  have lev: "mirrors_level tbl sm ?h (domain @ ''.'') (yaml_of cs domain) d"
    and mem: "list_ex (\<lambda>c. yr_Domain (cl_ConfigYaml c) = domain) cs"
    using mir(1) [unfolded config_mirrors_def, rule_format, of domain] dn mir(2)
    by (auto simp: list_ex_iff)
  let ?loop = "GetLimit_loop sm ?h (descriptors d) d domain None ?es"
  note unf = GetLimit_def dn ov mir(2) limit_spec_def mem deref_def detail_def
  consider "?es = []"
    | "?es \<noteq> []" "yaml_lookup (domain @ ''.'') (yaml_of cs domain) ?es = None"
    | k y where "?es \<noteq> []" "yaml_lookup (domain @ ''.'') (yaml_of cs domain) ?es = Some (k, y)"
    by (cases "yaml_lookup (domain @ ''.'') (yaml_of cs domain) ?es") auto
  then show ?thesis
  proof cases
    case 1
    then show ?thesis using get by (auto simp: unf)
  next
    case 2
    then obtain key where "?loop = (?h, key, None)"
      using GetLimit_loop_mirrors [OF lev, of ?es domain] by auto
    then show ?thesis using get 2 by (auto simp: unf)
  next
    case (3 k y)
    then obtain c where lm: "limit_mirrors (yaml_limit tbl sm k y) ?h (limit c)"
      and loop: "?loop = loop_result sm ?h domain ?es c"
      using GetLimit_loop_mirrors [OF lev, of ?es domain] by auto
    show ?thesis
    proof (cases "yaml_limit tbl sm k y")
      case None
      with lm have "?loop = (?h, detailed_key domain ?es, None)"
        by (simp add: limit_mirrors_def loop loop_result_def GetLimit_break_def)
      then show ?thesis using get 3 None by (auto simp: unf)
    next
      case (Some rl)
      with lm obtain a where a: "a < length ?h" "limit c = Some a" and ok: "cell_ok rl (?h ! a)"
        by (auto simp: limit_mirrors_def)
      note det = cell_ok_Detailed [OF ok]
      show ?thesis
      proof (cases "DetailedMetric rl")
        case False
        with a det have "?loop = (?h, detailed_key domain ?es, Some a)"
          by (simp add: loop loop_result_def GetLimit_break_def)
        moreover have "?h ! a = rl" using ok False by (simp add: cell_ok_def)
        ultimately show ?thesis using get 3 Some False a(1) by (auto simp: unf)
      next
        case True
        show ?thesis
        proof (cases "descriptors c = []")
          case ch: True
          then have "?loop = (?h @ [NewRateLimit (RequestsPerUnit (Limit (?h ! a)))
              (lim_Unit (Limit (?h ! a))) (NewStats sm (FullKey (?h ! a))) (Unlimited (?h ! a))
              (ShadowMode (?h ! a)) (Name (?h ! a)) (Replaces (?h ! a)) (DetailedMetric (?h ! a))],
              detailed_key domain ?es, Some (length ?h))"
            using a det True by (simp add: loop loop_result_def GetLimit_break_def Let_def)
          then show ?thesis
            using get 3 Some True det copy_detailed [OF Some ok True] by (auto simp: unf NewRateLimit_def)
        next
          case ch: False
          then have "?loop = (?h, detailed_key domain ?es, Some a)"
            using a by (simp add: loop loop_result_def)
          then show ?thesis
            using get 3 Some True det a(1) cell_ok_set [OF ok True] by (auto simp: unf)
        qed
      qed
    qed
  qed
qed


lemma GetLimit_refines:
  assumes "in_service tbl cs sm merge cfg"
    and "GetLimit cfg domain descriptor = (p, cfg', ev)"
  shows "(\<forall>a. p = Some a \<longrightarrow> a < length (limits cfg')) \<and>
    deref cfg' p = limit_spec tbl cs sm domain descriptor \<and>
    ev = (if list_ex (\<lambda>c. yr_Domain (cl_ConfigYaml c) = domain) cs then []
          else [CounterInc (NotFound (NewDomainStats sm domain))])"
proof -
  have mir: "config_mirrors tbl cs cfg" "statsManager cfg = sm"
    using in_service_mirrors [OF assms(1)] by auto
  have dn: "case map_of (domains cfg) domain of
      None \<Rightarrow> domain \<notin> (\<lambda>c. yr_Domain (cl_ConfigYaml c)) ` set cs
    | Some d \<Rightarrow> domain \<in> (\<lambda>c. yr_Domain (cl_ConfigYaml c)) ` set cs"
    using mir(1) [unfolded config_mirrors_def, rule_format, of domain] by (auto split: option.splits)
  show ?thesis
  proof (cases "map_of (domains cfg) domain")
    case None
    with assms(2) dn mir(2) show ?thesis
      by (auto simp: GetLimit_def deref_def limit_spec_def list_ex_iff)
  next
    case (Some d)
    with dn have mem: "list_ex (\<lambda>c. yr_Domain (cl_ConfigYaml c) = domain) cs"
      by (auto simp: list_ex_iff)
    show ?thesis
    proof (cases "de_Limit descriptor")
      case None
      from GetLimit_known_domain [OF mir Some None assms(2)] mem show ?thesis by simp
    next
      case (Some ov)
      with assms(2) mem mir(2) \<open>map_of (domains cfg) domain = Some d\<close> show ?thesis
        by (auto simp: GetLimit_def deref_def limit_spec_def)
    qed
  qed
qed

text \<open>
  C6. \<open>GetLimit\<close> implements the YAML. At any time in the life of a configuration, for any
  request descriptor, the limit it returns is the one the specification selects on the loaded
  files (exact value before wildcard before key alone, one level per entry, overrides first), the
  pointer is valid, and an unknown domain is counted once.
\<close>

theorem GetLimit_implements_yaml:
  assumes "in_service tbl cs sm merge cfg"
    and "GetLimit cfg domain descriptor = (p, cfg', ev)"
  shows "(\<forall>a. p = Some a \<longrightarrow> a < length (limits cfg')) \<and>
    deref cfg' p = limit_spec tbl cs sm domain descriptor \<and>
    ev = (if list_ex (\<lambda>c. yr_Domain (cl_ConfigYaml c) = domain) cs then []
          else [CounterInc (NotFound (NewDomainStats sm domain))])"
  using assms by (rule GetLimit_refines)

definition sample_units :: "string \<Rightarrow> Unit option" where
  "sample_units s = map_of [(''UNKNOWN'', UNKNOWN), (''SECOND'', SECOND), (''MINUTE'', MINUTE),
     (''HOUR'', HOUR), (''DAY'', DAY)] s"

definition sample_file :: RateLimitConfigToLoad where
  "sample_file = \<lparr>cl_Name = ''f'', cl_ConfigYaml = \<lparr>yr_Domain = ''d'', yr_Descriptors =
     [YamlDescriptor ''a'' '''' (Some \<lparr>yl_RequestsPerUnit = 5, yl_Unit = ''minute'',
        yl_Unlimited = False, yl_Name = '''', yl_Replaces = []\<rparr>)
        [YamlDescriptor ''b'' '''' None [] False False] False True,
      YamlDescriptor ''c'' ''v*'' (Some \<lparr>yl_RequestsPerUnit = 7, yl_Unit = ''second'',
        yl_Unlimited = False, yl_Name = '''', yl_Replaces = []\<rparr>) [] False False]\<rparr>\<rparr>"

definition sample_config :: rateLimitConfigImpl where
  "sample_config =
     (case NewRateLimitConfigImpl sample_units [sample_file] (NewStatManager []) False of
        Inr cfg \<Rightarrow> cfg | Inl _ \<Rightarrow> \<lparr>domains = [], statsManager = NewStatManager [],
          mergeDomainConfigs = False, limits = []\<rparr>)"

lemma sample_loads:
  "NewRateLimitConfigImpl sample_units [sample_file] (NewStatManager []) False = Inr sample_config"
  by code_simp

definition sample_request :: "string \<Rightarrow> string \<Rightarrow> Descriptor" where
  "sample_request k v = \<lparr>Entries = [\<lparr>en_Key = k, en_Value = v\<rparr>], de_Limit = None\<rparr>"

theorem GetLimit_implements_yaml_witness:
  "limit_spec sample_units [sample_file] (NewStatManager []) ''d'' (sample_request ''c'' ''v1'') =
     deref (fst (snd (GetLimit sample_config ''d'' (sample_request ''c'' ''v1''))))
       (fst (GetLimit sample_config ''d'' (sample_request ''c'' ''v1'')))"
proof -
  have "in_service sample_units [sample_file] (NewStatManager []) False sample_config"
    by (rule in_service.loaded) (rule sample_loads)
  from GetLimit_implements_yaml [OF this, of "''d''" "sample_request ''c'' ''v1''"
      "fst (GetLimit sample_config ''d'' (sample_request ''c'' ''v1''))"
      "fst (snd (GetLimit sample_config ''d'' (sample_request ''c'' ''v1'')))"
      "snd (snd (GetLimit sample_config ''d'' (sample_request ''c'' ''v1'')))"]
  show ?thesis by simp
qed

end
