(* ===== verification/Config_Accept.thy ===== *)
theory Config_Accept
  imports Config_Lookup
begin

text \<open>
  Which configurations the loader accepts (\<open>loadDescriptors\<close>, \<open>loadConfig\<close>,
  \<open>NewRateLimitConfigImpl\<close>, \<open>validateYamlKeys\<close> of \<open>src/config/config_impl.go\<close>), how it
  fails on the others, what holds of every limit it accepts, and what a lookup may change.
\<close>

section \<open>Well-formed YAML\<close>

definition rate_limit_ok :: "(string \<Rightarrow> Unit option) \<Rightarrow> YamlRateLimit \<Rightarrow> bool" where
  "rate_limit_ok tbl rl =
     (yl_Unlimited rl \<noteq> (tbl (ToUpper (yl_Unit rl)) \<notin> {None, Some UNKNOWN}) \<and>
      '''' \<notin> set (yl_Replaces rl) \<and> yl_Name rl \<notin> set (yl_Replaces rl))"

fun yaml_ok :: "(string \<Rightarrow> Unit option) \<Rightarrow> YamlDescriptor \<Rightarrow> bool" where
  "yaml_ok tbl (YamlDescriptor k v rl subs sh dm) =
     (k \<noteq> '''' \<and> pred_option (rate_limit_ok tbl) rl \<and> distinct (map composite subs) \<and>
      list_all (yaml_ok tbl) subs)"

definition file_domain :: "RateLimitConfigToLoad \<Rightarrow> string" where
  "file_domain c = yr_Domain (cl_ConfigYaml c)"

definition files_ok :: "(string \<Rightarrow> Unit option) \<Rightarrow> bool \<Rightarrow> RateLimitConfigToLoad list \<Rightarrow> bool" where
  "files_ok tbl merge cs =
     (list_all (\<lambda>c. file_domain c \<noteq> '''' \<and> list_all (yaml_ok tbl) (yr_Descriptors (cl_ConfigYaml c))) cs \<and>
      (merge \<or> distinct (map file_domain cs)) \<and>
      list_all (\<lambda>c. distinct (map composite (yaml_of cs (file_domain c)))) cs)"

section \<open>The loader accepts exactly the well-formed YAML\<close>

lemma checkReplaces_ok:
  "checkReplaces cname own rs = Inr () \<longleftrightarrow> '''' \<notin> set rs \<and> own \<notin> set rs"
  by (induction cname own rs rule: checkReplaces.induct) auto

lemma checkReplaces_error:
  "checkReplaces cname own rs = Inl p \<Longrightarrow> \<exists>e. p = newRateLimitConfigError cname e"
  by (induction cname own rs rule: checkReplaces.induct) (auto split: if_splits)

lemma loadRateLimit_accepts:
  "(\<exists>r. loadRateLimit tbl sm cname key rl sh dm h = Inr r) \<longleftrightarrow> pred_option (rate_limit_ok tbl) rl"
proof (cases rl)
  case None
  then show ?thesis by (simp add: loadRateLimit_def)
next
  case (Some r)
  show ?thesis
  proof (cases "checkReplaces cname (yl_Name r) (yl_Replaces r)")
    case (Inl p)
    then have "\<not> ('''' \<notin> set (yl_Replaces r) \<and> yl_Name r \<notin> set (yl_Replaces r))"
      using checkReplaces_ok [of cname "yl_Name r" "yl_Replaces r"] by simp
    with Inl Some show ?thesis
      by (auto simp: loadRateLimit_def rate_limit_ok_def Let_def)
  next
    case (Inr u)
    then have "'''' \<notin> set (yl_Replaces r) \<and> yl_Name r \<notin> set (yl_Replaces r)"
      using checkReplaces_ok [of cname "yl_Name r" "yl_Replaces r"] by simp
    with Inr Some show ?thesis
      by (auto simp: loadRateLimit_def rate_limit_ok_def Let_def split: option.splits)
  qed
qed

lemma loadRateLimit_error:
  "loadRateLimit tbl sm cname key rl sh dm h = Inl p \<Longrightarrow> \<exists>e. p = newRateLimitConfigError cname e"
  by (auto simp: loadRateLimit_def Let_def split: option.splits if_splits sum.splits
      dest: checkReplaces_error)

lemma loadDescriptors_error:
  "loadDescriptors tbl sm cname parent this ys h = Inl p \<Longrightarrow>
   \<exists>e. p = newRateLimitConfigError cname e"
proof (induction tbl sm cname parent this ys h rule: loadDescriptors.induct)
  case (1 tbl sm cname parent this h)
  then show ?case by simp
next
  case (2 tbl sm cname parent this k v rl subs sh dm ds h)
  show ?case
  proof (cases "k = '''' \<or> map_of (descriptors this) (finalKey k v) \<noteq> None")
    case True
    with "2.prems" show ?thesis by (auto split: if_splits)
  next
    case new: False
    then have kn: "\<not> k = ''''" "\<not> map_of (descriptors this) (finalKey k v) \<noteq> None" by auto
    show ?thesis
    proof (cases "loadRateLimit tbl sm cname (parent @ finalKey k v) rl sh dm h")
      case (Inl q)
      with "2.prems" kn show ?thesis using loadRateLimit_error by fastforce
    next
      case (Inr ph)
      obtain p1 h1 where ph: "ph = (p1, h1)" by (cases ph)
      show ?thesis
      proof (cases "loadDescriptors tbl sm cname (parent @ finalKey k v @ ''.'')
          (RateLimitDescriptor [] p1 []) subs h1")
        case (Inl q)
        with "2.prems" kn Inr ph have "q = p" by simp
        with "2.IH"(1) [OF kn Inr ph [symmetric]] Inl show ?thesis by simp
      next
        case inr2: (Inr nh)
        obtain nd h2 where nh: "nh = (nd, h2)" by (cases nh)
        have "loadDescriptors tbl sm cname parent (add_child this (finalKey k v) nd) ds h2 = Inl p"
          using "2.prems" kn Inr ph inr2 nh by simp
        with "2.IH"(2) [OF kn Inr ph [symmetric] inr2 nh [symmetric]] show ?thesis by blast
      qed
    qed
  qed
qed

lemma loadDescriptors_accepts:
  "(\<exists>r. loadDescriptors tbl sm cname parent this ys h = Inr r) \<longleftrightarrow>
   list_all (yaml_ok tbl) ys \<and> distinct (map composite ys) \<and>
   list_all (\<lambda>y. map_of (descriptors this) (composite y) = None) ys"
proof (induction tbl sm cname parent this ys h rule: loadDescriptors.induct)
  case (1 tbl sm cname parent this h)
  then show ?case by simp
next
  case (2 tbl sm cname parent this k v rl subs sh dm ds h)
  let ?fk = "finalKey k v"
  have comp: "composite (YamlDescriptor k v rl subs sh dm) = ?fk" by (simp add: composite_def)
  show ?case
  proof (cases "k = '''' \<or> map_of (descriptors this) ?fk \<noteq> None")
    case True
    then show ?thesis using comp by (auto simp: composite_def)
  next
    case new: False
    then have kn: "\<not> k = ''''" "\<not> map_of (descriptors this) ?fk \<noteq> None" by auto
    show ?thesis
    proof (cases "loadRateLimit tbl sm cname (parent @ ?fk) rl sh dm h")
      case (Inl p)
      then show ?thesis
        using kn loadRateLimit_accepts [of tbl sm cname "parent @ ?fk" rl sh dm h] by auto
    next
      case (Inr ph)
      obtain p h1 where ph: "ph = (p, h1)" by (cases ph)
      have rl: "pred_option (rate_limit_ok tbl) rl"
        using Inr loadRateLimit_accepts [of tbl sm cname "parent @ ?fk" rl sh dm h] by auto
      note sub = "2.IH"(1) [OF kn Inr ph [symmetric]]
      show ?thesis
      proof (cases "loadDescriptors tbl sm cname (parent @ ?fk @ ''.'')
          (RateLimitDescriptor [] p []) subs h1")
        case (Inl q)
        then show ?thesis using kn Inr ph sub by (auto simp: list_all_iff)
      next
        case inr2: (Inr nh)
        obtain nd h2 where nh: "nh = (nd, h2)" by (cases nh)
        have subs: "list_all (yaml_ok tbl) subs" "distinct (map composite subs)"
          using sub inr2 by auto
        have "list_all (\<lambda>y. map_of (descriptors (add_child this ?fk nd)) (composite y) = None) ds \<longleftrightarrow>
            list_all (\<lambda>y. map_of (descriptors this) (composite y) = None) ds \<and>
            ?fk \<notin> set (map composite ds)"
          by (auto simp: list_all_iff map_of_eq_None_iff) (metis imageI)
        then show ?thesis
          using "2.IH"(2) [OF kn Inr ph [symmetric] inr2 nh [symmetric]] kn Inr ph inr2 nh rl subs
          by (auto simp: comp)
      qed
    qed
  qed
qed

lemma loadConfig_accepts:
  assumes "config_mirrors tbl cs this"
  shows "(\<exists>r. loadConfig tbl this c = Inr r) \<longleftrightarrow>
    file_domain c \<noteq> '''' \<and> list_all (yaml_ok tbl) (yr_Descriptors (cl_ConfigYaml c)) \<and>
    (mergeDomainConfigs this \<or> file_domain c \<notin> set (map file_domain cs)) \<and>
    distinct (map composite (yr_Descriptors (cl_ConfigYaml c))) \<and>
    list_all (\<lambda>y. composite y \<notin> set (map composite (yaml_of cs (file_domain c))))
      (yr_Descriptors (cl_ConfigYaml c))"
proof -
  let ?dn = "yr_Domain (cl_ConfigYaml c)" and ?ys = "yr_Descriptors (cl_ConfigYaml c)"
  note acc = loadDescriptors_accepts [of tbl "statsManager this" "cl_Name c" "?dn @ ''.''" _ ?ys
    "limits this"]
  show ?thesis
  proof (cases "map_of (domains this) ?dn")
    case None
    then have no: "?dn \<notin> set (map file_domain cs)" "yaml_of cs ?dn = []"
      using assms [unfolded config_mirrors_def, rule_format, of ?dn]
      by (auto simp: file_domain_def yaml_of_absent)
    then show ?thesis
      using None acc [of "RateLimitDescriptor [] None []"]
      by (cases "loadDescriptors tbl (statsManager this) (cl_Name c) (?dn @ ''.'')
          (RateLimitDescriptor [] None []) ?ys (limits this)")
        (auto simp: loadConfig_def Let_def file_domain_def list_all_iff)
  next
    case (Some d)
    then have mem: "?dn \<in> set (map file_domain cs)"
      and lev: "mirrors_level tbl (statsManager this) (limits this) (?dn @ ''.'') (yaml_of cs ?dn) d"
      using assms [unfolded config_mirrors_def, rule_format, of ?dn] by (auto simp: file_domain_def)
    have "map fst (descriptors d) = map composite (yaml_of cs ?dn)"
      using lev mirrors_all_keys by (auto simp: mirrors_level_def)
    then have "map_of (descriptors d) k = None \<longleftrightarrow> k \<notin> set (map composite (yaml_of cs ?dn))" for k
      by (metis list.set_map map_of_eq_None_iff)
    then show ?thesis
      using Some acc [of d] mem
      by (cases "loadDescriptors tbl (statsManager this) (cl_Name c) (?dn @ ''.'') d ?ys
          (limits this)") (auto simp: loadConfig_def Let_def file_domain_def)
  qed
qed

lemma loadConfig_error:
  "loadConfig tbl this c = Inl p \<Longrightarrow> \<exists>e. p = newRateLimitConfigError (cl_Name c) e"
  by (auto simp: loadConfig_def Let_def split: if_splits option.splits sum.splits
      dest: loadDescriptors_error)

lemma loadConfigs_error:
  "loadConfigs tbl this cs = Inl p \<Longrightarrow> \<exists>c \<in> set cs. \<exists>e. p = newRateLimitConfigError (cl_Name c) e"
  by (induction cs arbitrary: this) (auto split: sum.splits dest: loadConfig_error)

lemma loadConfig_merge:
  "loadConfig tbl this c = Inr t \<Longrightarrow> mergeDomainConfigs t = mergeDomainConfigs this"
  by (auto elim!: loadConfig_cases)

text \<open>Acceptance of the files after those already loaded.\<close>

definition next_ok ::
  "(string \<Rightarrow> Unit option) \<Rightarrow> bool \<Rightarrow> RateLimitConfigToLoad list \<Rightarrow> RateLimitConfigToLoad \<Rightarrow> bool" where
  "next_ok tbl merge cs c =
     (file_domain c \<noteq> '''' \<and> list_all (yaml_ok tbl) (yr_Descriptors (cl_ConfigYaml c)) \<and>
      (merge \<or> file_domain c \<notin> set (map file_domain cs)) \<and>
      distinct (map composite (yr_Descriptors (cl_ConfigYaml c))) \<and>
      list_all (\<lambda>y. composite y \<notin> set (map composite (yaml_of cs (file_domain c))))
        (yr_Descriptors (cl_ConfigYaml c)))"

fun all_ok ::
  "(string \<Rightarrow> Unit option) \<Rightarrow> bool \<Rightarrow> RateLimitConfigToLoad list \<Rightarrow> RateLimitConfigToLoad list \<Rightarrow> bool" where
  "all_ok tbl merge cs0 [] = True"
| "all_ok tbl merge cs0 (c # cs) = (next_ok tbl merge cs0 c \<and> all_ok tbl merge (cs0 @ [c]) cs)"

lemma loadConfigs_accepts:
  "config_mirrors tbl cs0 this \<Longrightarrow>
   (\<exists>r. loadConfigs tbl this cs = Inr r) \<longleftrightarrow> all_ok tbl (mergeDomainConfigs this) cs0 cs"
proof (induction cs arbitrary: this cs0)
  case Nil
  then show ?case by simp
next
  case (Cons c cs)
  show ?case
  proof (cases "loadConfig tbl this c")
    case (Inl p)
    then show ?thesis using loadConfig_accepts [OF Cons.prems, of c] by (auto simp: next_ok_def)
  next
    case (Inr t)
    have "next_ok tbl (mergeDomainConfigs this) cs0 c"
      using Inr loadConfig_accepts [OF Cons.prems, of c] by (simp add: next_ok_def)
    moreover have "config_mirrors tbl (cs0 @ [c]) t"
      using loadConfig_mirrors [OF Inr Cons.prems] by simp
    ultimately show ?thesis
      using Inr Cons.IH [of "cs0 @ [c]" t] loadConfig_merge [OF Inr] by simp
  qed
qed

lemma yaml_of_append: "yaml_of (cs @ ds) dn = yaml_of cs dn @ yaml_of ds dn"
  by (simp add: yaml_of_def)

lemma distinct_everywhere:
  "list_all (\<lambda>c. distinct (map composite (yaml_of cs (file_domain c)))) cs \<longleftrightarrow>
   (\<forall>dn. distinct (map composite (yaml_of cs dn)))"
proof
  assume l: "list_all (\<lambda>c. distinct (map composite (yaml_of cs (file_domain c)))) cs"
  show "\<forall>dn. distinct (map composite (yaml_of cs dn))"
  proof
    fix dn
    show "distinct (map composite (yaml_of cs dn))"
    proof (cases "dn \<in> file_domain ` set cs")
      case True
      with l show ?thesis by (auto simp: list_all_iff)
    next
      case False
      then show ?thesis using yaml_of_absent [of dn cs] by (simp add: file_domain_def)
    qed
  qed
qed (simp add: list_all_iff)

lemma distinct_snoc:
  "distinct (map composite (yaml_of (cs @ [c]) dn)) \<longleftrightarrow>
     distinct (map composite (yaml_of cs dn)) \<and>
     (file_domain c = dn \<longrightarrow> distinct (map composite (yr_Descriptors (cl_ConfigYaml c))) \<and>
       list_all (\<lambda>y. composite y \<notin> set (map composite (yaml_of cs dn)))
         (yr_Descriptors (cl_ConfigYaml c)))"
  by (auto simp: yaml_of_snoc file_domain_def list_all_iff) (metis imageI)

lemma files_ok_snoc:
  "files_ok tbl merge (cs @ [c]) \<longleftrightarrow> files_ok tbl merge cs \<and> next_ok tbl merge cs c"
proof -
  have "(\<forall>dn. distinct (map composite (yaml_of (cs @ [c]) dn))) \<longleftrightarrow>
      (\<forall>dn. distinct (map composite (yaml_of cs dn))) \<and>
      distinct (map composite (yr_Descriptors (cl_ConfigYaml c))) \<and>
      list_all (\<lambda>y. composite y \<notin> set (map composite (yaml_of cs (file_domain c))))
        (yr_Descriptors (cl_ConfigYaml c))"
    using distinct_snoc by blast
  then show ?thesis
    unfolding files_ok_def next_ok_def distinct_everywhere by auto
qed

lemma all_ok_files_ok:
  "all_ok tbl merge cs0 cs \<and> files_ok tbl merge cs0 \<longleftrightarrow> files_ok tbl merge (cs0 @ cs)"
proof (induction cs arbitrary: cs0)
  case Nil
  then show ?case by simp
next
  case (Cons c cs)
  have "all_ok tbl merge (cs0 @ [c]) cs \<and> files_ok tbl merge (cs0 @ [c]) \<longleftrightarrow>
      files_ok tbl merge (cs0 @ c # cs)"
    using Cons [of "cs0 @ [c]"] by simp
  then show ?case by (auto simp: files_ok_snoc)
qed

section \<open>Properties of loading\<close>

lemma load_accepts:
  "(\<exists>cfg. NewRateLimitConfigImpl tbl cs sm merge = Inr cfg) \<longleftrightarrow> files_ok tbl merge cs"
  using loadConfigs_accepts [of tbl "[]" "\<lparr>domains = [], statsManager = sm,
      mergeDomainConfigs = merge, limits = []\<rparr>" cs] all_ok_files_ok [of tbl merge "[]" cs]
  by (simp add: NewRateLimitConfigImpl_def config_mirrors_def files_ok_def)

text \<open>
  C15. The loader accepts exactly the well-formed configurations: a list of files loads iff every
  domain and every key is non-empty, no two descriptors of one level have the same composite key
  (also across files of a merged domain), every limit has either a known unit or is unlimited and
  has none, no \<open>replaces\<close> entry is empty or the limit's own name, and no domain occurs twice
  unless domains are merged.
\<close>

theorem NewRateLimitConfigImpl_accepts:
  "(\<exists>cfg. NewRateLimitConfigImpl tbl cs sm merge = Inr cfg) \<longleftrightarrow> files_ok tbl merge cs"
  by (rule load_accepts)

text \<open>
  A configuration that does not load is reported as a \<open>RateLimitConfigError\<close> whose text
  begins with the name of one of the files, so that the service can tell it from a programming
  error and keep serving the configuration it has.
\<close>

lemma NewRateLimitConfigImpl_error:
  assumes "NewRateLimitConfigImpl tbl cs sm merge = Inl p"
  shows "\<exists>c \<in> set cs. \<exists>e. p = RateLimitConfigError (cl_Name c @ '': '' @ e)"
  using loadConfigs_error assms
  by (fastforce simp: NewRateLimitConfigImpl_def newRateLimitConfigError_def)

definition bad_file :: RateLimitConfigToLoad where
  "bad_file = \<lparr>cl_Name = ''f'', cl_ConfigYaml = \<lparr>yr_Domain = ''d'',
     yr_Descriptors = [YamlDescriptor '''' '''' None [] False False]\<rparr>\<rparr>"

lemma NewRateLimitConfigImpl_error_witness:
  "\<exists>c \<in> set [bad_file]. \<exists>e. RateLimitConfigError ''f: descriptor has empty key'' =
     RateLimitConfigError (cl_Name c @ '': '' @ e)"
proof (rule NewRateLimitConfigImpl_error)
  show "NewRateLimitConfigImpl sample_units [bad_file] (NewStatManager []) False =
    Inl (RateLimitConfigError ''f: descriptor has empty key'')"
    by code_simp
qed


section \<open>What holds of the limits of an accepted configuration\<close>

lemma list_all_find: "list_all P xs \<Longrightarrow> find Q xs = Some x \<Longrightarrow> P x"
  by (induction xs) (auto split: if_splits)

lemma yaml_find_ok: "list_all P ys \<Longrightarrow> yaml_find ys e = Some y \<Longrightarrow> P y"
  by (auto simp: yaml_find_def split: option.splits dest: list_all_find)

lemma yaml_ok_subs: "yaml_ok tbl y \<Longrightarrow> list_all (yaml_ok tbl) (yd_Descriptors y)"
  by (cases y) simp

lemma yaml_lookup_ok:
  "list_all (yaml_ok tbl) ys \<Longrightarrow> yaml_lookup parent ys es = Some (k, y) \<Longrightarrow> yaml_ok tbl y"
proof (induction parent ys es rule: yaml_lookup.induct)
  case (1 parent ys)
  then show ?case by simp
next
  case (2 parent ys e es)
  then obtain d where d: "yaml_find ys e = Some d"
    by (auto simp: bind_eq_Some_conv)
  with "2.prems"(1) have ok: "yaml_ok tbl d" by (rule yaml_find_ok)
  show ?case
  proof (cases "es = []")
    case True
    with "2.prems"(2) d ok show ?thesis by simp
  next
    case False
    with "2.IH" [of d] yaml_ok_subs [OF ok] "2.prems"(2) d show ?thesis by simp
  qed
qed

lemma yaml_of_ok: "files_ok tbl merge cs \<Longrightarrow> list_all (yaml_ok tbl) (yaml_of cs dn)"
  by (auto simp: files_ok_def list_all_iff yaml_of_def split: if_splits)

lemma in_service_files_ok: "in_service tbl cs sm merge cfg \<Longrightarrow> files_ok tbl merge cs"
  by (induction rule: in_service.induct) (use load_accepts in blast)+

lemma yaml_limit_ok:
  assumes "yaml_ok tbl y" and "yaml_limit tbl sm k y = Some rl"
  shows "if Unlimited rl then lim_Unit (Limit rl) = UNKNOWN
    else lim_Unit (Limit rl) \<noteq> UNKNOWN \<and> (\<exists>s. tbl s = Some (lim_Unit (Limit rl)))"
  using assms
  by (cases y) (auto simp: yaml_limit_def rate_limit_ok_def NewRateLimit_def split: option.splits;
      blast)

lemma limit_spec_unit:
  assumes "files_ok tbl merge cs" and "\<forall>s u. tbl s = Some u \<longrightarrow> u = UNKNOWN \<or> valid_unit u"
    and "de_Limit descriptor = None" and spec: "limit_spec tbl cs sm domain descriptor = Some l"
  shows "if Unlimited l then lim_Unit (Limit l) = UNKNOWN else valid_unit (lim_Unit (Limit l))"
proof -
  obtain k y rl where l: "yaml_lookup (domain @ ''.'') (yaml_of cs domain) (Entries descriptor) =
      Some (k, y)" and rl: "yaml_limit tbl sm k y = Some rl"
    and c: "detail sm (detailed_key domain (Entries descriptor)) rl = l"
    using assms(3) spec by (auto simp: limit_spec_def bind_eq_Some_conv split: if_splits)
  have same: "Limit l = Limit rl" "Unlimited l = Unlimited rl"
    unfolding c [symmetric] by simp_all
  have "yaml_ok tbl y" using yaml_lookup_ok [OF yaml_of_ok [OF assms(1)] l] .
  from yaml_limit_ok [OF this rl] same assms(2) show ?thesis by (auto split: if_splits)
qed

text \<open>
  Limits from files are usable: if the generated unit table names only units the service knows,
  then whatever limit a lookup without an override returns is unlimited, and its unit unknown, or
  has a unit with a window length, so that no later stage panics on its unit.
\<close>

lemma GetLimit_unit_valid:
  assumes "in_service tbl cs sm merge cfg"
    and "\<forall>s u. tbl s = Some u \<longrightarrow> u = UNKNOWN \<or> valid_unit u"
    and "de_Limit descriptor = None"
    and "GetLimit cfg domain descriptor = (Some a, cfg', ev)"
  shows "if Unlimited (limits cfg' ! a) then lim_Unit (Limit (limits cfg' ! a)) = UNKNOWN
    else valid_unit (lim_Unit (Limit (limits cfg' ! a)))"
proof -
  have "limit_spec tbl cs sm domain descriptor = Some (limits cfg' ! a)"
    using GetLimit_refines [OF assms(1,4)] by (simp add: deref_def)
  from limit_spec_unit [OF in_service_files_ok [OF assms(1)] assms(2,3) this] show ?thesis .
qed

lemma sample_units_valid: "sample_units s = Some u \<Longrightarrow> u = UNKNOWN \<or> valid_unit u"
  by (auto simp: sample_units_def split: if_splits)

lemma sample_in_service:
  "in_service sample_units [sample_file] (NewStatManager []) False sample_config"
  by (rule in_service.loaded) (rule sample_loads)

lemma GetLimit_unit_valid_witness:
  "\<exists>cfg' ev. GetLimit sample_config ''d'' (sample_request ''c'' ''v1'') = (Some 1, cfg', ev) \<and>
    \<not> Unlimited (limits cfg' ! 1) \<and> valid_unit (lim_Unit (Limit (limits cfg' ! 1)))"
proof -
  let ?g = "GetLimit sample_config ''d'' (sample_request ''c'' ''v1'')"
  have g: "?g = (Some 1, fst (snd ?g), snd (snd ?g))" by code_simp
  have n: "\<not> Unlimited (limits (fst (snd ?g)) ! 1)" by code_simp
  have "de_Limit (sample_request ''c'' ''v1'') = None" by (simp add: sample_request_def)
  then have "valid_unit (lim_Unit (Limit (limits (fst (snd ?g)) ! 1)))"
    using GetLimit_unit_valid [OF sample_in_service _ _ g] sample_units_valid n by auto
  with n g show ?thesis by blast
qed

section \<open>What a lookup changes\<close>

lemma GetLimit_store:
  assumes "GetLimit cfg domain descriptor = (p, cfg', ev)" and "a < length (limits cfg)"
  shows "domains cfg' = domains cfg \<and> statsManager cfg' = statsManager cfg \<and> a < length (limits cfg') \<and>
    (limits cfg' ! a = limits cfg ! a \<or>
     p = Some a \<and> DetailedMetric (limits cfg ! a) \<and>
     (\<exists>st. limits cfg' ! a = (limits cfg ! a)\<lparr>rl_Stats := st\<rparr>))"
proof (cases "map_of (domains cfg) domain = None \<or> de_Limit descriptor \<noteq> None")
  case True
  with assms show ?thesis
    by (auto simp: GetLimit_def nth_append split: option.splits)
next
  case False
  then obtain d where d: "map_of (domains cfg) domain = Some d" "de_Limit descriptor = None" by auto
  obtain h k r where loop: "GetLimit_loop (statsManager cfg) (limits cfg) (descriptors d) d domain
      None (Entries descriptor) = (h, k, r)" by (metis prod_cases3)
  obtain h2 where h: "h = limits cfg @ h2" using GetLimit_loop_store [OF loop] by blast
  then have "h ! a = limits cfg ! a" using assms(2) by (simp add: nth_append)
  moreover have "a < length h" using assms(2) h by simp
  ultimately show ?thesis
    using assms(1) d loop
    by (cases "r = Some a") (auto simp: GetLimit_def split: option.splits if_splits)
qed

text \<open>
  A lookup writes at most one cell of the store: every limit allocated before the call is
  unchanged, except the metrics of the limit the call itself returns, and those only if that limit
  is detailed. Domains, tree and metric manager are never changed.
\<close>

lemma GetLimit_store_frame:
  assumes "GetLimit cfg domain descriptor = (p, cfg', ev)" and "a < length (limits cfg)"
  shows "domains cfg' = domains cfg \<and> statsManager cfg' = statsManager cfg \<and>
    (limits cfg' ! a = limits cfg ! a \<or>
     p = Some a \<and> DetailedMetric (limits cfg ! a) \<and>
     (\<exists>st. limits cfg' ! a = (limits cfg ! a)\<lparr>rl_Stats := st\<rparr>))"
  using GetLimit_store [OF assms] by blast

lemma GetLimit_store_frame_witness:
  "limits (fst (snd (GetLimit sample_config ''d'' (sample_request ''a'' ''x'')))) ! 1 =
   limits sample_config ! 1"
proof -
  let ?g = "GetLimit sample_config ''d'' (sample_request ''a'' ''x'')"
  have g: "?g = (Some 0, fst (snd ?g), snd (snd ?g))" by code_simp
  have "1 < length (limits sample_config)" by code_simp
  from GetLimit_store_frame [OF g this] show ?thesis by auto
qed

text \<open>
  The exception for detailed limits is real. A detailed limit whose node has children is not copied: two
  lookups with different values return the same pointer, and the second one redirects the metrics
  of the first.
\<close>

lemma GetLimit_detailed_shared:
  "let (p1, cfg1, _) = GetLimit sample_config ''d'' (sample_request ''a'' ''x'');
       (p2, cfg2, _) = GetLimit cfg1 ''d'' (sample_request ''a'' ''y'')
   in p1 = p2 \<and>
      map_option (Key \<circ> rl_Stats) (deref cfg1 p1) = Some ''d.a_x'' \<and>
      map_option (Key \<circ> rl_Stats) (deref cfg2 p1) = Some ''d.a_y''"
  by code_simp

section \<open>Validation of YAML keys\<close>

text \<open>A reference predicate: no order of the entries of a map plays a role in it.\<close>

fun keys_ok :: "yaml \<Rightarrow> bool" where
  "keys_ok (YMap m) =
     ((\<forall>k \<in> set (map fst m). \<exists>s \<in> set validKeys. k = YString s) \<and>
      (\<forall>v \<in> set (map snd m). keys_ok v))"
| "keys_ok (YList es) = (\<forall>e \<in> set es. (\<exists>m. e = YMap m) \<and> keys_ok e)"
| "keys_ok YOther = False"
| "keys_ok _ = True"

lemma validate_iff:
  "validateYamlKeys fmt_v f m = Inr () \<longleftrightarrow> keys_ok (YMap m)"
  "validateYamlValue fmt_v f v = Inr () \<longleftrightarrow> keys_ok v"
  "validateYamlElems fmt_v f es = Inr () \<longleftrightarrow> keys_ok (YList es)"
proof (induction fmt_v f m and fmt_v f v and fmt_v f es
    rule: validateYamlKeys_validateYamlValue_validateYamlElems.induct)
  case (2 fmt_v f k v rest)
  then show ?case by (cases k) (auto split: sum.splits)
next
  case (11 fmt_v f e es)
  then show ?case by (cases e) (auto split: sum.splits)
qed auto

text \<open>
  Key validation accepts a YAML document iff every key of every map in it is one of the valid
  key names, every list holds maps only, and every leaf is a string, number, boolean or null. The
  verdict does not depend on the order in which Go ranges over the maps.
\<close>

lemma validateYamlKeys_iff:
  "validateYamlKeys fmt_v fileName m = Inr () \<longleftrightarrow> keys_ok (YMap m)"
  by (rule validate_iff(1))

end
