(* ===== verification/Float32.thy ===== *)
theory Float32
  imports Prelude
begin

text \<open>
  The part of \<open>float32\<close> arithmetic the limiter uses to place the near-limit threshold,
  \<open>uint32(math.Floor(float64(float32(n) * ratio)))\<close>, for finite non-negative values.

  \<open>F32 m e\<close> stands for \<open>m * 2 ^ e\<close>. Conversion and product round the exact value to 24
  significant bits, ties to even (and to a multiple of \<open>2 ^ -149\<close>, the subnormal grid);
  widening to \<open>float64\<close> and \<open>math.Floor\<close> are exact. Go leaves the conversion of a value
  outside the range of \<open>uint32\<close> to the implementation: what it yields is an argument. An
  infinite product is such a value.
\<close>

datatype f32 = F32 (mant: nat) (expo: int)

fun bitlen :: "nat \<Rightarrow> nat" where
  "bitlen n = (if n = 0 then 0 else Suc (bitlen (n div 2)))"

declare bitlen.simps [simp del]

definition f32_round :: "nat \<Rightarrow> int \<Rightarrow> f32" where
  "f32_round m e =
     (let s = max (bitlen m - 24) (nat (- 149 - e));
          q = m div 2 ^ s;
          r = m mod 2 ^ s;
          up = 2 * r > 2 ^ s \<or> (2 * r = 2 ^ s \<and> odd q)
      in F32 (if up then Suc q else q) (e + int s))"

definition f32_of_u32 :: "u32 \<Rightarrow> f32" where
  "f32_of_u32 n = f32_round (unat n) 0"

definition f32_mult :: "f32 \<Rightarrow> f32 \<Rightarrow> f32" where
  "f32_mult a b = f32_round (mant a * mant b) (expo a + expo b)"

definition f32_floor :: "f32 \<Rightarrow> nat" where
  "f32_floor a = (if expo a \<ge> 0 then mant a * 2 ^ nat (expo a) else mant a div 2 ^ nat (- expo a))"

text \<open>\<open>a\<close> is at most one\<close>

definition f32_le_one :: "f32 \<Rightarrow> bool" where
  "f32_le_one a = (if expo a > 0 then mant a = 0 else mant a \<le> 2 ^ nat (- expo a))"

section \<open>Lemmas\<close>

lemma bitlen_bounds: "n \<noteq> 0 \<Longrightarrow> 2 ^ (bitlen n - 1) \<le> n \<and> n < 2 ^ bitlen n"
proof (induction n rule: bitlen.induct)
  case (1 n)
  show ?case
  proof (cases "n div 2 = 0")
    case True
    with "1.prems" have "n = 1" by arith
    then show ?thesis by (simp add: bitlen.simps)
  next
    case False
    have b: "bitlen n = Suc (bitlen (n div 2))" using "1.prems" by (simp add: bitlen.simps [of n])
    have ih: "2 ^ (bitlen (n div 2) - 1) \<le> n div 2" "n div 2 < 2 ^ bitlen (n div 2)"
      using "1.IH" [OF "1.prems" False] by auto
    have "bitlen (n div 2) \<noteq> 0" using False by (simp add: bitlen.simps [of "n div 2"])
    then obtain k where k: "bitlen (n div 2) = Suc k" by (cases "bitlen (n div 2)") auto
    from ih k b show ?thesis by auto
  qed
qed

lemma bitlen_le: "n < 2 ^ k \<Longrightarrow> bitlen n \<le> k"
proof -
  assume n: "n < 2 ^ k"
  show ?thesis
  proof (cases "n = 0")
    case True
    then show ?thesis by (simp add: bitlen.simps)
  next
    case False
    with bitlen_bounds [OF False] n have "(2::nat) ^ (bitlen n - 1) < 2 ^ k" by linarith
    then have "bitlen n - 1 < k" by (simp add: power_strict_increasing_iff)
    then show ?thesis by linarith
  qed
qed

lemma f32_of_u32_small: "unat n < 2 ^ 24 \<Longrightarrow> f32_of_u32 n = F32 (unat n) 0"
  using bitlen_le [of "unat n" 24] by (simp add: f32_of_u32_def f32_round_def Let_def)

text \<open>
  Rounding does not cross a representable bound: if the exact value \<open>m * 2 ^ - k\<close> is at most an
  integer \<open>n < 2 ^ 24\<close>, so is the floor of the rounded one.
\<close>

lemma f32_round_le:
  assumes m: "m \<le> n * 2 ^ k" and n: "n < 2 ^ 24"
  shows "f32_floor (f32_round m (- int k)) \<le> n"
proof -
  define s where "s = max (bitlen m - 24) (nat (int k - 149))"
  define q where "q = m div 2 ^ s"
  define r where "r = m mod 2 ^ s"
  define c where "c = (if 2 * r > 2 ^ s \<or> (2 * r = 2 ^ s \<and> odd q) then Suc q else q)"
  have fr: "f32_round m (- int k) = F32 c (int s - int k)"
    by (simp add: f32_round_def Let_def s_def q_def r_def c_def add.commute)
  have mq: "m = q * 2 ^ s + r" unfolding q_def r_def by (rule div_mult_mod_eq [symmetric])
  have sk: "s \<le> k"
  proof -
    have "m < 2 ^ (24 + k)"
    proof -
      have "n * 2 ^ k < 2 ^ 24 * 2 ^ k" using n by (rule mult_less_mono1) simp
      with m have "m < 2 ^ 24 * 2 ^ k" by (rule le_less_trans)
      then show ?thesis by (simp only: power_add)
    qed
    then have "bitlen m - 24 \<le> k" using bitlen_le [of m "24 + k"] by simp
    then show ?thesis by (simp add: s_def)
  qed
  then obtain j where k: "k = s + j" using le_Suc_ex by blast
  have "c * 2 ^ s \<le> n * 2 ^ k"
  proof (cases "c = q")
    case True
    then show ?thesis using m mq by simp
  next
    case False
    then have "c = Suc q" and "r \<noteq> 0" by (cases "r = 0"; auto simp: c_def split: if_splits)+
    have "n * 2 ^ k = n * 2 ^ j * 2 ^ s" by (simp add: k power_add mult_ac)
    with m mq \<open>r \<noteq> 0\<close> have "q * 2 ^ s < n * 2 ^ j * 2 ^ s" by linarith
    then have "Suc q \<le> n * 2 ^ j" by simp
    then have "Suc q * 2 ^ s \<le> n * 2 ^ j * 2 ^ s" by (rule mult_le_mono1)
    then show ?thesis using \<open>c = Suc q\<close> k by (simp add: power_add mult_ac)
  qed
  then have "c \<le> n * 2 ^ j" using k by (simp add: power_add mult_ac)
  moreover have "f32_floor (F32 c (int s - int k)) = c div 2 ^ j"
    using k by (cases j) (auto simp: f32_floor_def nat_add_distrib)
  ultimately show ?thesis
    using fr div_le_mono [of c "n * 2 ^ j" "2 ^ j"] by simp
qed

text \<open>A ratio of at most one never moves a bound below \<open>2 ^ 24\<close> upwards.\<close>

lemma f32_ratio_le:
  assumes "f32_le_one ratio" and "unat n < 2 ^ 24"
  shows "f32_floor (f32_mult (f32_of_u32 n) ratio) \<le> unat n"
proof (cases "expo ratio > 0")
  case True
  then have "mant ratio = 0" using assms(1) by (simp add: f32_le_one_def)
  then have "f32_floor (f32_mult (f32_of_u32 n) ratio) = 0"
    by (simp add: f32_mult_def f32_round_def f32_floor_def Let_def bitlen.simps)
  then show ?thesis by simp
next
  case False
  let ?k = "nat (- expo ratio)"
  have e: "expo ratio = - int ?k" using False by simp
  have "mant ratio \<le> 2 ^ ?k" using assms(1) False by (simp add: f32_le_one_def)
  then have "unat n * mant ratio \<le> unat n * 2 ^ ?k" by simp
  then have "f32_floor (f32_round (unat n * mant ratio) (- int ?k)) \<le> unat n"
    using assms(2) by (rule f32_round_le)
  then show ?thesis
    using e by (simp add: f32_mult_def f32_of_u32_small [OF assms(2)])
qed

end
