(* ===== verification/Limiter.thy ===== *)
theory Limiter
  imports Config_Lookup Float32
begin

text \<open>
  The package \<open>limiter\<close>, shared by the two back ends (\<open>src/limiter/cache_key.go\<close>,
  \<open>src/limiter/base_limiter.go\<close>): the keys under which hits are counted, the decision taken
  from a count, the statistics of that decision, and the local cache of exhausted keys.

  The local cache is \<open>freecache.Cache\<close>, a package outside the sources: its operations and what
  the Go implementation makes of an out-of-range conversion are the fields of the argument
  \<open>platform\<close>, its contents the field \<open>localCache\<close> of the state (\<open>None\<close> for the nil pointer).
\<close>

section \<open>Data\<close>

text \<open>The protobuf messages of a request and of a descriptor's status.\<close>

record RateLimitRequest =
  Domain :: string
  Descriptors :: "Descriptor list"
  HitsAddend :: u32

datatype Code = CODE_UNKNOWN | OK | OVER_LIMIT

record DescriptorStatus =
  Code :: Code
  CurrentLimit :: "RateLimitPb option"
  LimitRemaining :: u32
  DurationUntilReset :: "int option"

record CacheKey =
  ck_Key :: string
  PerSecond :: bool

record LimitInfo =
  li_limit :: "RateLimit option"
  limitBeforeIncrease :: u32
  limitAfterIncrease :: u32
  nearLimitThreshold :: u32
  overLimitThreshold :: u32

text \<open>
  \<open>fc_Get\<close> and \<open>fc_Set\<close> return the error of the call, \<open>None\<close> for nil, and the cache after
  it; \<open>uint32_of_large\<close> is the conversion to \<open>uint32\<close> of a float of \<open>2 ^ 32\<close> or more.
\<close>

record 'lc platform =
  fc_Get :: "string \<Rightarrow> 'lc \<Rightarrow> string option \<times> 'lc"
  fc_Set :: "string \<Rightarrow> int \<Rightarrow> 'lc \<Rightarrow> string option \<times> 'lc"
  uint32_of_large :: "f32 \<Rightarrow> u32"

record 'lc lim_state = world +
  localCache :: "'lc option"

record BaseRateLimiter =
  ExpirationJitterMaxSeconds :: int
  cacheKeyPrefix :: string
  nearLimitRatio :: f32
  StatsManager :: ManagerImpl

definition NewBaseRateLimit :: "int \<Rightarrow> f32 \<Rightarrow> string \<Rightarrow> ManagerImpl \<Rightarrow> BaseRateLimiter" where
  "NewBaseRateLimit expirationJitterMaxSeconds ratio keyPrefix sm =
     \<lparr>ExpirationJitterMaxSeconds = expirationJitterMaxSeconds, cacheKeyPrefix = keyPrefix,
      nearLimitRatio = ratio, StatsManager = sm\<rparr>"

definition NewRateLimitInfo :: "RateLimit option \<Rightarrow> u32 \<Rightarrow> u32 \<Rightarrow> u32 \<Rightarrow> u32 \<Rightarrow> LimitInfo" where
  "NewRateLimitInfo lim before after near over =
     \<lparr>li_limit = lim, limitBeforeIncrease = before, limitAfterIncrease = after,
      nearLimitThreshold = near, overLimitThreshold = over\<rparr>"

section \<open>Cache keys\<close>

definition isPerSecondLimit :: "Unit \<Rightarrow> bool" where
  "isPerSecondLimit unit = (unit = SECOND)"

definition GenerateCacheKey ::
  "string \<Rightarrow> string \<Rightarrow> Descriptor \<Rightarrow> RateLimit option \<Rightarrow> int \<Rightarrow> CacheKey res" where
  "GenerateCacheKey keyPrefix domain descriptor lim now =
     (case lim of
        None \<Rightarrow> Inr \<lparr>ck_Key = '''', PerSecond = False\<rparr>
      | Some l \<Rightarrow>
          (case UnitToDivider (lim_Unit (Limit l)) of
             Inl p \<Rightarrow> Inl p
           | Inr divider \<Rightarrow>
               Inr \<lparr>ck_Key =
                      keyPrefix @ domain @ ''_''
                      @ concat (map (\<lambda>entry. en_Key entry @ ''_'' @ en_Value entry @ ''_'')
                          (Entries descriptor))
                      @ FormatInt ((now sdiv divider) * divider),
                    PerSecond = isPerSecondLimit (lim_Unit (Limit l))\<rparr>))"

definition GenerateCacheKeys ::
  "BaseRateLimiter \<Rightarrow> RateLimitRequest \<Rightarrow> RateLimit option list \<Rightarrow> u32
    \<Rightarrow> ('x world_scheme, CacheKey list) M" where
  "GenerateCacheKeys this request lims hitsAddend =
     bind (Assert (length (Descriptors request) = length lims)) (\<lambda>_.
     bind UnixNow (\<lambda>now.
     mapM (\<lambda>(descriptor, lim).
       bind (lift_res
         (GenerateCacheKey (cacheKeyPrefix this) (Domain request) descriptor lim now)) (\<lambda>key.
       bind (case lim of
               None \<Rightarrow> ret ()
             | Some l \<Rightarrow> emit [CounterAdd (TotalHits (rl_Stats l)) (ucast hitsAddend)]) (\<lambda>_.
       ret key))) (zip (Descriptors request) lims)))"

section \<open>The local cache\<close>

definition IsOverLimitWithLocalCache ::
  "'lc platform \<Rightarrow> string \<Rightarrow> (('lc, 'x) lim_state_scheme, bool) M" where
  "IsOverLimitWithLocalCache pf key = (\<lambda>s.
     case localCache s of
       None \<Rightarrow> (Inr False, s)
     | Some lc \<Rightarrow> (case fc_Get pf key lc of
         (err, lc') \<Rightarrow> (Inr (err = None), s\<lparr>localCache := Some lc'\<rparr>)))"

text \<open>The \<open>Set\<close> of an exhausted key; its error is only logged.\<close>

definition local_cache_set ::
  "'lc platform \<Rightarrow> string \<Rightarrow> int \<Rightarrow> (('lc, 'x) lim_state_scheme, unit) M" where
  "local_cache_set pf key ttl = modify (\<lambda>s.
     case localCache s of None \<Rightarrow> s
     | Some lc \<Rightarrow> s\<lparr>localCache := Some (snd (fc_Set pf key ttl lc))\<rparr>)"

section \<open>The decision\<close>

definition IsOverLimitThresholdReached :: "LimitInfo \<Rightarrow> bool res" where
  "IsOverLimitThresholdReached limitInfo =
     (case li_limit limitInfo of
        None \<Rightarrow> Inl NilPanic
      | Some l \<Rightarrow>
          (let limitInfo = limitInfo\<lparr>overLimitThreshold := RequestsPerUnit (Limit l)\<rparr>
           in Inr (limitAfterIncrease limitInfo > overLimitThreshold limitInfo)))"

definition generateResponseDescriptorStatus ::
  "Code \<Rightarrow> RateLimitPb option \<Rightarrow> u32 \<Rightarrow> ('x world_scheme, DescriptorStatus) M" where
  "generateResponseDescriptorStatus responseCode lim limitRemaining =
     (case lim of
        Some l \<Rightarrow>
          bind (CalculateReset (lim_Unit l)) (\<lambda>reset.
          ret \<lparr>Code = responseCode, CurrentLimit = lim, LimitRemaining = limitRemaining,
               DurationUntilReset = Some reset\<rparr>)
      | None \<Rightarrow>
          ret \<lparr>Code = responseCode, CurrentLimit = lim, LimitRemaining = limitRemaining,
               DurationUntilReset = None\<rparr>)"

text \<open>\<open>uint32(math.Floor(float64(float32(overLimitThreshold) * nearLimitRatio)))\<close>\<close>

definition near_threshold :: "'lc platform \<Rightarrow> f32 \<Rightarrow> u32 \<Rightarrow> u32" where
  "near_threshold pf ratio over =
     (let p = f32_mult (f32_of_u32 over) ratio in
      if f32_floor p < 2 ^ 32 then of_nat (f32_floor p) else uint32_of_large pf p)"

definition checkOverLimitThreshold ::
  "RateLimit \<Rightarrow> LimitInfo \<Rightarrow> u32 \<Rightarrow> ('x world_scheme, unit) M" where
  "checkOverLimitThreshold l limitInfo hitsAddend =
     (if limitBeforeIncrease limitInfo \<ge> overLimitThreshold limitInfo
      then emit [CounterAdd (OverLimit (rl_Stats l)) (ucast hitsAddend)]
      else bind (emit [CounterAdd (OverLimit (rl_Stats l))
             (ucast (limitAfterIncrease limitInfo - overLimitThreshold limitInfo))]) (\<lambda>_.
           emit [CounterAdd (NearLimit (rl_Stats l))
             (ucast (overLimitThreshold limitInfo
                - Max_u32 (nearLimitThreshold limitInfo) (limitBeforeIncrease limitInfo)))]))"

definition checkNearLimitThreshold ::
  "RateLimit \<Rightarrow> LimitInfo \<Rightarrow> u32 \<Rightarrow> ('x world_scheme, unit) M" where
  "checkNearLimitThreshold l limitInfo hitsAddend =
     (if limitAfterIncrease limitInfo > nearLimitThreshold limitInfo
      then if limitBeforeIncrease limitInfo \<ge> nearLimitThreshold limitInfo
        then emit [CounterAdd (NearLimit (rl_Stats l)) (ucast hitsAddend)]
        else emit [CounterAdd (NearLimit (rl_Stats l))
               (ucast (limitAfterIncrease limitInfo - nearLimitThreshold limitInfo))]
      else ret ())"

definition increaseShadowModeStats ::
  "bool \<Rightarrow> RateLimit \<Rightarrow> LimitInfo \<Rightarrow> u32 \<Rightarrow> ('x world_scheme, unit) M" where
  "increaseShadowModeStats isOverLimitWithLocalCache l limitInfo hitsAddend =
     (if isOverLimitWithLocalCache \<or> limitBeforeIncrease limitInfo \<ge> overLimitThreshold limitInfo
      then emit [CounterAdd (ShadowModeStat (rl_Stats l)) (ucast hitsAddend)]
      else emit [CounterAdd (ShadowModeStat (rl_Stats l))
             (ucast (limitAfterIncrease limitInfo - overLimitThreshold limitInfo))])"

text \<open>
  The body of \<open>GetResponseDescriptorStatus\<close> with a limit: the two branches give the status
  before shadow mode, whether it is over the limit, and the information with its thresholds.
\<close>

definition status_of_count ::
  "'lc platform \<Rightarrow> BaseRateLimiter \<Rightarrow> string \<Rightarrow> RateLimit \<Rightarrow> LimitInfo \<Rightarrow> u32
    \<Rightarrow> (('lc, 'x) lim_state_scheme, DescriptorStatus \<times> bool \<times> LimitInfo) M" where
  "status_of_count pf this key l limitInfo hitsAddend =
     (let over = RequestsPerUnit (Limit l);
          info = limitInfo\<lparr>overLimitThreshold := over,
                   nearLimitThreshold := near_threshold pf (nearLimitRatio this) over\<rparr>
      in if limitAfterIncrease info > overLimitThreshold info
         then bind (generateResponseDescriptorStatus OVER_LIMIT (Some (Limit l)) 0) (\<lambda>status.
              bind (checkOverLimitThreshold l info hitsAddend) (\<lambda>_.
              bind (gets localCache) (\<lambda>lc.
              bind (if lc \<noteq> None
                    then bind (lift_res (UnitToDivider (lim_Unit (Limit l)))) (\<lambda>ttl.
                         local_cache_set pf key ttl)
                    else ret ()) (\<lambda>_.
              ret (status, True, info)))))
         else bind (generateResponseDescriptorStatus OK (Some (Limit l))
                (overLimitThreshold info - limitAfterIncrease info)) (\<lambda>status.
              bind (checkNearLimitThreshold l info hitsAddend) (\<lambda>_.
              bind (emit [CounterAdd (WithinLimit (rl_Stats l)) (ucast hitsAddend)]) (\<lambda>_.
              ret (status, False, info)))))"

definition status_of_local_cache ::
  "RateLimit \<Rightarrow> LimitInfo \<Rightarrow> u32
    \<Rightarrow> ('x world_scheme, DescriptorStatus \<times> bool \<times> LimitInfo) M" where
  "status_of_local_cache l limitInfo hitsAddend =
     bind (emit [CounterAdd (OverLimit (rl_Stats l)) (ucast hitsAddend)]) (\<lambda>_.
     bind (emit [CounterAdd (OverLimitWithLocalCache (rl_Stats l)) (ucast hitsAddend)]) (\<lambda>_.
     bind (generateResponseDescriptorStatus OVER_LIMIT (Some (Limit l)) 0) (\<lambda>status.
     ret (status, True, limitInfo))))"

definition GetResponseDescriptorStatus ::
  "'lc platform \<Rightarrow> BaseRateLimiter \<Rightarrow> string \<Rightarrow> LimitInfo \<Rightarrow> bool \<Rightarrow> u32
    \<Rightarrow> (('lc, 'x) lim_state_scheme, DescriptorStatus) M" where
  "GetResponseDescriptorStatus pf this key limitInfo isOverLimitWithLocalCache hitsAddend =
     (if key = '''' then generateResponseDescriptorStatus OK None 0
      else case li_limit limitInfo of
        None \<Rightarrow> raise NilPanic
      | Some l \<Rightarrow>
          bind (if isOverLimitWithLocalCache then status_of_local_cache l limitInfo hitsAddend
                else status_of_count pf this key l limitInfo hitsAddend)
            (\<lambda>(status, isOverLimit, info).
          if isOverLimit \<and> ShadowMode l
          then bind (increaseShadowModeStats isOverLimitWithLocalCache l info hitsAddend) (\<lambda>_.
               ret (status\<lparr>Code := OK\<rparr>))
          else ret status))"

section \<open>Lemmas: keys\<close>

lemma GenerateCacheKey_None [simp]:
  "GenerateCacheKey keyPrefix dn de None now = Inr \<lparr>ck_Key = '''', PerSecond = False\<rparr>"
  by (simp add: GenerateCacheKey_def)

text \<open>The part of a key that does not depend on the time.\<close>

definition key_stem :: "string \<Rightarrow> string \<Rightarrow> Descriptor \<Rightarrow> string" where
  "key_stem keyPrefix domain descriptor = keyPrefix @ domain @ ''_''
     @ concat (map (\<lambda>entry. en_Key entry @ ''_'' @ en_Value entry @ ''_'') (Entries descriptor))"

lemma GenerateCacheKey_Some:
  "UnitToDivider (lim_Unit (Limit l)) = Inr d \<Longrightarrow>
   GenerateCacheKey keyPrefix dn de (Some l) now =
     Inr \<lparr>ck_Key = key_stem keyPrefix dn de @ FormatInt (window_start d now),
          PerSecond = (lim_Unit (Limit l) = SECOND)\<rparr>"
  by (simp add: GenerateCacheKey_def key_stem_def window_start_def isPerSecondLimit_def)

lemma key_stem_ne [simp]: "key_stem p dn de \<noteq> []"
  by (simp add: key_stem_def)

lemma GenerateCacheKey_panic:
  "UnitToDivider (lim_Unit (Limit l)) = Inl p \<Longrightarrow>
   GenerateCacheKey keyPrefix dn de (Some l) now = Inl p"
  by (simp add: GenerateCacheKey_def)

lemma GenerateCacheKey_empty:
  assumes "GenerateCacheKey keyPrefix dn de lim now = Inr k"
  shows "ck_Key k = '''' \<longleftrightarrow> lim = None"
proof (cases lim)
  case None
  with assms show ?thesis by auto
next
  case (Some l)
  with assms show ?thesis
    by (cases "UnitToDivider (lim_Unit (Limit l))")
      (auto simp: GenerateCacheKey_Some GenerateCacheKey_panic)
qed

text \<open>What the loop over the descriptors returns and counts.\<close>

definition limit_ok :: "RateLimit option \<Rightarrow> bool" where
  "limit_ok lim = (case lim of None \<Rightarrow> True | Some l \<Rightarrow> valid_unit (lim_Unit (Limit l)))"

definition cache_key ::
  "BaseRateLimiter \<Rightarrow> string \<Rightarrow> int \<Rightarrow> Descriptor \<times> RateLimit option \<Rightarrow> CacheKey" where
  "cache_key this domain now = (\<lambda>(de, lim).
     case GenerateCacheKey (cacheKeyPrefix this) domain de lim now of
       Inr k \<Rightarrow> k
     | Inl _ \<Rightarrow> \<lparr>ck_Key = '''', PerSecond = False\<rparr>)"

definition hit_events :: "u32 \<Rightarrow> RateLimit option list \<Rightarrow> stat_event list" where
  "hit_events hits lims =
     concat (map (\<lambda>lim. case lim of None \<Rightarrow> []
       | Some l \<Rightarrow> [CounterAdd (TotalHits (rl_Stats l)) (ucast hits)]) lims)"

lemma limit_ok_Some:
  assumes "limit_ok (Some l)"
  obtains d where "UnitToDivider (lim_Unit (Limit l)) = Inr d" and "0 < d"
  using assms by (auto simp: limit_ok_def elim: valid_unitE)

lemma cache_key_None [simp]:
  "cache_key this dn now (de, None) = \<lparr>ck_Key = '''', PerSecond = False\<rparr>"
  by (simp add: cache_key_def)

lemma cache_key_Some:
  "UnitToDivider (lim_Unit (Limit l)) = Inr d \<Longrightarrow>
   cache_key this dn now (de, Some l) =
     \<lparr>ck_Key = key_stem (cacheKeyPrefix this) dn de @ FormatInt (window_start d now),
      PerSecond = (lim_Unit (Limit l) = SECOND)\<rparr>"
  by (simp add: cache_key_def GenerateCacheKey_Some)

lemma cache_key_empty:
  "limit_ok lim \<Longrightarrow> ck_Key (cache_key this dn now (de, lim)) = '''' \<longleftrightarrow> lim = None"
  by (cases lim) (auto simp: cache_key_Some elim: limit_ok_Some)

lemma generate_keys_loop:
  assumes "length ds = length lims" and "list_all limit_ok lims"
  shows "mapM (\<lambda>(descriptor, lim).
       bind (lift_res (GenerateCacheKey (cacheKeyPrefix this) dn descriptor lim now)) (\<lambda>key.
       bind (case lim of
               None \<Rightarrow> ret ()
             | Some l \<Rightarrow> emit [CounterAdd (TotalHits (rl_Stats l)) (ucast hits)]) (\<lambda>_.
       ret key))) (zip ds lims) t =
    (Inr (map (cache_key this dn now) (zip ds lims)), t\<lparr>stats := stats t @ hit_events hits lims\<rparr>)"
  using assms
proof (induction ds lims arbitrary: t rule: list_induct2)
  case Nil
  then show ?case by (simp add: monad_simps hit_events_def)
next
  case (Cons de ds lim lims)
  show ?case
  proof (cases lim)
    case None
    with Cons show ?thesis by (simp add: monad_simps hit_events_def)
  next
    case (Some l)
    with Cons.prems have "limit_ok (Some l)" by simp
    then obtain d where "UnitToDivider (lim_Unit (Limit l)) = Inr d" by (rule limit_ok_Some)
    with Cons Some show ?thesis
      by (simp add: monad_simps hit_events_def cache_key_Some GenerateCacheKey_Some)
  qed
qed

lemma GenerateCacheKeys_apply:
  assumes "list_all limit_ok lims" and "length (Descriptors request) = length lims"
  shows "GenerateCacheKeys this request lims hits s =
    (Inr (map (cache_key this (Domain request) (now_at s (reads s)))
       (zip (Descriptors request) lims)),
     s\<lparr>reads := Suc (reads s), stats := stats s @ hit_events hits lims\<rparr>)"
  using assms by (simp add: GenerateCacheKeys_def monad_simps generate_keys_loop)

section \<open>Lemmas: the decision\<close>

lemma generateResponseDescriptorStatus_None [monad_simps]:
  "generateResponseDescriptorStatus c None n s =
     (Inr \<lparr>Code = c, CurrentLimit = None, LimitRemaining = n, DurationUntilReset = None\<rparr>, s)"
  by (simp add: generateResponseDescriptorStatus_def prim_simps)

lemma generateResponseDescriptorStatus_Some:
  "UnitToDivider (lim_Unit l) = Inr d \<Longrightarrow>
   generateResponseDescriptorStatus c (Some l) n s =
     (Inr \<lparr>Code = c, CurrentLimit = Some l, LimitRemaining = n,
        DurationUntilReset = Some (d - now_at s (reads s) smod d)\<rparr>,
      s\<lparr>reads := Suc (reads s)\<rparr>)"
  by (simp add: generateResponseDescriptorStatus_def monad_simps)

lemma GetResponseDescriptorStatus_no_limit:
  "GetResponseDescriptorStatus pf this '''' info fromCache hits s =
     (Inr \<lparr>Code = OK, CurrentLimit = None, LimitRemaining = 0, DurationUntilReset = None\<rparr>, s)"
  by (simp add: GetResponseDescriptorStatus_def monad_simps)

text \<open>The answer: what the status is, for a limit with a valid unit.\<close>

definition exceeded :: "bool \<Rightarrow> RateLimit \<Rightarrow> u32 \<Rightarrow> bool" where
  "exceeded fromCache l after = (fromCache \<or> after > RequestsPerUnit (Limit l))"

definition answer :: "bool \<Rightarrow> RateLimit \<Rightarrow> u32 \<Rightarrow> int \<Rightarrow> DescriptorStatus" where
  "answer fromCache l after reset =
     \<lparr>Code = (if exceeded fromCache l after \<and> \<not> ShadowMode l then OVER_LIMIT else OK),
      CurrentLimit = Some (Limit l),
      LimitRemaining =
        (if exceeded fromCache l after then 0 else RequestsPerUnit (Limit l) - after),
      DurationUntilReset = Some reset\<rparr>"

text \<open>The metric calls and the local cache after it.\<close>

definition count_events :: "u32 \<Rightarrow> RateLimit \<Rightarrow> u32 \<Rightarrow> u32 \<Rightarrow> u32 \<Rightarrow> stat_event list" where
  "count_events near l before after hits =
     (let lim = RequestsPerUnit (Limit l); rs = rl_Stats l in
      if after > lim
      then (if before \<ge> lim then [CounterAdd (OverLimit rs) (ucast hits)]
            else [CounterAdd (OverLimit rs) (ucast (after - lim)),
                  CounterAdd (NearLimit rs) (ucast (lim - max near before))])
           @ (if ShadowMode l
              then [CounterAdd (ShadowModeStat rs)
                     (ucast (if before \<ge> lim then hits else after - lim))]
              else [])
      else (if after > near
            then [CounterAdd (NearLimit rs) (ucast (if before \<ge> near then hits else after - near))]
            else [])
           @ [CounterAdd (WithinLimit rs) (ucast hits)])"

definition cache_events :: "RateLimit \<Rightarrow> u32 \<Rightarrow> stat_event list" where
  "cache_events l hits =
     (let rs = rl_Stats l in
      [CounterAdd (OverLimit rs) (ucast hits), CounterAdd (OverLimitWithLocalCache rs) (ucast hits)]
      @ (if ShadowMode l then [CounterAdd (ShadowModeStat rs) (ucast hits)] else []))"

definition note_over :: "'lc platform \<Rightarrow> string \<Rightarrow> int \<Rightarrow> bool \<Rightarrow> 'lc option \<Rightarrow> 'lc option" where
  "note_over pf key d isOver lc =
     (if isOver then map_option (\<lambda>c. snd (fc_Set pf key d c)) lc else lc)"

lemma GetResponseDescriptorStatus_count:
  assumes "key \<noteq> ''''" and "UnitToDivider (lim_Unit (Limit l)) = Inr d" and "li_limit info = Some l"
  shows "GetResponseDescriptorStatus pf this key info False hits s =
    (Inr (answer False l (limitAfterIncrease info) (d - now_at s (reads s) smod d)),
     s\<lparr>reads := Suc (reads s),
       stats := stats s
         @ count_events (near_threshold pf (nearLimitRatio this) (RequestsPerUnit (Limit l)))
             l (limitBeforeIncrease info) (limitAfterIncrease info) hits,
       localCache :=
         note_over pf key d (exceeded False l (limitAfterIncrease info)) (localCache s)\<rparr>)"
proof (cases "limitAfterIncrease info > RequestsPerUnit (Limit l)")
  case True
  then show ?thesis
    using assms
    by (cases "localCache s")
      (simp_all add: GetResponseDescriptorStatus_def status_of_count_def Let_def monad_simps
        generateResponseDescriptorStatus_Some checkOverLimitThreshold_def local_cache_set_def
        increaseShadowModeStats_def answer_def exceeded_def count_events_def note_over_def)
next
  case False
  then show ?thesis
    using assms
    by (simp add: GetResponseDescriptorStatus_def status_of_count_def Let_def monad_simps
        generateResponseDescriptorStatus_Some checkNearLimitThreshold_def
        answer_def exceeded_def count_events_def note_over_def)
qed

lemma GetResponseDescriptorStatus_cached:
  assumes "key \<noteq> ''''" and "UnitToDivider (lim_Unit (Limit l)) = Inr d" and "li_limit info = Some l"
  shows "GetResponseDescriptorStatus pf this key info True hits s =
    (Inr (answer True l after (d - now_at s (reads s) smod d)),
     s\<lparr>reads := Suc (reads s), stats := stats s @ cache_events l hits\<rparr>)"
  using assms
  by (simp add: GetResponseDescriptorStatus_def status_of_local_cache_def Let_def monad_simps
      generateResponseDescriptorStatus_Some increaseShadowModeStats_def answer_def exceeded_def
      cache_events_def)


lemma GetResponseDescriptorStatus_answers:
  assumes "key \<noteq> ''''" and "UnitToDivider (lim_Unit (Limit l)) = Inr d" and "li_limit info = Some l"
  shows "\<exists>t. GetResponseDescriptorStatus pf this key info fromCache hits s =
    (Inr (answer fromCache l (limitAfterIncrease info) (d - now_at s (reads s) smod d)), t)"
proof (cases fromCache)
  case True
  then show ?thesis 
    by (simp add: GetResponseDescriptorStatus_cached [OF assms, where after = "limitAfterIncrease info"])
next
  case False
  then show ?thesis by (simp add: GetResponseDescriptorStatus_count [OF assms])
qed

text \<open>
  What the limiter relies on of freecache: a key is found only if it is among the contents, and
  the contents grow only by the keys that are set. (Entries may vanish at any time: they expire and
  are evicted.)
\<close>

definition cache_sound :: "'lc platform \<Rightarrow> ('lc \<Rightarrow> string set) \<Rightarrow> bool" where
  "cache_sound pf contents \<longleftrightarrow>
     (\<forall>k lc. fst (fc_Get pf k lc) = None \<longrightarrow> k \<in> contents lc) \<and>
     (\<forall>k lc. contents (snd (fc_Get pf k lc)) \<subseteq> contents lc) \<and>
     (\<forall>k ttl lc. contents (snd (fc_Set pf k ttl lc)) \<subseteq> insert k (contents lc))"

definition cached :: "('lc \<Rightarrow> string set) \<Rightarrow> 'lc option \<Rightarrow> string set" where
  "cached contents lc = (case lc of None \<Rightarrow> {} | Some c \<Rightarrow> contents c)"

lemma IsOverLimitWithLocalCache_sound:
  assumes "cache_sound pf contents"
  shows "\<exists>b lc. IsOverLimitWithLocalCache pf k s = (Inr b, s\<lparr>localCache := lc\<rparr>) \<and>
    (b \<longrightarrow> k \<in> cached contents (localCache s)) \<and>
    cached contents lc \<subseteq> cached contents (localCache s)"
proof (cases "localCache s")
  case None
  then have "IsOverLimitWithLocalCache pf k s = (Inr False, s\<lparr>localCache := None\<rparr>)"
    by (simp add: IsOverLimitWithLocalCache_def)
  then show ?thesis using None by (intro exI [of _ False] exI [of _ None]) simp
next
  case (Some c)
  obtain e c' where g: "fc_Get pf k c = (e, c')" by (cases "fc_Get pf k c")
  then have "fst (fc_Get pf k c) = e" "snd (fc_Get pf k c) = c'" by simp_all
  then have "e = None \<longrightarrow> k \<in> contents c" "contents c' \<subseteq> contents c"
    using assms unfolding cache_sound_def by metis+
  moreover have "IsOverLimitWithLocalCache pf k s = (Inr (e = None), s\<lparr>localCache := Some c'\<rparr>)"
    using Some g by (simp add: IsOverLimitWithLocalCache_def)
  ultimately show ?thesis using Some by (intro exI conjI) (auto simp: cached_def)
qed

lemma note_over_sound:
  "cache_sound pf contents \<Longrightarrow>
   cached contents (note_over pf k d b lc) \<subseteq> cached contents lc \<union> (if b then {k} else {})"
  by (cases lc) (auto simp: note_over_def cached_def cache_sound_def)

section \<open>The interface of a back end\<close>

definition no_limit_status :: DescriptorStatus where
  "no_limit_status = \<lparr>Code = OK, CurrentLimit = None, LimitRemaining = 0, DurationUntilReset = None\<rparr>"

text \<open>
  What a status says for a limit: nothing without one; with one, the limit, a reset time and a code,
  which is \<open>OVER_LIMIT\<close> only if nothing remains and the limit is not in shadow mode.
\<close>

definition status_ok :: "RateLimit option \<Rightarrow> DescriptorStatus \<Rightarrow> bool" where
  "status_ok lim st =
     (case lim of
        None \<Rightarrow> st = no_limit_status
      | Some l \<Rightarrow> CurrentLimit st = Some (Limit l) \<and> DurationUntilReset st \<noteq> None \<and>
          (Code st = OK \<or> Code st = OVER_LIMIT \<and> \<not> ShadowMode l \<and> LimitRemaining st = 0))"

text \<open>
  The contract of \<open>RateLimitCache.DoLimit\<close> (\<open>src/limiter/cache.go\<close>), which the service relies on:
  for a request and as many limits, all with valid units, there is one status per limit, or a panic
  of the kind the back end is known for.
\<close>

locale rate_limit_cache =
  fixes do_limit :: "RateLimitRequest \<Rightarrow> RateLimit option list \<Rightarrow> ('s, DescriptorStatus list) M"
    and backend_error :: "panic \<Rightarrow> bool"
  assumes do_limit_runs:
    "length (Descriptors request) = length lims \<Longrightarrow> list_all limit_ok lims \<Longrightarrow>
     runs backend_error (do_limit request lims) s (\<lambda>sts t. list_all2 status_ok lims sts)"
begin

lemma statuses_length:
  assumes "do_limit request lims s = (Inr sts, t)"
    and "length (Descriptors request) = length lims" and "list_all limit_ok lims"
  shows "length sts = length lims"
  using runsD [OF do_limit_runs [OF assms(2,3)] assms(1)] by (rule list_all2_lengthD [symmetric])

lemma over_limit_needs_limit:
  assumes "do_limit request lims s = (Inr sts, t)"
    and "length (Descriptors request) = length lims" and "list_all limit_ok lims"
    and "i < length sts" and "Code (sts ! i) = OVER_LIMIT"
  shows "\<exists>l. lims ! i = Some l \<and> \<not> ShadowMode l \<and> CurrentLimit (sts ! i) = Some (Limit l)"
proof -
  have "list_all2 status_ok lims sts" by (rule runsD [OF do_limit_runs [OF assms(2,3)] assms(1)])
  then have "status_ok (lims ! i) (sts ! i)" using assms(4) by (simp add: list_all2_conv_all_nth)
  then show ?thesis
    using assms(5) by (auto simp: status_ok_def no_limit_status_def split: option.splits)
qed

end

lemma answer_status_ok: "status_ok (Some l) (answer fromCache l after reset)"
  by (simp add: status_ok_def answer_def)

text \<open>The last step of either back end gives such a status.\<close>

lemma GetResponseDescriptorStatus_runs:
  assumes "limit_ok (li_limit info)" and "key = '''' \<longleftrightarrow> li_limit info = None"
  shows "runs E (GetResponseDescriptorStatus pf this key info fromCache hits) s
    (\<lambda>st t. status_ok (li_limit info) st)"
proof (cases "li_limit info")
  case None
  then show ?thesis
    using assms(2) by (intro runs_eq [OF _]) (simp_all add: GetResponseDescriptorStatus_no_limit status_ok_def no_limit_status_def)
next
  case (Some l)
  then obtain d where d: "UnitToDivider (lim_Unit (Limit l)) = Inr d"
    using assms(1) by (auto elim: limit_ok_Some)
  have "key \<noteq> ''''" using assms(2) Some by simp
  from GetResponseDescriptorStatus_answers [OF this d Some] obtain t where "GetResponseDescriptorStatus pf this key info fromCache hits s =
      (Inr (answer fromCache l (limitAfterIncrease info) (d - now_at s (reads s) smod d)), t)"
    by blast
  then show ?thesis by (rule runs_eq) (simp add: Some answer_status_ok)
qed

section \<open>Lemmas: accounting\<close>

text \<open>
  Hits are numbered within a window: a request that moves the counter from \<open>before\<close> to
  \<open>after\<close> makes the hits \<open>before + 1, \<dots>, after\<close>. The hits of a request in a range:
\<close>

definition hits_in :: "u32 \<Rightarrow> u32 \<Rightarrow> u32 \<Rightarrow> u32 \<Rightarrow> nat" where
  "hits_in before after lo hi =
     card {p. unat before < p \<and> p \<le> unat after \<and> unat lo < p \<and> p \<le> unat hi}"

lemma hits_in_eq:
  "hits_in before after lo hi = min (unat after) (unat hi) - max (unat before) (unat lo)"
proof -
  have "{p. unat before < p \<and> p \<le> unat after \<and> unat lo < p \<and> p \<le> unat hi} =
      {max (unat before) (unat lo) <.. min (unat after) (unat hi)}"
    by auto
  then show ?thesis by (simp add: hits_in_def)
qed

lemma ucast_of_nat: "unat (w :: u32) = n \<Longrightarrow> ucast w = (of_nat n :: u64)"
  by auto

lemma unat_max: "unat (max a b :: u32) = max (unat a) (unat b)"
  by (simp add: max_def word_le_nat_alt)

lemma counted_count_events:
  assumes "distinct (counters (rl_Stats l))"
  shows "counted (OverLimit (rl_Stats l)) (count_events near l before after hits) =
      (if after > RequestsPerUnit (Limit l)
       then ucast (if before \<ge> RequestsPerUnit (Limit l) then hits
                   else after - RequestsPerUnit (Limit l)) else 0)"
    and "counted (NearLimit (rl_Stats l)) (count_events near l before after hits) =
      (if after > RequestsPerUnit (Limit l)
       then (if before \<ge> RequestsPerUnit (Limit l) then 0
             else ucast (RequestsPerUnit (Limit l) - max near before))
       else if after > near then ucast (if before \<ge> near then hits else after - near) else 0)"
    and "counted (WithinLimit (rl_Stats l)) (count_events near l before after hits) =
      (if after > RequestsPerUnit (Limit l) then 0 else ucast hits)"
    and "counted (ShadowModeStat (rl_Stats l)) (count_events near l before after hits) =
      (if ShadowMode l \<and> after > RequestsPerUnit (Limit l)
       then ucast (if before \<ge> RequestsPerUnit (Limit l) then hits
                   else after - RequestsPerUnit (Limit l)) else 0)"
    and "counted (OverLimitWithLocalCache (rl_Stats l)) (count_events near l before after hits) = 0"
    and "counted (TotalHits (rl_Stats l)) (count_events near l before after hits) = 0"
proof -
  let ?r = "rl_Stats l"
  have d: "OverLimit ?r \<noteq> NearLimit ?r" "OverLimit ?r \<noteq> WithinLimit ?r"
    "OverLimit ?r \<noteq> ShadowModeStat ?r" "NearLimit ?r \<noteq> WithinLimit ?r"
    "NearLimit ?r \<noteq> ShadowModeStat ?r" "WithinLimit ?r \<noteq> ShadowModeStat ?r"
    using assms by (simp_all add: counters_def)
  have d': "OverLimitWithLocalCache ?r \<noteq> OverLimit ?r" "OverLimitWithLocalCache ?r \<noteq> NearLimit ?r"
    "OverLimitWithLocalCache ?r \<noteq> WithinLimit ?r" "OverLimitWithLocalCache ?r \<noteq> ShadowModeStat ?r"
    "TotalHits ?r \<noteq> OverLimit ?r" "TotalHits ?r \<noteq> NearLimit ?r"
    "TotalHits ?r \<noteq> WithinLimit ?r" "TotalHits ?r \<noteq> ShadowModeStat ?r"
    using assms by (auto simp: counters_def)
  note simps = count_events_def Let_def d d [symmetric]
  show "counted (OverLimit ?r) (count_events near l before after hits) =
      (if after > RequestsPerUnit (Limit l)
       then ucast (if before \<ge> RequestsPerUnit (Limit l) then hits
                   else after - RequestsPerUnit (Limit l)) else 0)"
    by (simp add: simps)
  show "counted (NearLimit ?r) (count_events near l before after hits) =
      (if after > RequestsPerUnit (Limit l)
       then (if before \<ge> RequestsPerUnit (Limit l) then 0
             else ucast (RequestsPerUnit (Limit l) - max near before))
       else if after > near then ucast (if before \<ge> near then hits else after - near) else 0)"
    by (simp add: simps)
  show "counted (WithinLimit ?r) (count_events near l before after hits) =
      (if after > RequestsPerUnit (Limit l) then 0 else ucast hits)"
    by (simp add: simps)
  show "counted (ShadowModeStat ?r) (count_events near l before after hits) =
      (if ShadowMode l \<and> after > RequestsPerUnit (Limit l)
       then ucast (if before \<ge> RequestsPerUnit (Limit l) then hits
                   else after - RequestsPerUnit (Limit l)) else 0)"
    by (simp add: simps)
  show "counted (OverLimitWithLocalCache ?r) (count_events near l before after hits) = 0"
    "counted (TotalHits ?r) (count_events near l before after hits) = 0"
    by (simp_all add: simps d')
qed

lemma counted_cache_events:
  assumes "distinct (counters (rl_Stats l))"
  shows "counted (OverLimit (rl_Stats l)) (cache_events l hits) = ucast hits"
    and "counted (ShadowModeStat (rl_Stats l)) (cache_events l hits) = (if ShadowMode l then ucast hits else 0)"
    and "counted (OverLimitWithLocalCache (rl_Stats l)) (cache_events l hits) = ucast hits"
    and "counted (WithinLimit (rl_Stats l)) (cache_events l hits) = 0"
    and "counted (NearLimit (rl_Stats l)) (cache_events l hits) = 0"
    and "counted (TotalHits (rl_Stats l)) (cache_events l hits) = 0"
  using assms by (auto simp: counters_def cache_events_def Let_def)

text \<open>The arithmetic of the four branches, on numbers.\<close>

lemma over_hits:
  assumes "after = before + hits" and "unat before + unat hits < 2 ^ 32"
  shows "(if after > lim then ucast (if before \<ge> lim then hits else after - lim) else 0 :: u64) =
    of_nat (hits_in before after lim MaxUint32)"
proof -
  have after: "unat after = unat before + unat hits"
    using assms by (simp add: unat_add_no_wrap)
  have "unat after \<le> unat MaxUint32" using after assms(2) by (simp add: unat_MaxUint32)
  then have h: "hits_in before after lim MaxUint32 = unat after - max (unat before) (unat lim)"
    by (simp add: hits_in_eq min_def)
  consider "after \<le> lim" | "after > lim" "before \<ge> lim" | "after > lim" "before < lim" by force
  then show ?thesis
  proof cases
    case 1
    then have "unat after \<le> unat lim" by (simp add: word_le_nat_alt)
    then show ?thesis using 1 h by (auto dest: leD)
  next
    case 2
    then have "unat hits = hits_in before after lim MaxUint32"
      by (simp add: h after word_le_nat_alt)
    then show ?thesis using 2 by (auto simp: ucast_of_nat dest: leD)
  next
    case 3
    then have "unat (after - lim) = unat after - unat lim" by (simp add: unat_sub_no_wrap)
    moreover have "unat before \<le> unat lim" using 3 by (simp add: word_less_nat_alt)
    ultimately have "unat (after - lim) = hits_in before after lim MaxUint32" by (simp add: h)
    then have "ucast (after - lim) = (of_nat (hits_in before after lim MaxUint32) :: u64)"
      by (rule ucast_of_nat)
    then show ?thesis using 3 by (auto dest: leD)
  qed
qed

lemma near_hits:
  assumes "after = before + hits" and "unat before + unat hits < 2 ^ 32" and "near \<le> lim"
  shows "(if after > lim then (if before \<ge> lim then 0 else ucast (lim - max near before))
      else if after > near then ucast (if before \<ge> near then hits else after - near) else 0 :: u64) =
    of_nat (hits_in before after near lim)"
proof -
  have after: "unat after = unat before + unat hits"
    using assms by (simp add: unat_add_no_wrap)
  have le: "unat near \<le> unat lim" using assms(3) by (simp add: word_le_nat_alt)
  consider "after > lim" "before \<ge> lim" | "after > lim" "before < lim"
    | "after \<le> lim" "after \<le> near" | "after \<le> lim" "after > near" "before \<ge> near"
    | "after \<le> lim" "after > near" "before < near" by force
  then show ?thesis
  proof cases
    case 1
    then have "hits_in before after near lim = 0"
      by (simp add: hits_in_eq word_le_nat_alt word_less_nat_alt)
    then show ?thesis using 1 by simp
  next
    case 2
    then have "max near before \<le> lim" using assms(3) by simp
    then have "unat (lim - max near before) = hits_in before after near lim"
      using 2 by (simp add: unat_sub_no_wrap unat_max hits_in_eq word_less_nat_alt max.commute)
    then show ?thesis using 2 by (auto simp: ucast_of_nat dest: leD)
  next
    case 3
    then have "hits_in before after near lim = 0"
      using le by (simp add: hits_in_eq word_le_nat_alt)
    then show ?thesis using 3 by (auto dest: leD)
  next
    case 4
    then have "unat hits = hits_in before after near lim"
      by (simp add: hits_in_eq after word_le_nat_alt)
    then have "ucast hits = (of_nat (hits_in before after near lim) :: u64)" by (rule ucast_of_nat)
    then show ?thesis using 4 by (auto dest: leD)
  next
    case 5
    then have "unat (after - near) = hits_in before after near lim"
      by (simp add: hits_in_eq unat_sub_no_wrap word_le_nat_alt word_less_nat_alt)
    then have "ucast (after - near) = (of_nat (hits_in before after near lim) :: u64)" by (rule ucast_of_nat)
    then show ?thesis using 5 by (auto dest: leD)
  qed
qed

text \<open>With a ratio of at most one the near threshold is below the limit, if the limit is exact.\<close>

lemma near_threshold_le:
  assumes "f32_le_one ratio" and "unat n < 2 ^ 24"
  shows "near_threshold pf ratio n \<le> n"
proof -
  let ?f = "f32_floor (f32_mult (f32_of_u32 n) ratio)"
  have f: "?f \<le> unat n" by (rule f32_ratio_le [OF assms])
  then have "?f < 2 ^ 32" using assms(2) by simp
  moreover from this have "unat (of_nat ?f :: u32) = ?f" by (simp add: unat_of_nat)
  ultimately show ?thesis using f by (simp add: near_threshold_def Let_def word_le_nat_alt)
qed


section \<open>Properties\<close>

text \<open>
  C40. Cache keys identify a window. For one descriptor and one limit with a valid unit, keys are
  generated at any two non-negative times, are not empty, and are equal exactly when the two times
  lie in the same window of the unit.
\<close>

theorem GenerateCacheKey_window:
  assumes "UnitToDivider (lim_Unit (Limit l)) = Inr d" and "0 \<le> now1" and "0 \<le> now2"
  shows "\<exists>k1 k2. GenerateCacheKey keyPrefix domain descriptor (Some l) now1 = Inr k1 \<and>
    GenerateCacheKey keyPrefix domain descriptor (Some l) now2 = Inr k2 \<and>
    ck_Key k1 \<noteq> '''' \<and> (ck_Key k1 = ck_Key k2 \<longleftrightarrow> now1 div d = now2 div d)"
  using assms UnitToDivider_pos [OF assms(1)]
  by (simp add: GenerateCacheKey_Some FormatInt_inject same_window_iff)

definition sample_limit :: RateLimit where
  "sample_limit = NewRateLimit 10 MINUTE (NewStats (NewStatManager []) ''d.k'') False False '''' [] False"

theorem GenerateCacheKey_window_witness:
  "\<exists>k1 k2. GenerateCacheKey ''p'' ''d'' (sample_request ''a'' ''b'') (Some sample_limit) 61 = Inr k1 \<and>
    GenerateCacheKey ''p'' ''d'' (sample_request ''a'' ''b'') (Some sample_limit) 119 = Inr k2 \<and>
    ck_Key k1 \<noteq> '''' \<and> ck_Key k1 = ck_Key k2"
  using GenerateCacheKey_window [of sample_limit 60 61 119 "''p''" "''d''" "sample_request ''a'' ''b''"]
  by (simp add: sample_limit_def NewRateLimit_def)

text \<open>
  Different descriptors may share a counter: keys and values are joined with underscores that
  are not escaped, so the descriptors \<open>(a, b_c)\<close> and \<open>(a_b, c)\<close> have the same cache key at
  every time, for every limit.
\<close>

lemma GenerateCacheKey_collision:
  "GenerateCacheKey keyPrefix domain (sample_request ''a'' ''b_c'') lim now =
   GenerateCacheKey keyPrefix domain (sample_request ''a_b'' ''c'') lim now"
  by (cases lim) (simp_all add: GenerateCacheKey_def sample_request_def split: sum.split)

text \<open>
  C13. The decision. For a limit with a valid unit, the status of a request that brought the counter
  to \<open>after\<close> is \<open>OVER_LIMIT\<close> exactly when the limit is not in shadow mode and the key is known
  to be exhausted from the local cache or \<open>after\<close> is above the limit; the limit is reported with
  what remains of it (nothing, once it is exceeded), and a reset within one window.
\<close>

theorem GetResponseDescriptorStatus_decides:
  assumes "key \<noteq> ''''" and "li_limit info = Some l" and "UnitToDivider (lim_Unit (Limit l)) = Inr d"
    and "0 \<le> now_at s (reads s)"
  shows "\<exists>st t reset. GetResponseDescriptorStatus pf this key info fromCache hits s = (Inr st, t) \<and>
    (Code st = OVER_LIMIT \<longleftrightarrow>
      (fromCache \<or> RequestsPerUnit (Limit l) < limitAfterIncrease info) \<and> \<not> ShadowMode l) \<and>
    (Code st = OVER_LIMIT \<or> Code st = OK) \<and>
    CurrentLimit st = Some (Limit l) \<and>
    unat (LimitRemaining st) =
      (if fromCache then 0
       else unat (RequestsPerUnit (Limit l)) - unat (limitAfterIncrease info)) \<and>
    DurationUntilReset st = Some reset \<and> 0 < reset \<and> reset \<le> d"
proof -
  have reset: "0 < d - now_at s (reads s) smod d" "d - now_at s (reads s) smod d \<le> d"
    using assms(4) UnitToDivider_pos [OF assms(3)] by (simp_all add: smod_mod_positive)
  have rem: "unat (LimitRemaining (answer fromCache l (limitAfterIncrease info) r)) =
      (if fromCache then 0
       else unat (RequestsPerUnit (Limit l)) - unat (limitAfterIncrease info))" for r
  proof (cases "limitAfterIncrease info \<le> RequestsPerUnit (Limit l)")
    case True
    then show ?thesis
      using unat_sub_no_wrap [OF True] by (auto simp: answer_def exceeded_def dest: leD)
  next
    case False
    then have "unat (RequestsPerUnit (Limit l)) \<le> unat (limitAfterIncrease info)"
      by (simp add: word_le_nat_alt)
    then show ?thesis using False by (simp add: answer_def exceeded_def not_le)
  qed
  let ?st = "answer fromCache l (limitAfterIncrease info) (d - now_at s (reads s) smod d)"
  obtain t where "GetResponseDescriptorStatus pf this key info fromCache hits s = (Inr ?st, t)"
    using GetResponseDescriptorStatus_answers [OF assms(1,3,2)] by blast
  moreover have "(Code ?st = OVER_LIMIT \<longleftrightarrow>
      (fromCache \<or> RequestsPerUnit (Limit l) < limitAfterIncrease info) \<and> \<not> ShadowMode l) \<and>
    (Code ?st = OVER_LIMIT \<or> Code ?st = OK) \<and> CurrentLimit ?st = Some (Limit l) \<and>
    DurationUntilReset ?st = Some (d - now_at s (reads s) smod d)"
    by (simp add: answer_def exceeded_def)
  ultimately show ?thesis using rem reset by blast
qed

text \<open>A local cache that is a set of keys, and a state with it.\<close>

definition set_cache :: "string list platform" where
  "set_cache = \<lparr>fc_Get = (\<lambda>k c. (if k \<in> set c then None else Some ''Entry not found'', c)),
     fc_Set = (\<lambda>k ttl c. (None, k # c)), uint32_of_large = (\<lambda>_. 0)\<rparr>"

lemma set_cache_sound: "cache_sound set_cache set"
  by (auto simp: cache_sound_def set_cache_def)

definition sample_lim_state :: "string list lim_state" where
  "sample_lim_state = \<lparr>now_at = (\<lambda>_. 1234), reads = 0, rand_at = (\<lambda>_. 0), draws = 0, stats = [],
     localCache = Some []\<rparr>"

definition sample_base :: BaseRateLimiter where
  "sample_base = NewBaseRateLimit 0 (F32 13421773 (-24)) '''' (NewStatManager [])"

theorem GetResponseDescriptorStatus_decides_witness:
  "\<exists>st t. GetResponseDescriptorStatus set_cache sample_base ''k''
      (NewRateLimitInfo (Some sample_limit) 9 11 0 0) False 2 sample_lim_state = (Inr st, t) \<and>
    Code st = OVER_LIMIT \<and> LimitRemaining st = 0"
  using GetResponseDescriptorStatus_decides [of "''k''" "NewRateLimitInfo (Some sample_limit) 9 11 0 0"
      sample_limit 60 sample_lim_state set_cache sample_base False 2]
  by (auto simp: sample_limit_def NewRateLimit_def NewRateLimitInfo_def sample_lim_state_def
      unat_eq_0)

text \<open>
  C14. Accounting of one descriptor, when adding its hits does not wrap around. Let the hits above the
  limit be all of them if the local cache knows the key to be exhausted, and otherwise those that
  brought the counter from the limit, or from where it was above it, to its new value. Then
  \<open>over_limit\<close> grows by the hits above the limit, \<open>shadow_mode\<close> too if the limit is in shadow mode, and
  \<open>over_limit_with_local_cache\<close> by all hits exactly if the local cache has decided. \<open>within_limit\<close> is
  all or nothing: it grows by all hits of a request that ends within the limit, and not at all for one
  that ends above it, even if some of its hits were within. \<open>near_limit\<close> grows by the hits above the
  near threshold and up to the limit, if the threshold is not above the limit; it is not for a ratio
  of at most one and a limit below \<open>2 ^ 24\<close> (see \<open>near_limit_wraps\<close> for another limit).
  \<open>total_hits\<close> does not grow here.
\<close>

theorem GetResponseDescriptorStatus_accounts:
  assumes "key \<noteq> ''''" and "li_limit info = Some l" and "valid_unit (lim_Unit (Limit l))"
    and "distinct (counters (rl_Stats l))"
    and "before = limitBeforeIncrease info" and "after = limitAfterIncrease info"
    and "\<not> fromCache \<longrightarrow> after = before + hits \<and> unat before + unat hits < 2 ^ 32"
    and "lim = RequestsPerUnit (Limit l)" and "near = near_threshold pf (nearLimitRatio this) lim"
    and "over = (if fromCache then unat hits else hits_in before after lim MaxUint32)"
  shows "\<exists>es.
    stats (snd (GetResponseDescriptorStatus pf this key info fromCache hits s)) = stats s @ es \<and>
    counted (OverLimit (rl_Stats l)) es = of_nat over \<and>
    counted (ShadowModeStat (rl_Stats l)) es = (if ShadowMode l then of_nat over else 0) \<and>
    counted (OverLimitWithLocalCache (rl_Stats l)) es = (if fromCache then ucast hits else 0) \<and>
    counted (WithinLimit (rl_Stats l)) es = (if fromCache \<or> after > lim then 0 else ucast hits) \<and>
    (near \<le> lim \<longrightarrow> counted (NearLimit (rl_Stats l)) es =
      of_nat (if fromCache then 0 else hits_in before after near lim)) \<and>
    (f32_le_one (nearLimitRatio this) \<and> unat lim < 2 ^ 24 \<longrightarrow> near \<le> lim) \<and>
    counted (TotalHits (rl_Stats l)) es = 0"
proof -
  obtain d where d: "UnitToDivider (lim_Unit (Limit l)) = Inr d" using assms(3) by (rule valid_unitE)
  have near: "f32_le_one (nearLimitRatio this) \<and> unat lim < 2 ^ 24 \<longrightarrow> near \<le> lim"
    using near_threshold_le assms(9) by blast
  show ?thesis
  proof (cases fromCache)
    case True
    have "stats (snd (GetResponseDescriptorStatus pf this key info fromCache hits s)) = stats s @ cache_events l hits"
      using True by (simp add: GetResponseDescriptorStatus_cached [OF assms(1) d assms(2), where after = after])
    then show ?thesis
      using near True by (intro exI [of _ "cache_events l hits"]) (simp add: counted_cache_events [OF assms(4)] assms(10))
  next
    case False
    then have after: "after = before + hits" "unat before + unat hits < 2 ^ 32" using assms(7) by simp_all
    let ?es = "count_events near l before after hits"
    have st: "stats (snd (GetResponseDescriptorStatus pf this key info fromCache hits s)) = stats s @ ?es"
      using False by (simp add: GetResponseDescriptorStatus_count [OF assms(1) d assms(2)] assms(5,6,8,9))
    note counts = counted_count_events [OF assms(4), folded assms(8)] over_hits [OF after, of lim, symmetric]
    have "counted (NearLimit (rl_Stats l)) ?es = of_nat (hits_in before after near lim)" if "near \<le> lim"
      by (simp only: counts near_hits [OF after that])
    then show ?thesis
      using st False near by (intro exI [of _ ?es]) (simp add: counts assms(10))
  qed
qed

theorem GetResponseDescriptorStatus_accounts_witness:
  "\<exists>es. stats (snd (GetResponseDescriptorStatus set_cache sample_base ''k''
      (NewRateLimitInfo (Some sample_limit) 7 11 0 0) False 4 sample_lim_state)) = [] @ es \<and>
    counted (OverLimit (rl_Stats sample_limit)) es = 1 \<and> counted (WithinLimit (rl_Stats sample_limit)) es = 0"
proof -
  let ?info = "NewRateLimitInfo (Some sample_limit) 7 11 0 0"
  have info: "li_limit ?info = Some sample_limit" "limitBeforeIncrease ?info = 7" "limitAfterIncrease ?info = 11"
    "RequestsPerUnit (Limit sample_limit) = 10" "valid_unit (lim_Unit (Limit sample_limit))"
    by (simp_all add: NewRateLimitInfo_def sample_limit_def NewRateLimit_def)
  have hits: "\<not> False \<longrightarrow> (11 :: u32) = 7 + 4 \<and> unat (7 :: u32) + unat (4 :: u32) < 2 ^ 32" by simp
  have over: "1 = (if False then unat (4 :: u32) else hits_in 7 11 10 MaxUint32)"
    by (simp add: hits_in_eq MaxUint32_def)
  have "distinct (counters (rl_Stats sample_limit))"
    by (simp add: sample_limit_def NewRateLimit_def NewStats_distinct)
  from GetResponseDescriptorStatus_accounts [OF _ info(1,5) this info(2,3) [symmetric] hits info(4) [symmetric] refl over,
      of "''k''" set_cache sample_base sample_lim_state]
  obtain es where
    "stats (snd (GetResponseDescriptorStatus set_cache sample_base ''k'' ?info False 4 sample_lim_state)) =
      stats sample_lim_state @ es"
    "counted (OverLimit (rl_Stats sample_limit)) es = of_nat 1"
    "counted (WithinLimit (rl_Stats sample_limit)) es = (if False \<or> 11 > (10 :: u32) then 0 else ucast (4 :: u32))"
    by blast
  then show ?thesis by (intro exI [of _ es]) (simp add: sample_lim_state_def)
qed

text \<open>
  The near-limit counter can wrap. With the ratio one and the limit 16777219, which \<open>float32\<close>
  rounds up to 16777220, the near threshold is above the limit; the hit that crosses the limit
  then adds \<open>2 ^ 32 - 1\<close> to \<open>near_limit\<close>.
\<close>

lemma near_limit_wraps:
  "near_threshold pf (F32 1 0) 16777219 = 16777220 \<and>
   checkOverLimitThreshold l \<lparr>li_limit = Some l, limitBeforeIncrease = 16777218,
       limitAfterIncrease = 16777220, nearLimitThreshold = near_threshold pf (F32 1 0) 16777219,
       overLimitThreshold = 16777219\<rparr> 2 s =
     (Inr (), s\<lparr>stats := stats s @ [CounterAdd (OverLimit (rl_Stats l)) 1,
        CounterAdd (NearLimit (rl_Stats l)) 4294967295]\<rparr>)"
proof -
  have "near_threshold pf (F32 1 0) 16777219 = 16777220"
    by (simp add: near_threshold_def f32_mult_def f32_of_u32_def f32_round_def f32_floor_def Let_def
        bitlen.simps)
  moreover have "(ucast (- 1 :: u32) :: u64) = 4294967295" by code_simp
  ultimately show ?thesis by (simp add: checkOverLimitThreshold_def monad_simps)
qed


end
