(* ===== verification/Redis_Driver.thy ===== *)
theory Redis_Driver
  imports Utils
begin

text \<open>
  The redis client (\<open>src/redis/driver.go\<close>, \<open>src/redis/driver_impl.go\<close>): building a client from
  its settings, appending commands to a pipeline and executing it.

  The client library radix is outside the sources. \<open>'r\<close> is what is behind a connection (the pool
  and the servers); the operations of radix the sources call are the fields of the argument
  \<open>radix\<close>. Executing a command gives an error or the value stored through its receiver.
\<close>

section \<open>Data\<close>

text \<open>
  A receiver is nil or a pointer to an element of the array the caller fills; commands take
  \<open>uint32\<close> and \<open>int64\<close> arguments.
\<close>

datatype arg = ArgU32 u32 | ArgInt int

record FlatCmd =
  rcv :: "nat option"
  cmd :: string
  cmd_key :: string
  args :: "arg list"

type_synonym Pipeline = "FlatCmd list"

datatype DialOpt = DialUseTLS | DialAuthUser string string | DialAuthPass string

datatype PoolOpt = PoolConnFunc "DialOpt list" | PoolWithTrace | PoolPipelineWindow int int

record 'r radix =
  rx_Do :: "FlatCmd \<Rightarrow> 'r \<Rightarrow> (string + u32) \<times> 'r"
  rx_Pipeline :: "FlatCmd list \<Rightarrow> 'r \<Rightarrow> (string + u32 list) \<times> 'r"
  rx_NewPool :: "string \<Rightarrow> string \<Rightarrow> int \<Rightarrow> PoolOpt list \<Rightarrow> string + 'r"
  rx_NewCluster ::
    "string list \<Rightarrow> (string \<Rightarrow> string \<Rightarrow> string + 'r) \<Rightarrow> string + 'r"
  rx_NewSentinel ::
    "string \<Rightarrow> string list \<Rightarrow> (string \<Rightarrow> string \<Rightarrow> string + 'r) \<Rightarrow> string + 'r"
  rx_Ping :: "'r \<Rightarrow> (string + string) \<times> 'r"

record clientImpl =
  implicitPipelining :: bool

section \<open>Operations\<close>

definition checkError :: "string option \<Rightarrow> ('s, unit) M" where
  "checkError err = (case err of None \<Rightarrow> ret () | Some e \<Rightarrow> raise (RedisError e))"

text \<open>The function \<open>df\<close> of \<open>NewClientImpl\<close>: the options a connection is dialled with.\<close>

definition dialOpts :: "bool \<Rightarrow> string \<Rightarrow> DialOpt list" where
  "dialOpts useTls auth =
     (if useTls then [DialUseTLS] else []) @
     (if auth \<noteq> ''''
      then case Cut auth '':'' of
             Some (user, pass) \<Rightarrow> [DialAuthUser user pass]
           | None \<Rightarrow> [DialAuthPass auth]
      else [])"

definition pipelining_enabled :: "int \<Rightarrow> int \<Rightarrow> bool" where
  "pipelining_enabled pipelineWindow pipelineLimit = (\<not> (pipelineWindow = 0 \<and> pipelineLimit = 0))"

definition checkErr :: "string + 'a \<Rightarrow> 'a res" where
  "checkErr r = (case r of Inl e \<Rightarrow> Inl (RedisError e) | Inr x \<Rightarrow> Inr x)"

definition connect ::
  "'r radix \<Rightarrow> bool \<Rightarrow> string \<Rightarrow> string \<Rightarrow> string \<Rightarrow> (string \<Rightarrow> string \<Rightarrow> string + 'r) \<Rightarrow> 'r res" where
  "connect rx implicit redisSocketType redisType url poolFunc =
     (let kind = ToLower redisType in
      if kind = ''single'' then checkErr (poolFunc redisSocketType url)
      else if kind = ''cluster'' then
        (let urls = Split url '','' in
         if \<not> implicit
         then Inl (RedisError (''Implicit Pipelining must be enabled to work with Redis Cluster Mode. ''
           @ ''Set values for REDIS_PIPELINE_WINDOW or REDIS_PIPELINE_LIMIT to enable implicit pipelining''))
         else checkErr (rx_NewCluster rx urls poolFunc))
      else if kind = ''sentinel'' then
        (let urls = Split url '','' in
         if length urls < 2
         then Inl (RedisError (''Expected master name and a list of urls for the sentinels, ''
           @ ''in the format: <redis master name>,<sentinel1>,...,<sentineln>''))
         else checkErr (rx_NewSentinel rx (urls ! 0) (drop 1 urls) poolFunc))
      else Inl (RedisError (''Unrecognized redis type '' @ redisType)))"

definition NewClientImpl ::
  "'r radix \<Rightarrow> bool \<Rightarrow> string \<Rightarrow> string \<Rightarrow> string \<Rightarrow> string \<Rightarrow> int \<Rightarrow> int \<Rightarrow> int
    \<Rightarrow> (clientImpl \<times> 'r) res" where
  "NewClientImpl rx useTls auth redisSocketType redisType url poolSize pipelineWindow pipelineLimit =
     (let implicit = pipelining_enabled pipelineWindow pipelineLimit;
          opts = [PoolConnFunc (dialOpts useTls auth), PoolWithTrace] @
            (if implicit then [PoolPipelineWindow pipelineWindow pipelineLimit] else []);
          poolFunc = (\<lambda>network addr. rx_NewPool rx network addr poolSize opts)
      in case connect rx implicit redisSocketType redisType url poolFunc of
           Inl p \<Rightarrow> Inl p
         | Inr client \<Rightarrow>
             (case rx_Ping rx client of
                (Inl e, _) \<Rightarrow> Inl (RedisError e)
              | (Inr pingResponse, client') \<Rightarrow>
                  if pingResponse \<noteq> ''PONG''
                  then Inl (RedisError (''connecting redis error: '' @ pingResponse))
                  else Inr (\<lparr>implicitPipelining = implicit\<rparr>, client')))"

definition PipeAppend :: "Pipeline \<Rightarrow> nat option \<Rightarrow> string \<Rightarrow> string \<Rightarrow> arg list \<Rightarrow> Pipeline" where
  "PipeAppend pipeline r c key as = pipeline @ [\<lparr>rcv = r, cmd = c, cmd_key = key, args = as\<rparr>]"

text \<open>Storing a reply through the receiver of its command.\<close>

definition receive :: "FlatCmd \<Rightarrow> u32 \<Rightarrow> u32 list \<Rightarrow> u32 list" where
  "receive action v arr = (case rcv action of None \<Rightarrow> arr | Some i \<Rightarrow> arr[i := v])"

fun PipeDo_each :: "'r radix \<Rightarrow> Pipeline \<Rightarrow> u32 list \<Rightarrow> 'r \<Rightarrow> (string option \<times> u32 list) \<times> 'r" where
  "PipeDo_each rx [] arr r = ((None, arr), r)"
| "PipeDo_each rx (action # pipeline) arr r =
     (case rx_Do rx action r of
        (Inl err, r') \<Rightarrow> ((Some err, arr), r')
      | (Inr v, r') \<Rightarrow> PipeDo_each rx pipeline (receive action v arr) r')"

definition PipeDo ::
  "'r radix \<Rightarrow> clientImpl \<Rightarrow> Pipeline \<Rightarrow> u32 list \<Rightarrow> 'r \<Rightarrow> (string option \<times> u32 list) \<times> 'r" where
  "PipeDo rx c pipeline arr r =
     (if implicitPipelining c then PipeDo_each rx pipeline arr r
      else case rx_Pipeline rx pipeline r of
             (Inl err, r') \<Rightarrow> ((Some err, arr), r')
           | (Inr vs, r') \<Rightarrow>
               ((None, fold (\<lambda>(action, v). receive action v) (zip pipeline vs) arr), r'))"

definition DoCmd :: "'r radix \<Rightarrow> FlatCmd \<Rightarrow> 'r \<Rightarrow> (string + u32) \<times> 'r" where
  "DoCmd rx action r = rx_Do rx action r"

definition ImplicitPipeliningEnabled :: "clientImpl \<Rightarrow> bool" where
  "ImplicitPipeliningEnabled c = implicitPipelining c"

section \<open>What the client relies on\<close>

text \<open>
  Documented behaviour of redis and radix, for a server whose counters are \<open>cnt r\<close>: \<open>INCRBY\<close>
  adds to a counter, creating it at zero, and returns the sum; \<open>EXPIRE\<close> with a positive time and
  \<open>GET\<close> leave the counters as they are; commands of a pipeline are executed in order. (Redis refuses an
  expiry so large that the time it ends at does not fit its 64-bit milliseconds; such expiries, of
  hundreds of millions of years, are left out of account.)
\<close>

definition incrby_law :: "'r radix \<Rightarrow> ('r \<Rightarrow> string \<Rightarrow> nat) \<Rightarrow> bool" where
  "incrby_law rx cnt = (\<forall>i k n r. cnt r k + unat n < 2 ^ 32 \<longrightarrow>
     (\<exists>r'. rx_Do rx \<lparr>rcv = i, cmd = ''INCRBY'', cmd_key = k, args = [ArgU32 n]\<rparr> r =
         (Inr (of_nat (cnt r k) + n), r') \<and>
       cnt r' = (cnt r)(k := cnt r k + unat n)))"

definition expire_law :: "'r radix \<Rightarrow> ('r \<Rightarrow> string \<Rightarrow> nat) \<Rightarrow> bool" where
  "expire_law rx cnt = (\<forall>i k e r. 0 < e \<longrightarrow>
     (\<exists>v r'. rx_Do rx \<lparr>rcv = i, cmd = ''EXPIRE'', cmd_key = k, args = [ArgInt e]\<rparr> r = (Inr v, r') \<and>
       cnt r' = cnt r))"

definition get_law :: "'r radix \<Rightarrow> ('r \<Rightarrow> string \<Rightarrow> nat) \<Rightarrow> bool" where
  "get_law rx cnt = (\<forall>i k r. cnt r k < 2 ^ 32 \<longrightarrow>
     (\<exists>r'. rx_Do rx \<lparr>rcv = i, cmd = ''GET'', cmd_key = k, args = []\<rparr> r = (Inr (of_nat (cnt r k)), r') \<and>
       cnt r' = cnt r))"

fun do_all :: "'r radix \<Rightarrow> Pipeline \<Rightarrow> 'r \<Rightarrow> (string + u32 list) \<times> 'r" where
  "do_all rx [] r = (Inr [], r)"
| "do_all rx (c # cs) r =
     (case rx_Do rx c r of
        (Inl e, r') \<Rightarrow> (Inl e, r')
      | (Inr v, r') \<Rightarrow>
          (case do_all rx cs r' of
             (Inl e, r'') \<Rightarrow> (Inl e, r'')
           | (Inr vs, r'') \<Rightarrow> (Inr (v # vs), r'')))"

definition pipeline_law :: "'r radix \<Rightarrow> bool" where
  "pipeline_law rx = (\<forall>cs r. case do_all rx cs r of
     (Inr vs, r') \<Rightarrow> rx_Pipeline rx cs r = (Inr vs, r')
   | (Inl _, _) \<Rightarrow> (\<exists>e r'. rx_Pipeline rx cs r = (Inl e, r')))"

definition redis_laws :: "'r radix \<Rightarrow> ('r \<Rightarrow> string \<Rightarrow> nat) \<Rightarrow> bool" where
  "redis_laws rx cnt = (incrby_law rx cnt \<and> expire_law rx cnt \<and> get_law rx cnt \<and> pipeline_law rx)"

text \<open>A server that is a table of counters satisfies them.\<close>

definition run_cmd :: "FlatCmd \<Rightarrow> (string \<Rightarrow> nat) \<Rightarrow> (string + u32) \<times> (string \<Rightarrow> nat)" where
  "run_cmd c r =
     (case args c of
        [ArgU32 n] \<Rightarrow> (let v = r (cmd_key c) + unat n in
          if v < 2 ^ 32 then (Inr (of_nat v), r(cmd_key c := v)) else (Inl ''value out of range'', r))
      | [] \<Rightarrow> (Inr (of_nat (r (cmd_key c))), r)
      | _ \<Rightarrow> (Inr 1, r))"

definition counter_server :: "(string \<Rightarrow> nat) radix" where
  "counter_server = \<lparr>rx_Do = run_cmd,
     rx_Pipeline = do_all \<lparr>rx_Do = run_cmd, rx_Pipeline = (\<lambda>_ r. (Inr [], r)),
       rx_NewPool = (\<lambda>_ _ _ _. Inr (\<lambda>_. 0)), rx_NewCluster = (\<lambda>_ _. Inr (\<lambda>_. 0)),
       rx_NewSentinel = (\<lambda>_ _ _. Inr (\<lambda>_. 0)), rx_Ping = (\<lambda>r. (Inr ''PONG'', r))\<rparr>,
     rx_NewPool = (\<lambda>_ _ _ _. Inr (\<lambda>_. 0)), rx_NewCluster = (\<lambda>_ _. Inr (\<lambda>_. 0)),
     rx_NewSentinel = (\<lambda>_ _ _. Inr (\<lambda>_. 0)), rx_Ping = (\<lambda>r. (Inr ''PONG'', r))\<rparr>"

section \<open>Lemmas\<close>

lemma checkError_apply [monad_simps]:
  "checkError err s = (case err of None \<Rightarrow> (Inr (), s) | Some e \<Rightarrow> (Inl (RedisError e), s))"
  by (simp add: checkError_def prim_simps split: option.split)

lemma do_all_cong: "rx_Do rx = rx_Do ry \<Longrightarrow> do_all rx cs r = do_all ry cs r"
  by (induction cs arbitrary: r) (auto split: prod.splits sum.splits)

lemma counter_server_laws: "redis_laws counter_server id"
proof -
  have "incrby_law counter_server id"
    by (auto simp: incrby_law_def counter_server_def run_cmd_def Let_def)
  moreover have "expire_law counter_server id"
    by (auto simp: expire_law_def counter_server_def run_cmd_def)
  moreover have "get_law counter_server id"
    by (auto simp: get_law_def counter_server_def run_cmd_def)
  moreover have "rx_Pipeline counter_server = do_all counter_server"
    by (intro ext) (simp add: counter_server_def do_all_cong [of counter_server] do_all_cong)
  then have "pipeline_law counter_server"
    by (auto simp: pipeline_law_def split: prod.splits sum.splits)
  ultimately show ?thesis by (simp add: redis_laws_def)
qed

text \<open>Executing one by one is executing in order and storing the replies.\<close>

lemma PipeDo_each_ok:
  "do_all rx cs r = (Inr vs, r') \<Longrightarrow>
   PipeDo_each rx cs arr r = ((None, fold (\<lambda>(c, v). receive c v) (zip cs vs) arr), r')"
  by (induction cs arbitrary: arr r vs) (auto split: prod.splits sum.splits)

lemma PipeDo_each_error:
  "do_all rx cs r = (Inl e, r') \<Longrightarrow> \<exists>arr'. PipeDo_each rx cs arr r = ((Some e, arr'), r')"
  by (induction cs arbitrary: arr r) (auto split: prod.splits sum.splits)

text \<open>Both ways of executing a pipeline, by what executing it in order gives.\<close>

lemma PipeDo_ok:
  assumes "pipeline_law rx" and "do_all rx cs r = (Inr vs, r')"
  shows "PipeDo rx c cs arr r = ((None, fold (\<lambda>(c, v). receive c v) (zip cs vs) arr), r')"
  using assms(1)[unfolded pipeline_law_def, rule_format, of cs r] assms(2)
  by (simp add: PipeDo_def PipeDo_each_ok)

lemma PipeDo_error:
  assumes "pipeline_law rx" and "do_all rx cs r = (Inl e, r')"
  shows "\<exists>e' arr' r''. PipeDo rx c cs arr r = ((Some e', arr'), r'')"
  using assms(1)[unfolded pipeline_law_def, rule_format, of cs r] assms(2)
    PipeDo_each_error [OF assms(2), of arr]
  by (auto simp: PipeDo_def)

lemma PipeDo_pipelined:
  assumes "pipeline_law rx" and each: "PipeDo_each rx cs arr r = ((None, arr'), r')"
  shows "PipeDo rx c cs arr r = ((None, arr'), r')"
proof (cases "do_all rx cs r")
  case (Pair v r1)
  show ?thesis
  proof (cases v)
    case (Inl e)
    with Pair obtain a where "PipeDo_each rx cs arr r = ((Some e, a), r1)"
      using PipeDo_each_error [of rx cs r e r1 arr] by blast
    with each show ?thesis by simp
  next
    case (Inr vs)
    with Pair have d: "do_all rx cs r = (Inr vs, r1)" by simp
    from PipeDo_ok [OF assms(1) d] PipeDo_each_ok [OF d] each show ?thesis by simp
  qed
qed

text \<open>The two commands that count hits, and what a pipeline of them does.\<close>

definition inc_cmds :: "nat \<Rightarrow> string \<Rightarrow> u32 \<Rightarrow> int \<Rightarrow> Pipeline" where
  "inc_cmds i k n e =
     [\<lparr>rcv = Some i, cmd = ''INCRBY'', cmd_key = k, args = [ArgU32 n]\<rparr>,
      \<lparr>rcv = None, cmd = ''EXPIRE'', cmd_key = k, args = [ArgInt e]\<rparr>]"

definition inc_pipe :: "(nat \<times> string \<times> u32 \<times> int) list \<Rightarrow> Pipeline" where
  "inc_pipe ops = concat (map (\<lambda>(i, k, n, e). inc_cmds i k n e) ops)"

text \<open>The counters of the operations have grown, and the elements at their indices hold the sums.\<close>

definition incs_done ::
  "('r \<Rightarrow> string \<Rightarrow> nat) \<Rightarrow> (nat \<times> string \<times> u32 \<times> int) list \<Rightarrow> u32 list \<Rightarrow> 'r \<Rightarrow> u32 list \<Rightarrow> 'r
    \<Rightarrow> bool" where
  "incs_done cnt ops arr r arr' r' \<longleftrightarrow>
     length arr' = length arr \<and>
     (\<forall>(i, k, n, e) \<in> set ops. arr' ! i = of_nat (cnt r k) + n \<and> cnt r' k = cnt r k + unat n) \<and>
     (\<forall>j. j \<notin> fst ` set ops \<longrightarrow> arr' ! j = arr ! j) \<and>
     (\<forall>k. k \<notin> (fst \<circ> snd) ` set ops \<longrightarrow> cnt r' k = cnt r k)"

lemma PipeDo_each_inc:
  assumes "redis_laws rx cnt" and "cnt r k + unat n < 2 ^ 32" and "0 < e"
  shows "\<exists>r'. PipeDo_each rx (inc_cmds i k n e @ cs) arr r =
      PipeDo_each rx cs (arr[i := of_nat (cnt r k) + n]) r' \<and>
    cnt r' = (cnt r)(k := cnt r k + unat n)"
proof -
  have "incrby_law rx cnt" "expire_law rx cnt" using assms(1) by (simp_all add: redis_laws_def)
  then obtain r1 v r2 where
    "rx_Do rx \<lparr>rcv = Some i, cmd = ''INCRBY'', cmd_key = k, args = [ArgU32 n]\<rparr> r =
      (Inr (of_nat (cnt r k) + n), r1)" and c1: "cnt r1 = (cnt r)(k := cnt r k + unat n)"
    and "rx_Do rx \<lparr>rcv = None, cmd = ''EXPIRE'', cmd_key = k, args = [ArgInt e]\<rparr> r1 = (Inr v, r2)"
    and "cnt r2 = cnt r1"
    using assms(2,3) unfolding incrby_law_def expire_law_def by metis
  then show ?thesis by (intro exI [of _ r2]) (simp add: inc_cmds_def receive_def)
qed

lemma PipeDo_each_incs:
  assumes "redis_laws rx cnt" and "distinct (map (fst \<circ> snd) ops)" and "distinct (map fst ops)"
    and "\<forall>(i, k, n, e) \<in> set ops. i < length arr \<and> cnt r k + unat n < 2 ^ 32 \<and> 0 < e"
  shows "\<exists>arr' r'. PipeDo_each rx (inc_pipe ops) arr r = ((None, arr'), r') \<and>
    incs_done cnt ops arr r arr' r'"
  using assms
proof (induction ops arbitrary: arr r)
  case Nil
  then show ?case by (simp add: inc_pipe_def incs_done_def)
next
  case (Cons op ops)
  obtain i k n e where op: "op = (i, k, n, e)" by (cases op)
  let ?arr = "arr[i := of_nat (cnt r k) + n]"
  have "cnt r k + unat n < 2 ^ 32" "0 < e" "i < length arr" using Cons.prems(4) op by auto
  then obtain r1 where one: "PipeDo_each rx (inc_pipe (op # ops)) arr r =
      PipeDo_each rx (inc_pipe ops) ?arr r1" and c1: "cnt r1 = (cnt r)(k := cnt r k + unat n)"
    using PipeDo_each_inc [OF Cons.prems(1), of r k n e i "inc_pipe ops" arr]
    by (auto simp: inc_pipe_def op)
  have fresh: "k \<notin> (fst \<circ> snd) ` set ops" "i \<notin> fst ` set ops"
    using Cons.prems(2,3) op by auto
  have other: "cnt r1 k' = cnt r k'" if "(j, k', m, e') \<in> set ops" for j k' m e'
    using fresh(1) that c1 by (force simp: image_iff)
  have "\<exists>arr' r'. PipeDo_each rx (inc_pipe ops) ?arr r1 = ((None, arr'), r') \<and>
    incs_done cnt ops ?arr r1 arr' r'"
  proof (rule Cons.IH [OF Cons.prems(1)])
    show "\<forall>(i, k, n, e) \<in> set ops. i < length ?arr \<and> cnt r1 k + unat n < 2 ^ 32 \<and> 0 < e"
      using Cons.prems(4) other by fastforce
  qed (use Cons.prems(2,3) in auto)
  then obtain arr' r' where *: "PipeDo_each rx (inc_pipe ops) ?arr r1 = ((None, arr'), r')"
    "length arr' = length ?arr"
    "\<forall>(i, k, n, e) \<in> set ops. arr' ! i = of_nat (cnt r1 k) + n \<and> cnt r' k = cnt r1 k + unat n"
    "\<forall>j. j \<notin> fst ` set ops \<longrightarrow> arr' ! j = ?arr ! j"
    "\<forall>k. k \<notin> (fst \<circ> snd) ` set ops \<longrightarrow> cnt r' k = cnt r1 k"
    unfolding incs_done_def by blast
  have head: "arr' ! i = of_nat (cnt r k) + n \<and> cnt r' k = cnt r k + unat n"
    using *(4,5) fresh \<open>i < length arr\<close> c1 by auto
  have tail: "\<forall>(j, k', m, e) \<in> set ops. arr' ! j = of_nat (cnt r k') + m \<and> cnt r' k' = cnt r k' + unat m"
    using *(3) other by fastforce
  have "\<forall>j. j \<notin> fst ` set (op # ops) \<longrightarrow> arr' ! j = arr ! j"
    using *(4) by (simp add: op)
  moreover have "\<forall>k'. k' \<notin> (fst \<circ> snd) ` set (op # ops) \<longrightarrow> cnt r' k' = cnt r k'"
    using *(5) c1 by (simp add: op)
  moreover have "PipeDo_each rx (inc_pipe (op # ops)) arr r = ((None, arr'), r')"
    "length arr' = length arr" using one * by simp_all
  moreover have "\<forall>(j, k', m, e) \<in> set (op # ops).
      arr' ! j = of_nat (cnt r k') + m \<and> cnt r' k' = cnt r k' + unat m"
  proof
    fix x assume "x \<in> set (op # ops)"
    then consider "x = (i, k, n, e)" | "x \<in> set ops" by (auto simp: op)
    then show "case x of (j, k', m, e) \<Rightarrow>
        arr' ! j = of_nat (cnt r k') + m \<and> cnt r' k' = cnt r k' + unat m"
      by cases (use head tail in auto)
  qed
  ultimately show ?case unfolding incs_done_def by (intro exI [of _ arr'] exI [of _ r'] conjI)
qed

lemma PipeDo_incs:
  assumes "redis_laws rx cnt" and "distinct (map (fst \<circ> snd) ops)" and "distinct (map fst ops)"
    and "\<forall>(i, k, n, e) \<in> set ops. i < length arr \<and> cnt r k + unat n < 2 ^ 32 \<and> 0 < e"
  shows "\<exists>arr' r'. PipeDo rx c (inc_pipe ops) arr r = ((None, arr'), r') \<and>
    incs_done cnt ops arr r arr' r'"
proof -
  have "pipeline_law rx" using assms(1) by (simp add: redis_laws_def)
  moreover obtain arr' r' where "PipeDo_each rx (inc_pipe ops) arr r = ((None, arr'), r')"
    and "incs_done cnt ops arr r arr' r'" using PipeDo_each_incs [OF assms] by blast
  ultimately show ?thesis by (intro exI conjI PipeDo_pipelined)
qed

lemma connect_result:
  "case connect rx implicit socketType redisType url poolFunc of
     Inr r \<Rightarrow> ToLower redisType \<in> {''single'', ''cluster'', ''sentinel''} \<and>
       (ToLower redisType = ''cluster'' \<longrightarrow> implicit)
   | Inl p \<Rightarrow> (\<exists>e. p = RedisError e)"
  by (simp add: connect_def checkErr_def Let_def split: sum.split)

section \<open>Properties\<close>

text \<open>
  Pipelining does not change results. For a library that executes the commands of a pipeline in
  order, executing a pipeline command by command (implicit pipelining) and as one batch report an
  error in the same cases, and without an error store the same replies and leave the same server.
\<close>

lemma PipeDo_implicit_explicit:
  assumes "pipeline_law rx"
  shows "(fst (fst (PipeDo rx \<lparr>implicitPipelining = True\<rparr> cs arr r)) = None \<longleftrightarrow>
      fst (fst (PipeDo rx \<lparr>implicitPipelining = False\<rparr> cs arr r)) = None) \<and>
    (fst (fst (PipeDo rx \<lparr>implicitPipelining = True\<rparr> cs arr r)) = None \<longrightarrow>
      PipeDo rx \<lparr>implicitPipelining = True\<rparr> cs arr r = PipeDo rx \<lparr>implicitPipelining = False\<rparr> cs arr r)"
proof (cases "do_all rx cs r")
  case (Pair v r')
  show ?thesis
  proof (cases v)
    case (Inl e)
    with Pair have "do_all rx cs r = (Inl e, r')" by simp
    from PipeDo_error [OF assms this] show ?thesis by (metis fst_conv option.distinct(1))
  next
    case (Inr vs)
    with Pair have "do_all rx cs r = (Inr vs, r')" by simp
    from PipeDo_ok [OF assms this] show ?thesis by simp
  qed
qed

lemma PipeDo_implicit_explicit_witness:
  "PipeDo counter_server \<lparr>implicitPipelining = True\<rparr> (inc_cmds 0 ''k'' 2 60) [0] (\<lambda>_. 1) =
   PipeDo counter_server \<lparr>implicitPipelining = False\<rparr> (inc_cmds 0 ''k'' 2 60) [0] (\<lambda>_. 1)"
proof -
  have "pipeline_law counter_server" using counter_server_laws by (simp add: redis_laws_def)
  from PipeDo_implicit_explicit [OF this, of "inc_cmds 0 ''k'' 2 60" "[0]" "\<lambda>_. 1"] show ?thesis
    by (simp add: PipeDo_def inc_cmds_def counter_server_def run_cmd_def)
qed

text \<open>
  Connecting. A client is returned only for one of the three known types of deployment, after
  the server answered \<open>PING\<close> with \<open>PONG\<close>; it pipelines implicitly exactly when a window or a limit
  is set, and always when the deployment is a cluster. Every failure is a \<open>RedisError\<close>.
\<close>

lemma NewClientImpl_result:
  "case NewClientImpl rx useTls auth socketType redisType url poolSize window pipeLimit of
     Inr (c, r) \<Rightarrow>
       ToLower redisType \<in> {''single'', ''cluster'', ''sentinel''} \<and>
       (implicitPipelining c \<longleftrightarrow> window \<noteq> 0 \<or> pipeLimit \<noteq> 0) \<and>
       (ToLower redisType = ''cluster'' \<longrightarrow> implicitPipelining c) \<and>
       (\<exists>r0. rx_Ping rx r0 = (Inr ''PONG'', r))
   | Inl p \<Rightarrow> (\<exists>e. p = RedisError e)"
proof -
  let ?i = "pipelining_enabled window pipeLimit"
  let ?pf = "\<lambda>network addr. rx_NewPool rx network addr poolSize
    ([PoolConnFunc (dialOpts useTls auth), PoolWithTrace] @
     (if ?i then [PoolPipelineWindow window pipeLimit] else []))"
  have i: "?i \<longleftrightarrow> window \<noteq> 0 \<or> pipeLimit \<noteq> 0" by (auto simp: pipelining_enabled_def)
  have c: "case connect rx ?i socketType redisType url ?pf of
     Inr r \<Rightarrow> ToLower redisType \<in> {''single'', ''cluster'', ''sentinel''} \<and>
       (ToLower redisType = ''cluster'' \<longrightarrow> ?i)
   | Inl p \<Rightarrow> (\<exists>e. p = RedisError e)"
    by (rule connect_result)
  show ?thesis
  proof (cases "connect rx ?i socketType redisType url ?pf")
    case (Inl p)
    with c show ?thesis by (simp add: NewClientImpl_def Let_def)
  next
    case (Inr r)
    with c i show ?thesis
      by (cases "rx_Ping rx r") (auto simp: NewClientImpl_def Let_def split: sum.split)
  qed
qed

lemma NewClientImpl_result_witness:
  "\<exists>c r. NewClientImpl counter_server False '''' ''tcp'' ''CLUSTER'' ''a,b'' 10 0 8 = Inr (c, r) \<and>
    implicitPipelining c"
proof -
  have "ToLower ''CLUSTER'' = ''cluster''" by code_simp
  then have "\<exists>x. NewClientImpl counter_server False '''' ''tcp'' ''CLUSTER'' ''a,b'' 10 0 8 = Inr x"
    by (simp add: NewClientImpl_def connect_def counter_server_def pipelining_enabled_def checkErr_def
        Let_def)
  then show ?thesis
    using NewClientImpl_result [where rx = counter_server and useTls = False and auth = "''''"
      and socketType = "''tcp''" and redisType = "''CLUSTER''" and url = "''a,b''" and poolSize = 10
      and window = 0 and pipeLimit = 8]
    by auto
qed

end
