(* ===== verification/Redis_Cache.thy ===== *)
theory Redis_Cache
  imports Limiter Redis_Driver
begin

text \<open>
  The redis back end (\<open>src/redis/fixed_cache_impl.go\<close>, \<open>src/redis/cache_impl.go\<close>): \<open>DoLimit\<close>
  counts the hits of a request in fixed windows, with one pipeline per redis, an optional second
  redis for limits per second, the local cache of exhausted keys, and the mode that stops counting
  once a limit is exceeded.

  The state adds to the limiter's what is behind the two clients. The local variables of
  \<open>DoLimit\<close> are the record \<open>DoLimit_vars\<close>; a nil pipeline is \<open>None\<close>. Its loops run over the
  triples of an index, its cache key and its limit.
\<close>

section \<open>Data\<close>

record ('lc, 'r) redis_state = "'lc lim_state" +
  redis :: 'r
  perSecondRedis :: 'r

record fixedRateLimitCacheImpl =
  client :: clientImpl
  perSecondClient :: "clientImpl option"
  stopCacheKeyIncrementWhenOverlimit :: bool
  baseRateLimiter :: BaseRateLimiter

record DoLimit_vars =
  isOverLimitWithLocalCache :: "bool list"
  results :: "u32 list"
  currentCount :: "u32 list"
  pipeline :: "Pipeline option"
  perSecondPipeline :: "Pipeline option"
  pipelineToGet :: "Pipeline option"
  perSecondPipelineToGet :: "Pipeline option"
  hitsAddendForRedis :: u32
  overlimitIndexes :: "bool list"
  nearlimitIndexes :: "bool list"
  isCacheKeyOverlimit :: bool

type_synonym item = "nat \<times> CacheKey \<times> RateLimit option"

section \<open>Pipelines\<close>

definition pipelineAppend :: "Pipeline \<Rightarrow> string \<Rightarrow> u32 \<Rightarrow> nat \<Rightarrow> int \<Rightarrow> Pipeline" where
  "pipelineAppend p key hitsAddend result expirationSeconds =
     (let p = PipeAppend p (Some result) ''INCRBY'' key [ArgU32 hitsAddend]
      in PipeAppend p None ''EXPIRE'' key [ArgInt expirationSeconds])"

definition pipelineAppendtoGet :: "Pipeline \<Rightarrow> string \<Rightarrow> nat \<Rightarrow> Pipeline" where
  "pipelineAppendtoGet p key result = PipeAppend p (Some result) ''GET'' key []"

text \<open>\<open>if p == nil { p = Pipeline{} }\<close>\<close>

definition started :: "Pipeline option \<Rightarrow> Pipeline" where
  "started p = (case p of None \<Rightarrow> [] | Some cs \<Rightarrow> cs)"

text \<open>Executing a pipeline, if there is one, on one of the two clients; an error panics.\<close>

definition run_pipeline ::
  "'r radix \<Rightarrow> clientImpl \<Rightarrow> Pipeline option \<Rightarrow> u32 list
    \<Rightarrow> (('lc, 'r, 'x) redis_state_scheme, u32 list) M" where
  "run_pipeline rx c p arr =
     (case p of
        None \<Rightarrow> ret arr
      | Some cs \<Rightarrow> (\<lambda>s. case PipeDo rx c cs arr (redis s) of
          ((err, arr'), r) \<Rightarrow> bind (checkError err) (\<lambda>_. ret arr') (s\<lparr>redis := r\<rparr>)))"

definition run_perSecondPipeline ::
  "'r radix \<Rightarrow> clientImpl option \<Rightarrow> Pipeline option \<Rightarrow> u32 list
    \<Rightarrow> (('lc, 'r, 'x) redis_state_scheme, u32 list) M" where
  "run_perSecondPipeline rx perSecond p arr =
     (case p of
        None \<Rightarrow> ret arr
      | Some cs \<Rightarrow>
          bind (nonnil perSecond) (\<lambda>c s. case PipeDo rx c cs arr (perSecondRedis s) of
            ((err, arr'), r) \<Rightarrow> bind (checkError err) (\<lambda>_. ret arr') (s\<lparr>perSecondRedis := r\<rparr>)))"

section \<open>The loops of DoLimit\<close>

text \<open>The use of the dedicated client for a key.\<close>

definition usePerSecond :: "fixedRateLimitCacheImpl \<Rightarrow> CacheKey \<Rightarrow> bool" where
  "usePerSecond this key = (perSecondClient this \<noteq> None \<and> PerSecond key)"

text \<open>The first loop when counting stops at the limit: local cache, then a \<open>GET\<close> per key.\<close>

definition check_and_get ::
  "'lc platform \<Rightarrow> fixedRateLimitCacheImpl \<Rightarrow> item \<Rightarrow> DoLimit_vars
    \<Rightarrow> (('lc, 'x) lim_state_scheme, DoLimit_vars) M" where
  "check_and_get pf this = (\<lambda>(i, cacheKey, lim) v.
     if ck_Key cacheKey = '''' then ret v
     else bind (IsOverLimitWithLocalCache pf (ck_Key cacheKey)) (\<lambda>found.
       if found
       then bind (nonnil lim) (\<lambda>_.
            ret (v\<lparr>isOverLimitWithLocalCache := (isOverLimitWithLocalCache v)[i := True],
                   hitsAddendForRedis := 0,
                   overlimitIndexes := (overlimitIndexes v)[i := True],
                   isCacheKeyOverlimit := True\<rparr>))
       else if usePerSecond this cacheKey
       then ret (v\<lparr>perSecondPipelineToGet :=
              Some (pipelineAppendtoGet (started (perSecondPipelineToGet v)) (ck_Key cacheKey) i)\<rparr>)
       else ret (v\<lparr>pipelineToGet :=
              Some (pipelineAppendtoGet (started (pipelineToGet v)) (ck_Key cacheKey) i)\<rparr>)))"

text \<open>The loop over the counts just read.\<close>

definition check_near ::
  "u32 \<Rightarrow> item \<Rightarrow> DoLimit_vars \<Rightarrow> ('s, DoLimit_vars) M" where
  "check_near hitsAddend = (\<lambda>(i, cacheKey, lim) v.
     if ck_Key cacheKey = '''' then ret v
     else let before = currentCount v ! i; after = before + hitsAddend;
              limitInfo = NewRateLimitInfo lim before after 0 0
          in bind (lift_res (IsOverLimitThresholdReached limitInfo)) (\<lambda>reached.
             if reached
             then ret (v\<lparr>hitsAddendForRedis := 0, nearlimitIndexes := (nearlimitIndexes v)[i := True]\<rparr>)
             else ret v))"

text \<open>The first loop otherwise: local cache only.\<close>

definition check_local ::
  "'lc platform \<Rightarrow> item \<Rightarrow> DoLimit_vars \<Rightarrow> (('lc, 'x) lim_state_scheme, DoLimit_vars) M" where
  "check_local pf = (\<lambda>(i, cacheKey, lim) v.
     if ck_Key cacheKey = '''' then ret v
     else bind (IsOverLimitWithLocalCache pf (ck_Key cacheKey)) (\<lambda>found.
       if found
       then bind (nonnil lim) (\<lambda>_.
            ret (v\<lparr>isOverLimitWithLocalCache := (isOverLimitWithLocalCache v)[i := True],
                   overlimitIndexes := (overlimitIndexes v)[i := True]\<rparr>))
       else ret v))"

text \<open>The loop that sets up the pipelines.\<close>

definition setup_pipeline ::
  "fixedRateLimitCacheImpl \<Rightarrow> u32 \<Rightarrow> item \<Rightarrow> DoLimit_vars \<Rightarrow> ('x world_scheme, DoLimit_vars) M" where
  "setup_pipeline this hitsAddend = (\<lambda>(i, cacheKey, lim) v.
     if ck_Key cacheKey = '''' \<or> overlimitIndexes v ! i then ret v
     else bind (nonnil lim) (\<lambda>l.
          bind (lift_res (UnitToDivider (lim_Unit (Limit l)))) (\<lambda>divider.
          bind (if ExpirationJitterMaxSeconds (baseRateLimiter this) > 0
                then bind (Int63n (ExpirationJitterMaxSeconds (baseRateLimiter this)))
                       (\<lambda>jitter. ret (divider + jitter))
                else ret divider) (\<lambda>expirationSeconds.
          let hits = (if nearlimitIndexes v ! i then hitsAddend else hitsAddendForRedis v) in
          if usePerSecond this cacheKey
          then ret (v\<lparr>perSecondPipeline := Some (pipelineAppend (started (perSecondPipeline v))
                 (ck_Key cacheKey) hits i expirationSeconds)\<rparr>)
          else ret (v\<lparr>pipeline := Some (pipelineAppend (started (pipeline v))
                 (ck_Key cacheKey) hits i expirationSeconds)\<rparr>)))))"

text \<open>The loop that turns counts into statuses.\<close>

definition fetch_status ::
  "'lc platform \<Rightarrow> fixedRateLimitCacheImpl \<Rightarrow> u32 \<Rightarrow> DoLimit_vars \<Rightarrow> item
    \<Rightarrow> (('lc, 'x) lim_state_scheme, DescriptorStatus) M" where
  "fetch_status pf this hitsAddend v = (\<lambda>(i, cacheKey, lim).
     let after = results v ! i; before = after - hitsAddend;
         limitInfo = NewRateLimitInfo lim before after 0 0
     in GetResponseDescriptorStatus pf (baseRateLimiter this) (ck_Key cacheKey) limitInfo
          (isOverLimitWithLocalCache v ! i) hitsAddend)"

section \<open>DoLimit\<close>

definition initial_vars :: "nat \<Rightarrow> u32 \<Rightarrow> DoLimit_vars" where
  "initial_vars n hitsAddend =
     \<lparr>isOverLimitWithLocalCache = replicate n False, results = replicate n 0,
      currentCount = replicate n 0, pipeline = None, perSecondPipeline = None,
      pipelineToGet = None, perSecondPipelineToGet = None, hitsAddendForRedis = hitsAddend,
      overlimitIndexes = replicate n False, nearlimitIndexes = replicate n False,
      isCacheKeyOverlimit = False\<rparr>"

text \<open>The branch for \<open>stopCacheKeyIncrementWhenOverlimit\<close>.\<close>

definition stop_check ::
  "'lc platform \<Rightarrow> 'r radix \<Rightarrow> fixedRateLimitCacheImpl \<Rightarrow> u32 \<Rightarrow> item list \<Rightarrow> DoLimit_vars
    \<Rightarrow> (('lc, 'r, 'x) redis_state_scheme, DoLimit_vars) M" where
  "stop_check pf rx this hitsAddend items v =
     bind (foldM (check_and_get pf this) items v) (\<lambda>v.
     if length items > 1 \<and> \<not> isCacheKeyOverlimit v
     then bind (run_pipeline rx (client this) (pipelineToGet v) (currentCount v)) (\<lambda>counts.
          bind (run_perSecondPipeline rx (perSecondClient this) (perSecondPipelineToGet v) counts)
            (\<lambda>counts.
          foldM (check_near hitsAddend) items (v\<lparr>currentCount := counts\<rparr>)))
     else ret v)"

definition DoLimit ::
  "'lc platform \<Rightarrow> 'r radix \<Rightarrow> fixedRateLimitCacheImpl \<Rightarrow> RateLimitRequest \<Rightarrow> RateLimit option list
    \<Rightarrow> (('lc, 'r, 'x) redis_state_scheme, DescriptorStatus list) M" where
  "DoLimit pf rx this request lims =
     (let hitsAddend = Max_u32 1 (HitsAddend request) in
      bind (GenerateCacheKeys (baseRateLimiter this) request lims hitsAddend) (\<lambda>cacheKeys.
      let n = length (Descriptors request); items = zip [0..<n] (zip cacheKeys lims) in
      bind (if stopCacheKeyIncrementWhenOverlimit this
            then stop_check pf rx this hitsAddend items (initial_vars n hitsAddend)
            else foldM (check_local pf) items (initial_vars n hitsAddend)) (\<lambda>v.
      bind (foldM (setup_pipeline this hitsAddend) items v) (\<lambda>v.
      bind (run_pipeline rx (client this) (pipeline v) (results v)) (\<lambda>counts.
      bind (run_perSecondPipeline rx (perSecondClient this) (perSecondPipeline v) counts) (\<lambda>counts.
      mapM (fetch_status pf this hitsAddend (v\<lparr>results := counts\<rparr>)) items))))))"

definition Flush :: "('s, unit) M" where
  "Flush = ret ()"

definition NewFixedRateLimitCacheImpl ::
  "clientImpl \<Rightarrow> clientImpl option \<Rightarrow> int \<Rightarrow> f32 \<Rightarrow> string \<Rightarrow> ManagerImpl \<Rightarrow> bool
    \<Rightarrow> fixedRateLimitCacheImpl" where
  "NewFixedRateLimitCacheImpl c perSecond expirationJitterMaxSeconds ratio keyPrefix sm stop =
     \<lparr>client = c, perSecondClient = perSecond, stopCacheKeyIncrementWhenOverlimit = stop,
      baseRateLimiter = NewBaseRateLimit expirationJitterMaxSeconds ratio keyPrefix sm\<rparr>"

section \<open>Lemmas: the local cache\<close>

text \<open>
  What the loop over the local cache leaves: some keys found, all of them among the contents, and
  nothing else changed.
\<close>

definition item_ok :: "item \<Rightarrow> bool" where
  "item_ok = (\<lambda>(i, key, lim). limit_ok lim \<and> (ck_Key key = '''' \<longleftrightarrow> lim = None))"

definition found_in :: "('lc \<Rightarrow> string set) \<Rightarrow> 'lc option \<Rightarrow> item list \<Rightarrow> bool list \<Rightarrow> bool" where
  "found_in contents lc items fs \<longleftrightarrow>
     (\<forall>(i, key, lim) \<in> set items. fs ! i \<longrightarrow> ck_Key key \<noteq> '''' \<and> ck_Key key \<in> cached contents lc)"

lemma check_local_step:
  assumes "cache_sound pf contents" and "item_ok (i, key, lim)" and "v = v0\<lparr>isOverLimitWithLocalCache := fs, overlimitIndexes := fs\<rparr>"
  shows "\<exists>b lc. check_local pf (i, key, lim) v s =
      (Inr (v0\<lparr>isOverLimitWithLocalCache := fs[i := b \<or> fs ! i], overlimitIndexes := fs[i := b \<or> fs ! i]\<rparr>),
       s\<lparr>localCache := lc\<rparr>) \<and>
    (b \<longrightarrow> ck_Key key \<noteq> '''' \<and> ck_Key key \<in> cached contents (localCache s)) \<and>
    cached contents lc \<subseteq> cached contents (localCache s)"
proof (cases "ck_Key key = ''''")
  case True
  with assms(3) have "check_local pf (i, key, lim) v s =
      (Inr (v0\<lparr>isOverLimitWithLocalCache := fs[i := False \<or> fs ! i], overlimitIndexes := fs[i := False \<or> fs ! i]\<rparr>),
       s\<lparr>localCache := localCache s\<rparr>)"
    by (simp add: check_local_def prim_simps)
  then show ?thesis by (intro exI [of _ False] exI [of _ "localCache s"]) simp
next
  case False
  then obtain l where l: "lim = Some l" using assms(2) by (auto simp: item_ok_def)
  obtain b lc where *: "IsOverLimitWithLocalCache pf (ck_Key key) s = (Inr b, s\<lparr>localCache := lc\<rparr>)"
    "b \<longrightarrow> ck_Key key \<in> cached contents (localCache s)"
    "cached contents lc \<subseteq> cached contents (localCache s)"
    using IsOverLimitWithLocalCache_sound [OF assms(1)] by blast
  have "check_local pf (i, key, lim) v s =
      (Inr (v0\<lparr>isOverLimitWithLocalCache := fs[i := b \<or> fs ! i], overlimitIndexes := fs[i := b \<or> fs ! i]\<rparr>),
       s\<lparr>localCache := lc\<rparr>)"
    using False l * assms(3) by (cases b) (simp_all add: check_local_def monad_simps)
  with False *(2,3) show ?thesis by (intro exI [of _ b] exI [of _ lc]) simp
qed

lemma check_local_loop:
  assumes "cache_sound pf contents" and "list_all item_ok items" and "distinct (map fst items)"
    and "v0\<lparr>isOverLimitWithLocalCache := fs0, overlimitIndexes := fs0\<rparr> = v0"
    and "\<forall>(i, key, lim) \<in> set items. i < length fs0 \<and> \<not> fs0 ! i"
  shows "\<exists>fs lc. foldM (check_local pf) items v0 s =
      (Inr (v0\<lparr>isOverLimitWithLocalCache := fs, overlimitIndexes := fs\<rparr>), s\<lparr>localCache := lc\<rparr>) \<and>
    length fs = length fs0 \<and> found_in contents (localCache s) items fs \<and>
    (\<forall>j. j \<notin> fst ` set items \<longrightarrow> fs ! j = fs0 ! j) \<and>
    cached contents lc \<subseteq> cached contents (localCache s)"
  using assms
proof (induction items arbitrary: v0 fs0 s)
  case Nil
  then have "foldM (check_local pf) [] v0 s =
      (Inr (v0\<lparr>isOverLimitWithLocalCache := fs0, overlimitIndexes := fs0\<rparr>),
       s\<lparr>localCache := localCache s\<rparr>)"
    by (simp add: prim_simps)
  then show ?case by (intro exI [of _ fs0] exI [of _ "localCache s"]) (simp add: found_in_def)
next
  case (Cons item items)
  obtain i key lim where item: "item = (i, key, lim)" by (cases item)
  have i: "i < length fs0" "\<not> fs0 ! i" "i \<notin> fst ` set items" using Cons.prems(3,5) item by auto
  obtain b lc where step: "check_local pf item v0 s =
      (Inr (v0\<lparr>isOverLimitWithLocalCache := fs0[i := b], overlimitIndexes := fs0[i := b]\<rparr>),
       s\<lparr>localCache := lc\<rparr>)"
    "b \<longrightarrow> ck_Key key \<noteq> '''' \<and> ck_Key key \<in> cached contents (localCache s)"
    "cached contents lc \<subseteq> cached contents (localCache s)"
    using check_local_step [OF Cons.prems(1), where i = i and key = key and lim = lim and v = v0
        and ?v0.0 = v0 and fs = fs0 and s = s] Cons.prems(2,4) i item
    by auto
  let ?v = "v0\<lparr>isOverLimitWithLocalCache := fs0[i := b], overlimitIndexes := fs0[i := b]\<rparr>"
  let ?s = "s\<lparr>localCache := lc\<rparr>"
  have "\<exists>fs lc'. foldM (check_local pf) items ?v ?s =
      (Inr (?v\<lparr>isOverLimitWithLocalCache := fs, overlimitIndexes := fs\<rparr>), ?s\<lparr>localCache := lc'\<rparr>) \<and>
    length fs = length (fs0[i := b]) \<and> found_in contents (localCache ?s) items fs \<and>
    (\<forall>j. j \<notin> fst ` set items \<longrightarrow> fs ! j = fs0[i := b] ! j) \<and>
    cached contents lc' \<subseteq> cached contents (localCache ?s)"
  proof (rule Cons.IH [OF Cons.prems(1)])
    show "\<forall>(j, k, l) \<in> set items. j < length (fs0[i := b]) \<and> \<not> fs0[i := b] ! j"
      using Cons.prems(5) i(3) by (fastforce simp: image_iff nth_list_update)
  qed (use Cons.prems in auto)
  then obtain fs lc' where **: "foldM (check_local pf) items ?v ?s =
      (Inr (?v\<lparr>isOverLimitWithLocalCache := fs, overlimitIndexes := fs\<rparr>), ?s\<lparr>localCache := lc'\<rparr>)"
    "length fs = length fs0" "found_in contents lc items fs"
    "\<forall>j. j \<notin> fst ` set items \<longrightarrow> fs ! j = fs0[i := b] ! j" "cached contents lc' \<subseteq> cached contents lc"
    by auto
  have "fs ! i = b" using **(4) i by simp
  then have "found_in contents (localCache s) (item # items) fs"
    using **(3) step(2,3) by (fastforce simp: found_in_def item)
  moreover have "\<forall>j. j \<notin> fst ` set (item # items) \<longrightarrow> fs ! j = fs0 ! j"
    using **(4) by (simp add: item)
  ultimately show ?case
    using ** step by (intro exI [of _ fs] exI [of _ lc']) (auto simp: bind_apply)
qed


section \<open>Lemmas: the pipelines\<close>

text \<open>A pipeline extended by commands: it stays nil if there are none.\<close>

definition extend :: "Pipeline option \<Rightarrow> Pipeline \<Rightarrow> Pipeline option" where
  "extend p cs = (if cs = [] then p else Some (started p @ cs))"

lemma extend_Nil [simp]: "extend p [] = p"
  by (simp add: extend_def)

lemma extend_extend: "extend (Some (started p @ c # cs)) ds = extend p (c # cs @ ds)"
  by (simp add: extend_def started_def)

lemma pipelineAppend_inc: "pipelineAppend p key n i e = p @ inc_cmds i key n e"
  by (simp add: pipelineAppend_def PipeAppend_def inc_cmds_def)

text \<open>
  The operations of a list of items: those with a key that was not found in the local cache, sent
  with the amounts \<open>amount\<close> and the expirations \<open>e\<close>, on one of the two clients.
\<close>

definition ops_of ::
  "fixedRateLimitCacheImpl \<Rightarrow> bool \<Rightarrow> bool list \<Rightarrow> (nat \<Rightarrow> u32) \<Rightarrow> (nat \<Rightarrow> int) \<Rightarrow> item list
    \<Rightarrow> (nat \<times> string \<times> u32 \<times> int) list" where
  "ops_of this perSecond skip amount e items =
     map (\<lambda>(i, key, lim). (i, ck_Key key, amount i, e i))
       (filter (\<lambda>(i, key, lim). ck_Key key \<noteq> '''' \<and> \<not> skip ! i \<and> usePerSecond this key = perSecond)
          items)"

lemma ops_of_Cons:
  "ops_of this ps skip amount e ((i, key, lim) # items) =
     (if ck_Key key \<noteq> '''' \<and> \<not> skip ! i \<and> usePerSecond this key = ps
      then (i, ck_Key key, amount i, e i) # ops_of this ps skip amount e items
      else ops_of this ps skip amount e items)"
  by (simp add: ops_of_def)

lemma ops_of_expirations:
  assumes "\<forall>(i, key, lim) \<in> set items. e i = e' i"
  shows "ops_of this ps skip amount e items = ops_of this ps skip amount e' items"
  using assms by (auto simp: ops_of_def)

lemma inc_pipe_Cons: "inc_pipe ((i, k, n, e) # ops) = inc_cmds i k n e @ inc_pipe ops"
  by (simp add: inc_pipe_def)

lemma setup_step:
  assumes "item_ok (i, key, lim)" and "ck_Key key \<noteq> ''''" and "\<not> overlimitIndexes v ! i"
  shows "\<exists>e m. 0 < e \<and> setup_pipeline this hits (i, key, lim) v s =
    (Inr (if usePerSecond this key
      then v\<lparr>perSecondPipeline := Some (started (perSecondPipeline v) @ inc_cmds i (ck_Key key)
        (if nearlimitIndexes v ! i then hits else hitsAddendForRedis v) e)\<rparr>
      else v\<lparr>pipeline := Some (started (pipeline v) @ inc_cmds i (ck_Key key)
        (if nearlimitIndexes v ! i then hits else hitsAddendForRedis v) e)\<rparr>),
     s\<lparr>draws := m\<rparr>)"
proof -
  obtain l where l: "lim = Some l" using assms(1,2) by (auto simp: item_ok_def)
  then obtain d where d: "UnitToDivider (lim_Unit (Limit l)) = Inr d" "0 < d"
    using assms(1) by (auto simp: item_ok_def elim: limit_ok_Some)
  let ?J = "ExpirationJitterMaxSeconds (baseRateLimiter this)"
  show ?thesis
  proof (cases "?J > 0")
    case True
    let ?e = "d + rand_at s (draws s) mod ?J"
    have "0 < ?e" using d(2) True by (simp add: add_pos_nonneg)
    then show ?thesis
      using True l d assms(2,3)
      by (intro exI [of _ ?e] exI [of _ "Suc (draws s)"])
        (simp add: setup_pipeline_def monad_simps Int63n_def Let_def pipelineAppend_inc)
  next
    case False
    then show ?thesis
      using l d assms(2,3)
      by (intro exI [of _ d] exI [of _ "draws s"])
        (simp add: setup_pipeline_def monad_simps Let_def pipelineAppend_inc)
  qed
qed

lemma setup_loop:
  assumes "list_all item_ok items" and "distinct (map fst items)"
    and "amount = (\<lambda>i. if nearlimitIndexes v ! i then hits else hitsAddendForRedis v)"
  shows "\<exists>e m. (\<forall>i. 0 < e i) \<and> foldM (setup_pipeline this hits) items v s =
    (Inr (v\<lparr>pipeline := extend (pipeline v)
              (inc_pipe (ops_of this False (overlimitIndexes v) amount e items)),
            perSecondPipeline := extend (perSecondPipeline v)
              (inc_pipe (ops_of this True (overlimitIndexes v) amount e items))\<rparr>),
     s\<lparr>draws := m\<rparr>)"
  using assms
proof (induction items arbitrary: v s)
  case Nil
  have "\<forall>i. 0 < (\<lambda>_. 1 :: int) i" by simp
  then show ?case
    by (intro exI [of _ "\<lambda>_. 1"] exI [of _ "draws s"]) (simp add: prim_simps ops_of_def inc_pipe_def)
next
  case (Cons item items)
  obtain i key lim where item: "item = (i, key, lim)" by (cases item)
  show ?case
  proof (cases "ck_Key key = '''' \<or> overlimitIndexes v ! i")
    case True
    then have "setup_pipeline this hits item v s = (Inr v, s)"
      by (simp add: item setup_pipeline_def prim_simps)
    moreover have "ops_of this ps (overlimitIndexes v) amount e (item # items) =
        ops_of this ps (overlimitIndexes v) amount e items" for ps e
      using True by (auto simp: item ops_of_Cons)
    moreover have "list_all item_ok items" "distinct (map fst items)" using Cons.prems by auto
    ultimately show ?thesis using Cons.IH [of v s] Cons.prems(3) by (simp add: bind_apply)
  next
    case False
    let ?cs = "\<lambda>e. inc_cmds i (ck_Key key) (amount i) e"
    obtain e0 m where e0: "0 < e0" and step: "setup_pipeline this hits item v s =
      (Inr (if usePerSecond this key
        then v\<lparr>perSecondPipeline := Some (started (perSecondPipeline v) @ ?cs e0)\<rparr>
        else v\<lparr>pipeline := Some (started (pipeline v) @ ?cs e0)\<rparr>), s\<lparr>draws := m\<rparr>)"
      using setup_step [of i key lim v this hits s] False Cons.prems(1,3) by (auto simp: item)
    let ?w = "if usePerSecond this key
        then v\<lparr>perSecondPipeline := Some (started (perSecondPipeline v) @ ?cs e0)\<rparr>
        else v\<lparr>pipeline := Some (started (pipeline v) @ ?cs e0)\<rparr>"
    have w: "overlimitIndexes ?w = overlimitIndexes v" "nearlimitIndexes ?w = nearlimitIndexes v"
      "hitsAddendForRedis ?w = hitsAddendForRedis v" by auto
    have "\<exists>e m'. (\<forall>i. 0 < e i) \<and> foldM (setup_pipeline this hits) items ?w (s\<lparr>draws := m\<rparr>) =
      (Inr (?w\<lparr>pipeline := extend (pipeline ?w)
                (inc_pipe (ops_of this False (overlimitIndexes ?w) amount e items)),
              perSecondPipeline := extend (perSecondPipeline ?w)
                (inc_pipe (ops_of this True (overlimitIndexes ?w) amount e items))\<rparr>),
       s\<lparr>draws := m, draws := m'\<rparr>)"
      by (rule Cons.IH) (use Cons.prems w in auto)
    then obtain e m' where e: "\<forall>i. 0 < e i" and rest:
      "foldM (setup_pipeline this hits) items ?w (s\<lparr>draws := m\<rparr>) =
      (Inr (?w\<lparr>pipeline := extend (pipeline ?w)
                (inc_pipe (ops_of this False (overlimitIndexes v) amount e items)),
              perSecondPipeline := extend (perSecondPipeline ?w)
                (inc_pipe (ops_of this True (overlimitIndexes v) amount e items))\<rparr>),
       s\<lparr>draws := m'\<rparr>)"
      unfolding w by auto
    have "\<forall>(j, k, l) \<in> set items. (e(i := e0)) j = e j"
      using Cons.prems(2) by (force simp: item)
    then have same: "ops_of this ps (overlimitIndexes v) amount (e(i := e0)) items =
        ops_of this ps (overlimitIndexes v) amount e items" for ps
      by (rule ops_of_expirations)
    have "foldM (setup_pipeline this hits) (item # items) v s =
      (Inr (v\<lparr>pipeline := extend (pipeline v) (inc_pipe (ops_of this False (overlimitIndexes v)
                amount (e(i := e0)) (item # items))),
              perSecondPipeline := extend (perSecondPipeline v) (inc_pipe (ops_of this True
                (overlimitIndexes v) amount (e(i := e0)) (item # items)))\<rparr>), s\<lparr>draws := m'\<rparr>)"
      using step rest False
      by (simp add: bind_apply item ops_of_Cons inc_pipe_Cons same inc_cmds_def extend_extend)
    moreover have "\<forall>j. 0 < (e(i := e0)) j" using e e0 by simp
    ultimately show ?thesis by (intro exI conjI)
  qed
qed

text \<open>Executing the pipelines.\<close>

lemma run_pipeline_incs:
  assumes "redis_laws rx cnt" and "distinct (map (fst \<circ> snd) ops)" and "distinct (map fst ops)"
    and "\<forall>(i, k, n, e) \<in> set ops. i < length arr \<and> cnt (redis s) k + unat n < 2 ^ 32 \<and> 0 < e"
  shows "\<exists>arr' r'. run_pipeline rx c (extend None (inc_pipe ops)) arr s = (Inr arr', s\<lparr>redis := r'\<rparr>) \<and>
    incs_done cnt ops arr (redis s) arr' r'"
proof (cases ops)
  case Nil
  then have "run_pipeline rx c (extend None (inc_pipe ops)) arr s = (Inr arr, s\<lparr>redis := redis s\<rparr>)"
    by (simp add: run_pipeline_def inc_pipe_def prim_simps)
  then show ?thesis using Nil by (intro exI conjI) (auto simp: incs_done_def)
next
  case (Cons op ops')
  then have "inc_pipe ops \<noteq> []" by (cases op) (simp add: inc_pipe_def inc_cmds_def)
  moreover obtain arr' r' where "PipeDo rx c (inc_pipe ops) arr (redis s) = ((None, arr'), r')"
    "incs_done cnt ops arr (redis s) arr' r'" using PipeDo_incs [OF assms] by blast
  ultimately show ?thesis
    by (intro exI [of _ arr'] exI [of _ r'])
      (simp add: run_pipeline_def extend_def started_def monad_simps)
qed

lemma run_perSecondPipeline_incs:
  assumes "redis_laws rx cnt" and "distinct (map (fst \<circ> snd) ops)" and "distinct (map fst ops)"
    and "\<forall>(i, k, n, e) \<in> set ops. i < length arr \<and> cnt (perSecondRedis s) k + unat n < 2 ^ 32 \<and> 0 < e"
    and "ops \<noteq> [] \<longrightarrow> perSecond \<noteq> None"
  shows "\<exists>arr' r'. run_perSecondPipeline rx perSecond (extend None (inc_pipe ops)) arr s =
      (Inr arr', s\<lparr>perSecondRedis := r'\<rparr>) \<and>
    incs_done cnt ops arr (perSecondRedis s) arr' r'"
proof (cases ops)
  case Nil
  then have "run_perSecondPipeline rx perSecond (extend None (inc_pipe ops)) arr s =
      (Inr arr, s\<lparr>perSecondRedis := perSecondRedis s\<rparr>)"
    by (simp add: run_perSecondPipeline_def inc_pipe_def prim_simps)
  then show ?thesis using Nil by (intro exI conjI) (auto simp: incs_done_def)
next
  case (Cons op ops')
  then have "inc_pipe ops \<noteq> []" by (cases op) (simp add: inc_pipe_def inc_cmds_def)
  moreover obtain c where "perSecond = Some c" using assms(5) Cons by auto
  moreover obtain arr' r' where "PipeDo rx c (inc_pipe ops) arr (perSecondRedis s) = ((None, arr'), r')"
    "incs_done cnt ops arr (perSecondRedis s) arr' r'" using PipeDo_incs [OF assms(1-4)] by blast
  ultimately show ?thesis
    by (intro exI [of _ arr'] exI [of _ r'])
      (simp add: run_perSecondPipeline_def extend_def started_def monad_simps)
qed


section \<open>Lemmas: the statuses\<close>

text \<open>The status of an item, from whether it was found and the count.\<close>

definition status_for :: "bool list \<Rightarrow> u32 list \<Rightarrow> item \<Rightarrow> DescriptorStatus \<Rightarrow> bool" where
  "status_for fs counts = (\<lambda>(i, key, lim) st.
     case lim of
       None \<Rightarrow> st = no_limit_status
     | Some l \<Rightarrow> (\<exists>reset. st = answer (fs ! i) l (counts ! i) reset))"

definition item_exceeded :: "bool list \<Rightarrow> u32 list \<Rightarrow> item \<Rightarrow> bool" where
  "item_exceeded fs counts = (\<lambda>(i, key, lim).
     case lim of None \<Rightarrow> False | Some l \<Rightarrow> \<not> fs ! i \<and> exceeded (fs ! i) l (counts ! i))"

lemma fetch_step:
  assumes "cache_sound pf contents" and "item_ok item"
  shows "\<exists>st m es lc. fetch_status pf this hits v item s =
      (Inr st, s\<lparr>reads := m, stats := es, localCache := lc\<rparr>) \<and>
    status_for (isOverLimitWithLocalCache v) (results v) item st \<and>
    cached contents lc \<subseteq> cached contents (localCache s) \<union>
      (if item_exceeded (isOverLimitWithLocalCache v) (results v) item then {ck_Key (fst (snd item))} else {})"
proof -
  obtain i key lim where item: "item = (i, key, lim)" by (cases item)
  show ?thesis
  proof (cases lim)
    case None
    then have "ck_Key key = ''''" using assms(2) by (simp add: item item_ok_def)
    then have "fetch_status pf this hits v item s =
        (Inr no_limit_status, s\<lparr>reads := reads s, stats := stats s, localCache := localCache s\<rparr>)"
      by (simp add: item fetch_status_def Let_def GetResponseDescriptorStatus_no_limit no_limit_status_def)
    then show ?thesis
      using None
      by (intro exI [of _ no_limit_status] exI [of _ "reads s"] exI [of _ "stats s"]
          exI [of _ "localCache s"]) (auto simp: status_for_def item)
  next
    case (Some l)
    then have k: "ck_Key key \<noteq> ''''" using assms(2) by (simp add: item item_ok_def)
    obtain d where d: "UnitToDivider (lim_Unit (Limit l)) = Inr d"
      using assms(2) Some by (auto simp: item item_ok_def elim: limit_ok_Some)
    let ?after = "results v ! i"
    let ?info = "NewRateLimitInfo lim (?after - hits) ?after 0 0"
    have info: "li_limit ?info = Some l" "limitAfterIncrease ?info = ?after"
      by (simp_all add: NewRateLimitInfo_def Some)
    have fetch: "fetch_status pf this hits v item s = GetResponseDescriptorStatus pf (baseRateLimiter this)
        (ck_Key key) ?info (isOverLimitWithLocalCache v ! i) hits s"
      by (simp add: item fetch_status_def Let_def)
    show ?thesis
    proof (cases "isOverLimitWithLocalCache v ! i")
      case True
      then show ?thesis
        using fetch GetResponseDescriptorStatus_cached [OF k d info(1), of pf "baseRateLimiter this" hits s ?after]
        by (intro exI [of _ "answer True l ?after (d - now_at s (reads s) smod d)"]
            exI [of _ "Suc (reads s)"] exI [of _ "stats s @ cache_events l hits"] exI [of _ "localCache s"])
          (auto simp: status_for_def item Some)
    next
      case False
      let ?lc = "note_over pf (ck_Key key) d (exceeded False l ?after) (localCache s)"
      show ?thesis
        using fetch False
          GetResponseDescriptorStatus_count [OF k d info(1), of pf "baseRateLimiter this" hits s, unfolded info(2)]
          note_over_sound [OF assms(1), of "ck_Key key" d "exceeded False l ?after" "localCache s"]
        by (intro exI [of _ "answer False l ?after (d - now_at s (reads s) smod d)"]
            exI [of _ "Suc (reads s)"] exI exI [of _ ?lc] conjI)
          (auto simp: status_for_def item Some item_exceeded_def)
    qed
  qed
qed

lemma fetch_loop:
  assumes "cache_sound pf contents" and "list_all item_ok items"
  shows "\<exists>sts m es lc. mapM (fetch_status pf this hits v) items s =
      (Inr sts, s\<lparr>reads := m, stats := es, localCache := lc\<rparr>) \<and>
    list_all2 (status_for (isOverLimitWithLocalCache v) (results v)) items sts \<and>
    cached contents lc \<subseteq> cached contents (localCache s) \<union>
      {ck_Key (fst (snd item)) | item. item \<in> set items \<and>
         item_exceeded (isOverLimitWithLocalCache v) (results v) item}"
  using assms(2)
proof (induction items arbitrary: s)
  case Nil
  show ?case
    by (intro exI [of _ "[]"] exI [of _ "reads s"] exI [of _ "stats s"] exI [of _ "localCache s"])
      (simp add: prim_simps)
next
  case (Cons item items)
  let ?fs = "isOverLimitWithLocalCache v" and ?cs = "results v"
  obtain st m es lc where one: "fetch_status pf this hits v item s =
      (Inr st, s\<lparr>reads := m, stats := es, localCache := lc\<rparr>)" "status_for ?fs ?cs item st"
    "cached contents lc \<subseteq> cached contents (localCache s) \<union>
      (if item_exceeded ?fs ?cs item then {ck_Key (fst (snd item))} else {})"
    using fetch_step [OF assms(1), of item this hits v s] Cons.prems by (auto simp del: split_paired_Ex)
  obtain sts m' es' lc' where rest:
    "mapM (fetch_status pf this hits v) items (s\<lparr>reads := m, stats := es, localCache := lc\<rparr>) =
      (Inr sts, s\<lparr>reads := m', stats := es', localCache := lc'\<rparr>)"
    "list_all2 (status_for ?fs ?cs) items sts"
    "cached contents lc' \<subseteq> cached contents lc \<union>
      {ck_Key (fst (snd item)) | item. item \<in> set items \<and> item_exceeded ?fs ?cs item}"
    using Cons.IH [of "s\<lparr>reads := m, stats := es, localCache := lc\<rparr>"] Cons.prems by auto
  have "mapM (fetch_status pf this hits v) (item # items) s =
      (Inr (st # sts), s\<lparr>reads := m', stats := es', localCache := lc'\<rparr>)"
    using one(1) rest(1) by (simp add: monad_simps)
  moreover have "list_all2 (status_for ?fs ?cs) (item # items) (st # sts)" using one(2) rest(2) by simp
  moreover have "cached contents lc' \<subseteq> cached contents (localCache s) \<union>
      {ck_Key (fst (snd it)) | it. it \<in> set (item # items) \<and> item_exceeded ?fs ?cs it}"
    using one(3) rest(3) by (fastforce split: if_splits)
  ultimately show ?case by (intro exI conjI)
qed


section \<open>Lemmas: counting\<close>

text \<open>The items of a request and the counter of a key, on the redis the key is counted on.\<close>

definition request_items ::
  "fixedRateLimitCacheImpl \<Rightarrow> RateLimitRequest \<Rightarrow> RateLimit option list \<Rightarrow> int \<Rightarrow> item list" where
  "request_items this request lims now =
     zip [0..<length (Descriptors request)]
       (zip (map (cache_key (baseRateLimiter this) (Domain request) now)
          (zip (Descriptors request) lims)) lims)"

definition count_of ::
  "fixedRateLimitCacheImpl \<Rightarrow> ('r \<Rightarrow> string \<Rightarrow> nat) \<Rightarrow> ('lc, 'r, 'x) redis_state_scheme \<Rightarrow> CacheKey
    \<Rightarrow> nat" where
  "count_of this cnt s key =
     (if usePerSecond this key then cnt (perSecondRedis s) (ck_Key key)
      else cnt (redis s) (ck_Key key))"

lemma request_items_ok:
  assumes "list_all limit_ok lims" and "length (Descriptors request) = length lims"
  shows "list_all item_ok (request_items this request lims now)"
    and "map fst (request_items this request lims now) = [0..<length lims]"
    and "map (snd \<circ> snd) (request_items this request lims now) = lims"
proof -
  show "list_all item_ok (request_items this request lims now)"
    using assms
    by (auto simp: list_all_length request_items_def item_ok_def cache_key_empty)
  show "map fst (request_items this request lims now) = [0..<length lims]"
    and "map (snd \<circ> snd) (request_items this request lims now) = lims"
    using assms(2) by (auto simp: request_items_def intro!: nth_equalityI)
qed

text \<open>The operations of a pipeline inherit what the items promise.\<close>

lemma ops_of_set:
  "(i, k, n, e) \<in> set (ops_of this ps skip amount ex items) \<longleftrightarrow>
     (\<exists>key lim. (i, key, lim) \<in> set items \<and> ck_Key key \<noteq> '''' \<and> \<not> skip ! i \<and>
        usePerSecond this key = ps \<and> k = ck_Key key \<and> n = amount i \<and> e = ex i)"
  by (auto simp: ops_of_def image_iff)

lemma ops_of_distinct:
  assumes "distinct (map fst items)"
    and "distinct (filter (\<lambda>k. k \<noteq> '''') (map (\<lambda>(i, key, lim). ck_Key key) items))"
  shows "distinct (map fst (ops_of this ps skip amount ex items))"
    and "distinct (map (fst \<circ> snd) (ops_of this ps skip amount ex items))"
proof -
  have "map fst (ops_of this ps skip amount ex items) =
      map fst (filter (\<lambda>(i, key, lim). ck_Key key \<noteq> '''' \<and> \<not> skip ! i \<and> usePerSecond this key = ps) items)"
    by (auto simp: ops_of_def)
  then show "distinct (map fst (ops_of this ps skip amount ex items))"
    using assms(1) by (simp add: distinct_map_filter)
  show "distinct (map (fst \<circ> snd) (ops_of this ps skip amount ex items))"
    using assms(2)
  proof (induction items)
    case Nil
    then show ?case by (simp add: ops_of_def)
  next
    case (Cons item items)
    obtain i key lim where item: "item = (i, key, lim)" by (cases item)
    have "(fst \<circ> snd) ` set (ops_of this ps skip amount ex items) \<subseteq>
        set (filter (\<lambda>k. k \<noteq> '''') (map (\<lambda>(i, key, lim). ck_Key key) items))"
      by (force simp: ops_of_set)
    with Cons show ?case by (auto simp: item ops_of_Cons split: if_splits)
  qed
qed

text \<open>
  What executing the pipelines of a list of items achieves: every item that was not skipped is
  counted once, and its count is received.
\<close>

definition items_counted ::
  "fixedRateLimitCacheImpl \<Rightarrow> ('r \<Rightarrow> string \<Rightarrow> nat) \<Rightarrow> bool list \<Rightarrow> (nat \<Rightarrow> u32) \<Rightarrow> item list
    \<Rightarrow> ('lc, 'r, 'x) redis_state_scheme \<Rightarrow> u32 list \<Rightarrow> ('lc, 'r, 'x) redis_state_scheme \<Rightarrow> bool" where
  "items_counted this cnt skip amount items s counts t \<longleftrightarrow>
     (\<forall>(i, key, lim) \<in> set items. ck_Key key \<noteq> '''' \<longrightarrow>
        (\<not> skip ! i \<longrightarrow> counts ! i = of_nat (count_of this cnt s key) + amount i) \<and>
        count_of this cnt t key = count_of this cnt s key + (if skip ! i then 0 else unat (amount i))) \<and>
     (\<forall>key. ck_Key key \<notin> (\<lambda>(i, key, lim). ck_Key key) ` set items \<longrightarrow>
        count_of this cnt t key = count_of this cnt s key)"

lemma key_unique:
  assumes "distinct (filter (\<lambda>k. k \<noteq> '''') (map (\<lambda>(i, key, lim). ck_Key key) items))"
    and "(i, key, lim) \<in> set items" and "(j, key', lim') \<in> set items"
    and "ck_Key key = ck_Key key'" and "ck_Key key \<noteq> ''''"
  shows "i = j \<and> key = key' \<and> lim = lim'"
  using assms
proof (induction items)
  case Nil
  then show ?case by simp
next
  case (Cons item items)
  let ?ks = "filter (\<lambda>k. k \<noteq> '''') (map (\<lambda>(i, key, lim). ck_Key key) items)"
  have mem: "ck_Key k \<in> set ?ks" if "(a, k, l) \<in> set items" "ck_Key k \<noteq> ''''" for a k l
    using that by force
  have tl: "distinct ?ks" using Cons.prems(1) by (cases item) (auto split: if_splits)
  have hd: "ck_Key k \<notin> set ?ks" if "item = (a, k, l)" "ck_Key k \<noteq> ''''" for a k l
    using Cons.prems(1) that by simp
  consider "item = (i, key, lim)" "item = (j, key', lim')"
    | "item = (i, key, lim)" "(j, key', lim') \<in> set items"
    | "(i, key, lim) \<in> set items" "item = (j, key', lim')"
    | "(i, key, lim) \<in> set items" "(j, key', lim') \<in> set items"
    using Cons.prems(2,3) by auto
  then show ?case
  proof cases
    case 1
    then show ?thesis by simp
  next
    case 2
    have "ck_Key key \<notin> set ?ks" by (rule hd [OF 2(1) Cons.prems(5)])
    moreover have "ck_Key key \<in> set ?ks" unfolding Cons.prems(4)
      by (rule mem [OF 2(2)]) (use Cons.prems(4,5) in simp)
    ultimately show ?thesis by blast
  next
    case 3
    have "ck_Key key \<notin> set ?ks" unfolding Cons.prems(4)
      by (rule hd [OF 3(2)]) (use Cons.prems(4,5) in simp)
    moreover have "ck_Key key \<in> set ?ks" by (rule mem [OF 3(1) Cons.prems(5)])
    ultimately show ?thesis by blast
  next
    case 4
    with Cons.IH tl Cons.prems(4,5) show ?thesis by blast
  qed
qed

lemma run_both:
  fixes s :: "('lc, 'r, 'x) redis_state_scheme"
  assumes laws: "redis_laws rx cnt" and dist: "distinct (map fst items)"
    and keys: "distinct (filter (\<lambda>k. k \<noteq> '''') (map (\<lambda>(i, key, lim). ck_Key key) items))"
    and below: "\<forall>(i, key, lim) \<in> set items. i < n" and e: "\<forall>i. 0 < e i"
    and bound: "\<forall>(i, key, lim) \<in> set items. count_of this cnt s key + unat (amount i) < 2 ^ 32"
    and main: "main = ops_of this False skip amount e items"
    and ps: "ps = ops_of this True skip amount e items"
  shows "\<exists>arr counts r r'.
    run_pipeline rx (client this) (extend None (inc_pipe main)) (replicate n 0) s =
      (Inr arr, s\<lparr>redis := r\<rparr>) \<and>
    run_perSecondPipeline rx (perSecondClient this) (extend None (inc_pipe ps)) arr (s\<lparr>redis := r\<rparr>) =
      (Inr counts, s\<lparr>redis := r, perSecondRedis := r'\<rparr>) \<and>
    items_counted this cnt skip amount items s counts (s\<lparr>redis := r, perSecondRedis := r'\<rparr>)"
proof -
  have in_ops: "(i, ck_Key key, amount i, e i) \<in> set (ops_of this (usePerSecond this key) skip amount e items)"
    if "(i, key, lim) \<in> set items" "ck_Key key \<noteq> ''''" "\<not> skip ! i" for i key lim
    using that by (auto simp: ops_of_set)
  have bm: "\<forall>(i, k, m, x) \<in> set main. i < n \<and> cnt (redis s) k + unat m < 2 ^ 32 \<and> 0 < x"
    using below bound e by (force simp: main ops_of_set count_of_def)
  have bp: "\<forall>(i, k, m, x) \<in> set ps. i < n \<and> cnt (perSecondRedis s) k + unat m < 2 ^ 32 \<and> 0 < x"
    using below bound e by (force simp: ps ops_of_set count_of_def)
  obtain arr r where run1: "run_pipeline rx (client this) (extend None (inc_pipe main)) (replicate n 0) s =
      (Inr arr, s\<lparr>redis := r\<rparr>)" and d1: "incs_done cnt main (replicate n 0) (redis s) arr r"
    using run_pipeline_incs [OF laws, of main "replicate n 0" s "client this"]
      ops_of_distinct [OF dist keys] bm main by auto
  have "ps \<noteq> [] \<longrightarrow> perSecondClient this \<noteq> None"
    by (auto simp: ps ops_of_def usePerSecond_def filter_empty_conv)
  then obtain counts r' where run2:
    "run_perSecondPipeline rx (perSecondClient this) (extend None (inc_pipe ps)) arr (s\<lparr>redis := r\<rparr>) =
      (Inr counts, s\<lparr>redis := r, perSecondRedis := r'\<rparr>)"
    and d2: "incs_done cnt ps arr (perSecondRedis s) counts r'"
    using run_perSecondPipeline_incs [OF laws, of ps arr "s\<lparr>redis := r\<rparr>" "perSecondClient this"]
      ops_of_distinct [OF dist keys] bp d1 ps by (auto simp: incs_done_def)
  let ?t = "s\<lparr>redis := r, perSecondRedis := r'\<rparr>"
  have "(\<not> skip ! i \<longrightarrow> counts ! i = of_nat (count_of this cnt s key) + amount i) \<and>
        count_of this cnt ?t key = count_of this cnt s key + (if skip ! i then 0 else unat (amount i))"
    if it: "(i, key, lim) \<in> set items" and k: "ck_Key key \<noteq> ''''" for i key lim
  proof -
    have only: "(j, ck_Key key, m, x) \<in> set (ops_of this b skip amount e items) \<Longrightarrow>
        j = i \<and> \<not> skip ! i \<and> b = usePerSecond this key" for j m x b
      using key_unique [OF keys it _ _ k] by (auto simp: ops_of_set)
    have none: "ck_Key key \<notin> (fst \<circ> snd) ` set (ops_of this b skip amount e items)"
      if "skip ! i \<or> b \<noteq> usePerSecond this key" for b
      using only that by fastforce
    have idx: "i \<notin> fst ` set (ops_of this b skip amount e items)" if "b \<noteq> usePerSecond this key" for b
      using that eq_key_imp_eq_value [OF dist it] by (auto simp: ops_of_set)
    show ?thesis
    proof (cases "skip ! i")
      case True
      then show ?thesis using none d1 d2 by (simp add: incs_done_def count_of_def main ps)
    next
      case False
      then show ?thesis
        using in_ops [OF it k False] idx d1 d2
        by (cases "usePerSecond this key") (fastforce simp: incs_done_def count_of_def main ps)+
    qed
  qed
  moreover have "count_of this cnt ?t key = count_of this cnt s key"
    if "ck_Key key \<notin> (\<lambda>(i, key, lim). ck_Key key) ` set items" for key
  proof -
    have "ck_Key key \<notin> (fst \<circ> snd) ` set (ops_of this b skip amount e items)" for b
      using that by (force simp: ops_of_set)
    then show ?thesis using d1 d2 by (simp add: incs_done_def count_of_def main ps)
  qed
  ultimately have "items_counted this cnt skip amount items s counts ?t"
    unfolding items_counted_def by blast
  with run1 run2 show ?thesis by (intro exI conjI)
qed


text \<open>
  \<open>DoLimit\<close> without the stop mode: which keys were found in the local cache, what was counted,
  and what the statuses are.
\<close>

definition limited ::
  "('lc \<Rightarrow> string set) \<Rightarrow> fixedRateLimitCacheImpl \<Rightarrow> ('r \<Rightarrow> string \<Rightarrow> nat) \<Rightarrow> u32 \<Rightarrow> item list
    \<Rightarrow> ('lc, 'r, 'x) redis_state_scheme \<Rightarrow> bool list \<Rightarrow> u32 list \<Rightarrow> DescriptorStatus list
    \<Rightarrow> ('lc, 'r, 'x) redis_state_scheme \<Rightarrow> bool" where
  "limited contents this cnt hits items s fs counts sts t \<longleftrightarrow>
     found_in contents (localCache s) items fs \<and>
     items_counted this cnt fs (\<lambda>_. hits) items s counts t \<and>
     list_all2 (status_for fs counts) items sts \<and>
     now_at t = now_at s \<and>
     cached contents (localCache t) \<subseteq> cached contents (localCache s) \<union>
       {ck_Key (fst (snd item)) | item. item \<in> set items \<and> item_exceeded fs counts item}"

lemma count_of_frame:
  "redis s' = redis s \<Longrightarrow> perSecondRedis s' = perSecondRedis s \<Longrightarrow>
   count_of this cnt s' = count_of this cnt s"
  by (simp add: count_of_def fun_eq_iff)

lemma items_counted_frame:
  assumes "redis s' = redis s" and "perSecondRedis s' = perSecondRedis s"
    and "redis t' = redis t" and "perSecondRedis t' = perSecondRedis t"
  shows "items_counted this cnt skip amount items s' counts t' =
    items_counted this cnt skip amount items s counts t"
proof -
  have "count_of this cnt s' = count_of this cnt s" by (rule count_of_frame [OF assms(1,2)])
  moreover have "count_of this cnt t' = count_of this cnt t" by (rule count_of_frame [OF assms(3,4)])
  ultimately show ?thesis by (simp only: items_counted_def)
qed

text \<open>The second half of \<open>DoLimit\<close>: counting and answering, once the local cache was asked.\<close>

lemma count_and_fetch:
  fixes s :: "('lc, 'r, 'x) redis_state_scheme"
  assumes laws: "redis_laws rx cnt" and sound: "cache_sound pf contents"
    and ok: "list_all item_ok items" and dist: "distinct (map fst items)"
    and keys: "distinct (filter (\<lambda>k. k \<noteq> '''') (map (\<lambda>(i, key, lim). ck_Key key) items))"
    and below: "\<forall>(i, key, lim) \<in> set items. i < n"
    and bound: "\<forall>(i, key, lim) \<in> set items. count_of this cnt s key + unat (amount i) < 2 ^ 32"
    and v: "pipeline v = None" "perSecondPipeline v = None" "results v = replicate n 0"
      "isOverLimitWithLocalCache v = fs" "overlimitIndexes v = fs"
    and amount: "amount = (\<lambda>i. if nearlimitIndexes v ! i then hits else hitsAddendForRedis v)"
  shows "\<exists>sts counts r r' m m' es lc.
    bind (foldM (setup_pipeline this hits) items v) (\<lambda>v.
    bind (run_pipeline rx (client this) (pipeline v) (results v)) (\<lambda>counts.
    bind (run_perSecondPipeline rx (perSecondClient this) (perSecondPipeline v) counts) (\<lambda>counts.
    mapM (fetch_status pf this hits (v\<lparr>results := counts\<rparr>)) items))) s =
      (Inr sts, s\<lparr>draws := m, redis := r, perSecondRedis := r', reads := m', stats := es, localCache := lc\<rparr>) \<and>
    items_counted this cnt fs amount items s counts (s\<lparr>redis := r, perSecondRedis := r'\<rparr>) \<and>
    list_all2 (status_for fs counts) items sts \<and>
    cached contents lc \<subseteq> cached contents (localCache s) \<union>
       {ck_Key (fst (snd item)) | item. item \<in> set items \<and> item_exceeded fs counts item}"
proof -
  obtain e m where e: "\<forall>i. 0 < e i" and set_up: "foldM (setup_pipeline this hits) items v s =
      (Inr (v\<lparr>pipeline := extend None (inc_pipe (ops_of this False fs amount e items)),
            perSecondPipeline := extend None (inc_pipe (ops_of this True fs amount e items))\<rparr>),
       s\<lparr>draws := m\<rparr>)" (is "_ = (Inr ?v, ?s)")
    using setup_loop [OF ok dist amount, of this s] by (auto simp: v)
  have bound': "\<forall>(i, key, lim) \<in> set items. count_of this cnt ?s key + unat (amount i) < 2 ^ 32"
    using bound count_of_frame [of ?s s this cnt] by simp
  obtain arr counts r r' where run:
    "run_pipeline rx (client this) (pipeline ?v) (results ?v) ?s = (Inr arr, ?s\<lparr>redis := r\<rparr>)"
    "run_perSecondPipeline rx (perSecondClient this) (perSecondPipeline ?v) arr (?s\<lparr>redis := r\<rparr>) =
      (Inr counts, ?s\<lparr>redis := r, perSecondRedis := r'\<rparr>)"
    "items_counted this cnt fs amount items ?s counts (?s\<lparr>redis := r, perSecondRedis := r'\<rparr>)"
    using run_both [OF laws dist keys below e bound' refl refl, where skip = fs] by (auto simp: v)
  obtain sts m' es lc where fetch: "mapM (fetch_status pf this hits (?v\<lparr>results := counts\<rparr>)) items
      (?s\<lparr>redis := r, perSecondRedis := r'\<rparr>) =
      (Inr sts, ?s\<lparr>redis := r, perSecondRedis := r', reads := m', stats := es, localCache := lc\<rparr>)"
    "list_all2 (status_for fs counts) items sts"
    "cached contents lc \<subseteq> cached contents (localCache s) \<union>
       {ck_Key (fst (snd item)) | item. item \<in> set items \<and> item_exceeded fs counts item}"
    using fetch_loop [OF sound ok, where this = this and hits = hits and v = "?v\<lparr>results := counts\<rparr>"
        and s = "?s\<lparr>redis := r, perSecondRedis := r'\<rparr>"] by (auto simp: v)
  have "items_counted this cnt fs amount items s counts (s\<lparr>redis := r, perSecondRedis := r'\<rparr>)"
    using run(3) by (subst items_counted_frame [where s = ?s and t = "?s\<lparr>redis := r, perSecondRedis := r'\<rparr>"]) simp_all
  moreover have "bind (foldM (setup_pipeline this hits) items v) (\<lambda>v.
    bind (run_pipeline rx (client this) (pipeline v) (results v)) (\<lambda>counts.
    bind (run_perSecondPipeline rx (perSecondClient this) (perSecondPipeline v) counts) (\<lambda>counts.
    mapM (fetch_status pf this hits (v\<lparr>results := counts\<rparr>)) items))) s =
      (Inr sts, s\<lparr>draws := m, redis := r, perSecondRedis := r', reads := m', stats := es, localCache := lc\<rparr>)"
    by (simp only: bind_apply set_up run(1,2) fetch(1) prod.case sum.case)
  ultimately show ?thesis using fetch(2,3) by (intro exI conjI)
qed

text \<open>The beginning of \<open>DoLimit\<close>: the items of the request, and what the local cache knows of them.\<close>

lemma request_items_shape:
  assumes "list_all limit_ok lims" and "length (Descriptors request) = length lims"
    and "items = request_items this request lims now"
  shows "list_all item_ok items" and "distinct (map fst items)" and "\<forall>(i, key, lim) \<in> set items. i < length (Descriptors request)"
  using assms request_items_ok [OF assms(1,2), of this now] by (simp_all add: request_items_def) (auto simp: set_zip)

lemma local_check_runs:
  fixes s :: "('lc, 'r, 'x) redis_state_scheme"
  assumes sound: "cache_sound pf contents" and ok: "list_all limit_ok lims" and len: "length (Descriptors request) = length lims"
    and items: "items = request_items this request lims (now_at s (reads s))"
  obtains fs lc where
    "bind (GenerateCacheKeys (baseRateLimiter this) request lims hits) (\<lambda>cacheKeys.
       let n = length (Descriptors request); items = zip [0..<n] (zip cacheKeys lims) in
       bind (foldM (check_local pf) items (initial_vars n hits)) (f n items)) s =
     f (length (Descriptors request)) items
       ((initial_vars (length (Descriptors request)) hits)\<lparr>isOverLimitWithLocalCache := fs, overlimitIndexes := fs\<rparr>)
       (s\<lparr>reads := Suc (reads s), stats := stats s @ hit_events hits lims, localCache := lc\<rparr>)"
    and "found_in contents (localCache s) items fs" and "cached contents lc \<subseteq> cached contents (localCache s)"
proof -
  let ?n = "length (Descriptors request)"
  let ?v0 = "initial_vars ?n hits" and ?F = "replicate ?n False"
  let ?s1 = "s\<lparr>reads := Suc (reads s), stats := stats s @ hit_events hits lims\<rparr>"
  note shape = request_items_shape [OF ok len items]
  have gen: "GenerateCacheKeys (baseRateLimiter this) request lims hits s =
      (Inr (map (cache_key (baseRateLimiter this) (Domain request) (now_at s (reads s))) (zip (Descriptors request) lims)), ?s1)"
    by (rule GenerateCacheKeys_apply [OF ok len])
  have v0: "?v0\<lparr>isOverLimitWithLocalCache := ?F, overlimitIndexes := ?F\<rparr> = ?v0" by (simp add: initial_vars_def)
  have F: "\<forall>(i, key, lim) \<in> set items. i < length ?F \<and> \<not> ?F ! i" using shape(3) by auto
  obtain fs lc where loc: "foldM (check_local pf) items ?v0 ?s1 =
      (Inr (?v0\<lparr>isOverLimitWithLocalCache := fs, overlimitIndexes := fs\<rparr>), ?s1\<lparr>localCache := lc\<rparr>)"
    and fs: "found_in contents (localCache s) items fs" "cached contents lc \<subseteq> cached contents (localCache s)"
    using check_local_loop [OF sound shape(1,2) v0 F, of ?s1] by auto
  show thesis
    by (rule that [OF _ fs])
      (simp add: Let_def bind_apply gen loc items [unfolded request_items_def, symmetric])
qed

lemma DoLimit_counts:
  fixes s :: "('lc, 'r, 'x) redis_state_scheme"
  assumes laws: "redis_laws rx cnt" and sound: "cache_sound pf contents"
    and stop: "\<not> stopCacheKeyIncrementWhenOverlimit this"
    and ok: "list_all limit_ok lims" and len: "length (Descriptors request) = length lims"
    and items: "items = request_items this request lims (now_at s (reads s))"
    and keys: "distinct (filter (\<lambda>k. k \<noteq> '''') (map (\<lambda>(i, key, lim). ck_Key key) items))"
    and hits: "hits = Max_u32 1 (HitsAddend request)"
    and bound: "\<forall>(i, key, lim) \<in> set items. count_of this cnt s key + unat hits < 2 ^ 32"
  shows "\<exists>sts t fs counts. DoLimit pf rx this request lims s = (Inr sts, t) \<and>
    limited contents this cnt hits items s fs counts sts t"
proof -
  let ?n = "length (Descriptors request)"
  note shape = request_items_shape [OF ok len items]
  let ?rest = "\<lambda>n items v. bind (foldM (setup_pipeline this hits) items v) (\<lambda>v.
    bind (run_pipeline rx (client this) (pipeline v) (results v)) (\<lambda>counts.
    bind (run_perSecondPipeline rx (perSecondClient this) (perSecondPipeline v) counts) (\<lambda>counts.
    mapM (fetch_status pf this hits (v\<lparr>results := counts\<rparr>)) items)))"
  obtain fs lc where begins: "bind (GenerateCacheKeys (baseRateLimiter this) request lims hits) (\<lambda>cacheKeys.
       let n = ?n; items = zip [0..<n] (zip cacheKeys lims) in
       bind (foldM (check_local pf) items (initial_vars n hits)) (?rest n items)) s =
     ?rest ?n items ((initial_vars ?n hits)\<lparr>isOverLimitWithLocalCache := fs, overlimitIndexes := fs\<rparr>)
       (s\<lparr>reads := Suc (reads s), stats := stats s @ hit_events hits lims, localCache := lc\<rparr>)"
    and fs: "found_in contents (localCache s) items fs"
    and lc: "cached contents lc \<subseteq> cached contents (localCache s)"
    by (rule local_check_runs [OF sound ok len items, where f = ?rest])
  let ?v1 = "(initial_vars ?n hits)\<lparr>isOverLimitWithLocalCache := fs, overlimitIndexes := fs\<rparr>"
    and ?s2 = "s\<lparr>reads := Suc (reads s), stats := stats s @ hit_events hits lims, localCache := lc\<rparr>"
  have run: "DoLimit pf rx this request lims s = ?rest ?n items ?v1 ?s2"
    using begins stop by (simp only: DoLimit_def Let_def hits [symmetric] if_False)
  have bound': "\<forall>(i, key, lim) \<in> set items. count_of this cnt ?s2 key + unat hits < 2 ^ 32"
    using bound count_of_frame [of ?s2 s this cnt] by simp
  have v1: "pipeline ?v1 = None" "perSecondPipeline ?v1 = None" "results ?v1 = replicate ?n 0"
    "isOverLimitWithLocalCache ?v1 = fs" "overlimitIndexes ?v1 = fs"
    by (simp_all add: initial_vars_def)
  have amount: "(\<lambda>_. hits) = (\<lambda>i. if nearlimitIndexes ?v1 ! i then hits else hitsAddendForRedis ?v1)"
    by (rule ext) (simp add: initial_vars_def)
  obtain sts counts r r' m m' es lc' where rest:
    "?rest ?n items ?v1 ?s2 =
      (Inr sts, ?s2\<lparr>draws := m, redis := r, perSecondRedis := r', reads := m', stats := es, localCache := lc'\<rparr>)"
      (is "_ = (Inr sts, ?t)")
    "items_counted this cnt fs (\<lambda>_. hits) items ?s2 counts (?s2\<lparr>redis := r, perSecondRedis := r'\<rparr>)"
    "list_all2 (status_for fs counts) items sts"
    "cached contents lc' \<subseteq> cached contents (localCache ?s2) \<union>
       {ck_Key (fst (snd item)) | item. item \<in> set items \<and> item_exceeded fs counts item}"
    using count_and_fetch [OF laws sound shape(1,2) keys shape(3) bound' v1 amount] by blast
  have "items_counted this cnt fs (\<lambda>_. hits) items s counts ?t"
    using rest(2) by (subst items_counted_frame [where s = ?s2 and t = "?s2\<lparr>redis := r, perSecondRedis := r'\<rparr>"]) simp_all
  then show ?thesis
    using run rest(1,3,4) fs lc by (intro exI [of _ sts] exI [of _ ?t] exI [of _ fs] exI [of _ counts])
      (auto simp: limited_def)
qed


section \<open>Properties\<close>

text \<open>
  C7. One request on redis. With servers that satisfy the redis laws, a sound local cache, valid units,
  pairwise different keys and counters that stay below \<open>2 ^ 32\<close>, \<open>DoLimit\<close> (without the stop mode)
  returns one status per descriptor. A descriptor without limit is \<open>OK\<close> with nothing reported.
  For every other descriptor the key may be found in the local cache, and then only if it was
  there; if it is found it is answered \<open>over\<close> and not counted, otherwise its counter grows by the
  hits of the request, on the redis its unit selects, and the answer is that for the new count. No
  other counter changes.
\<close>

theorem DoLimit_counts_and_decides:
  fixes s :: "('lc, 'r, 'x) redis_state_scheme"
  assumes "redis_laws rx cnt" and "cache_sound pf contents"
    and "\<not> stopCacheKeyIncrementWhenOverlimit this"
    and "list_all limit_ok lims" and "length (Descriptors request) = length lims"
    and "items = request_items this request lims (now_at s (reads s))"
    and "distinct (filter (\<lambda>k. k \<noteq> '''') (map (\<lambda>(i, key, lim). ck_Key key) items))"
    and "hits = Max_u32 1 (HitsAddend request)"
    and "\<forall>(i, key, lim) \<in> set items. count_of this cnt s key + unat hits < 2 ^ 32"
  shows "\<exists>sts t. DoLimit pf rx this request lims s = (Inr sts, t) \<and> length sts = length lims \<and>
    (\<forall>(i, key, lim) \<in> set items. case lim of
       None \<Rightarrow> sts ! i = no_limit_status
     | Some l \<Rightarrow> (\<exists>found reset.
         (found \<longrightarrow> ck_Key key \<in> cached contents (localCache s)) \<and>
         sts ! i = answer found l (of_nat (count_of this cnt s key) + hits) reset \<and>
         count_of this cnt t key = count_of this cnt s key + (if found then 0 else unat hits))) \<and>
    (\<forall>key. ck_Key key \<notin> (\<lambda>(i, key, lim). ck_Key key) ` set items \<longrightarrow>
      count_of this cnt t key = count_of this cnt s key)"
proof -
  obtain sts t fs counts where run: "DoLimit pf rx this request lims s = (Inr sts, t)"
    and lim: "limited contents this cnt hits items s fs counts sts t"
    using DoLimit_counts [OF assms] by blast
  have ok: "list_all item_ok items" and idx: "map fst items = [0..<length lims]"
    using request_items_ok [OF assms(4,5)] assms(6) by simp_all
  have len: "length items = length lims" using arg_cong [OF idx, of length] by simp
  have all: "length sts = length lims" "\<And>i. i < length items \<Longrightarrow> status_for fs counts (items ! i) (sts ! i)"
    using lim len by (auto simp: limited_def list_all2_conv_all_nth)
  have "case l of None \<Rightarrow> sts ! i = no_limit_status
     | Some l \<Rightarrow> (\<exists>found reset.
         (found \<longrightarrow> ck_Key key \<in> cached contents (localCache s)) \<and>
         sts ! i = answer found l (of_nat (count_of this cnt s key) + hits) reset \<and>
         count_of this cnt t key = count_of this cnt s key + (if found then 0 else unat hits))"
    if it: "(i, key, l) \<in> set items" for i key l
  proof -
    obtain j where j: "j < length items" "items ! j = (i, key, l)" using it by (auto simp: in_set_conv_nth)
    then have "i = j" using idx len nth_map [of j items fst] by simp
    with all(2) [OF j(1)] j(2) have st: "status_for fs counts (i, key, l) (sts ! i)" by simp
    show ?thesis
    proof (cases l)
      case None
      then show ?thesis using st by (simp add: status_for_def)
    next
      case (Some rl)
      then have k: "ck_Key key \<noteq> ''''" using ok it by (auto simp: list_all_iff item_ok_def)
      have c: "\<not> fs ! i \<longrightarrow> counts ! i = of_nat (count_of this cnt s key) + hits"
        "count_of this cnt t key = count_of this cnt s key + (if fs ! i then 0 else unat hits)"
        using lim it k by (auto simp: limited_def items_counted_def)
      have f: "fs ! i \<longrightarrow> ck_Key key \<in> cached contents (localCache s)"
        using lim it by (auto simp: limited_def found_in_def)
      obtain reset where a: "sts ! i = answer (fs ! i) rl (counts ! i) reset"
        using st Some by (auto simp: status_for_def)
      have "sts ! i = answer (fs ! i) rl (of_nat (count_of this cnt s key) + hits) reset"
        using a c(1) by (cases "fs ! i") (auto simp: answer_def exceeded_def)
      with c(2) f Some show ?thesis by auto
    qed
  qed
  moreover have "\<forall>key. ck_Key key \<notin> (\<lambda>(i, key, lim). ck_Key key) ` set items \<longrightarrow>
      count_of this cnt t key = count_of this cnt s key"
    using lim by (simp add: limited_def items_counted_def)
  ultimately show ?thesis using run all(1) by (intro exI [of _ sts] exI [of _ t]) blast
qed

definition sample_redis :: "fixedRateLimitCacheImpl" where
  "sample_redis = NewFixedRateLimitCacheImpl \<lparr>implicitPipelining = False\<rparr> None 0 (F32 13421773 (-24)) ''''
     (NewStatManager []) False"

definition sample_redis_state :: "(string list, string \<Rightarrow> nat) redis_state" where
  "sample_redis_state = \<lparr>now_at = (\<lambda>_. 1234), reads = 0, rand_at = (\<lambda>_. 0), draws = 0, stats = [],
     localCache = Some [], redis = (\<lambda>_. 0), perSecondRedis = (\<lambda>_. 0)\<rparr>"

definition sample_rl_request :: "u32 \<Rightarrow> RateLimitRequest" where
  "sample_rl_request h = \<lparr>Domain = ''d'', Descriptors = [sample_request ''a'' ''b'', sample_request ''c'' ''d''],
     HitsAddend = h\<rparr>"

lemma sample_items:
  "request_items sample_redis (sample_rl_request 3) [Some sample_limit, None] 1234 =
     [(0, \<lparr>ck_Key = ''d_a_b_1200'', PerSecond = False\<rparr>, Some sample_limit),
      (1, \<lparr>ck_Key = '''', PerSecond = False\<rparr>, None)]"
proof -
  have "UnitToDivider (lim_Unit (Limit sample_limit)) = Inr 60" "lim_Unit (Limit sample_limit) = MINUTE"
    by (simp_all add: sample_limit_def NewRateLimit_def)
  moreover have "FormatInt 1200 = ''1200''" by code_simp
  moreover have "window_start 60 1234 = 1200" by (simp add: window_start_def sdiv_nonneg)
  ultimately show ?thesis
    by (simp add: request_items_def sample_rl_request_def sample_request_def cache_key_Some key_stem_def
        sample_redis_def NewFixedRateLimitCacheImpl_def NewBaseRateLimit_def)
qed

theorem DoLimit_counts_and_decides_witness:
  "\<exists>sts t. DoLimit set_cache counter_server sample_redis (sample_rl_request 3) [Some sample_limit, None]
      sample_redis_state = (Inr sts, t) \<and> length sts = 2 \<and> sts ! 1 = no_limit_status"
proof -
  let ?items = "[(0, \<lparr>ck_Key = ''d_a_b_1200'', PerSecond = False\<rparr>, Some sample_limit),
      (1, \<lparr>ck_Key = '''', PerSecond = False\<rparr>, None)]"
  have ok: "list_all limit_ok [Some sample_limit, None]"
    by (simp add: limit_ok_def sample_limit_def NewRateLimit_def)
  have len: "length (Descriptors (sample_rl_request 3)) = length [Some sample_limit, None]"
    by (simp add: sample_rl_request_def)
  have stop: "\<not> stopCacheKeyIncrementWhenOverlimit sample_redis"
    by (simp add: sample_redis_def NewFixedRateLimitCacheImpl_def)
  have items: "?items = request_items sample_redis (sample_rl_request 3) [Some sample_limit, None]
      (now_at sample_redis_state (reads sample_redis_state))"
    by (simp add: sample_redis_state_def sample_items)
  have hits: "(3 :: u32) = Max_u32 1 (HitsAddend (sample_rl_request 3))"
    by (simp add: sample_rl_request_def max_def)
  have keys: "distinct (filter (\<lambda>k. k \<noteq> '''') (map (\<lambda>(i, key, lim). ck_Key key) ?items))" by simp
  have bound: "\<forall>(i, key, lim) \<in> set ?items. count_of sample_redis id sample_redis_state key + unat (3 :: u32) < 2 ^ 32"
    by (simp add: count_of_def sample_redis_state_def)
  show ?thesis
    using DoLimit_counts_and_decides [OF counter_server_laws set_cache_sound stop ok len items keys hits bound]
    by auto
qed

end
