(* ===== verification/Redis_Window.thy ===== *)
theory Redis_Window
  imports Redis_Cache
begin

text \<open>
  The promise of the redis back end over time: within one window, a sequence of requests for one
  descriptor is granted exactly as far as the limit goes, local cache or not.
\<close>

section \<open>One request for one descriptor\<close>

lemma DoLimit_single:
  fixes s :: "('lc, 'r, 'x) redis_state_scheme"
  assumes laws: "redis_laws rx cnt" and sound: "cache_sound pf contents"
    and stop: "\<not> stopCacheKeyIncrementWhenOverlimit this"
    and unit: "valid_unit (lim_Unit (Limit l))"
    and rq: "Domain rq = dn" "Descriptors rq = [de]"
    and key: "key = cache_key (baseRateLimiter this) dn (now_at s (reads s)) (de, Some l)"
    and h: "h = Max_u32 1 (HitsAddend rq)" and bound: "count_of this cnt s key + unat h < 2 ^ 32"
  shows "\<exists>found reset t. DoLimit pf rx this rq [Some l] s =
      (Inr [answer found l (of_nat (count_of this cnt s key) + h) reset], t) \<and>
    (found \<longrightarrow> ck_Key key \<in> cached contents (localCache s)) \<and>
    count_of this cnt t key = count_of this cnt s key + (if found then 0 else unat h) \<and>
    now_at t = now_at s \<and>
    (ck_Key key \<in> cached contents (localCache t) \<longrightarrow> ck_Key key \<in> cached contents (localCache s) \<or>
      exceeded False l (of_nat (count_of this cnt s key) + h))"
proof -
  let ?items = "[(0, key, Some l)]"
  have ok: "list_all limit_ok [Some l]" using unit by (simp add: limit_ok_def)
  have items: "?items = request_items this rq [Some l] (now_at s (reads s))"
    by (simp add: request_items_def rq key)
  have k: "ck_Key key \<noteq> ''''"
    using cache_key_empty [of "Some l" "baseRateLimiter this" dn _ de] ok key by simp
  have len: "length (Descriptors rq) = length [Some l]" by (simp add: rq)
  have keys: "distinct (filter (\<lambda>k. k \<noteq> '''') (map (\<lambda>(i, key, lim). ck_Key key) ?items))" by simp
  have b: "\<forall>(i, key, lim) \<in> set ?items. count_of this cnt s key + unat h < 2 ^ 32" using bound by simp
  obtain sts t fs counts where run: "DoLimit pf rx this rq [Some l] s = (Inr sts, t)"
    and lim: "limited contents this cnt h ?items s fs counts sts t"
    using DoLimit_counts [OF laws sound stop ok len items keys h b] by blast
  obtain st where st: "sts = [st]" "status_for fs counts (0, key, Some l) st"
    using lim by (auto simp: limited_def list_all2_Cons1)
  have c: "\<not> fs ! 0 \<longrightarrow> counts ! 0 = of_nat (count_of this cnt s key) + h"
    "count_of this cnt t key = count_of this cnt s key + (if fs ! 0 then 0 else unat h)"
    using lim k by (auto simp: limited_def items_counted_def)
  obtain reset where "st = answer (fs ! 0) l (counts ! 0) reset"
    using st(2) by (auto simp: status_for_def)
  then have a: "st = answer (fs ! 0) l (of_nat (count_of this cnt s key) + h) reset"
    using c(1) by (cases "fs ! 0") (auto simp: answer_def exceeded_def)
  have "cached contents (localCache t) \<subseteq> cached contents (localCache s) \<union>
      {ck_Key (fst (snd item)) | item. item \<in> set ?items \<and> item_exceeded fs counts item}"
    using lim by (simp add: limited_def)
  then have "ck_Key key \<in> cached contents (localCache t) \<longrightarrow> ck_Key key \<in> cached contents (localCache s) \<or>
      exceeded False l (of_nat (count_of this cnt s key) + h)"
    using c(1) by (auto simp: item_exceeded_def)
  moreover have "fs ! 0 \<longrightarrow> ck_Key key \<in> cached contents (localCache s)" "now_at t = now_at s"
    using lim by (auto simp: limited_def found_in_def)
  ultimately show ?thesis using run st(1) a c(2) by blast
qed

section \<open>A window of requests\<close>

text \<open>
  What is known of a key after \<open>sofar\<close> hits were asked for: its counter holds them all, or both
  are above the limit; and the key is in the local cache only if the limit was exceeded.
\<close>

definition window_inv ::
  "('lc \<Rightarrow> string set) \<Rightarrow> fixedRateLimitCacheImpl \<Rightarrow> ('r \<Rightarrow> string \<Rightarrow> nat) \<Rightarrow> RateLimit \<Rightarrow> CacheKey \<Rightarrow> nat
    \<Rightarrow> ('lc, 'r, 'x) redis_state_scheme \<Rightarrow> bool" where
  "window_inv contents this cnt l key sofar s \<longleftrightarrow>
     (let c = count_of this cnt s key; lim = unat (RequestsPerUnit (Limit l)) in
      c \<le> sofar \<and> (c = sofar \<or> lim < c) \<and>
      (ck_Key key \<in> cached contents (localCache s) \<longrightarrow> lim < sofar))"

definition hits_of :: "RateLimitRequest \<Rightarrow> u32" where
  "hits_of rq = Max_u32 1 (HitsAddend rq)"

lemma exceeded_nat:
  assumes "c + unat h < 2 ^ 32"
  shows "exceeded False l (of_nat c + h) \<longleftrightarrow> unat (RequestsPerUnit (Limit l)) < c + unat h"
proof -
  have "unat (of_nat c :: u32) = c" using assms by (simp add: unat_of_nat)
  then have "unat (of_nat c + h) = c + unat h" using assms by (simp add: unat_add_no_wrap)
  then show ?thesis by (simp add: exceeded_def word_less_nat_alt)
qed

lemma window_step:
  fixes s :: "('lc, 'r, 'x) redis_state_scheme"
  assumes laws: "redis_laws rx cnt" and sound: "cache_sound pf contents"
    and stop: "\<not> stopCacheKeyIncrementWhenOverlimit this"
    and unit: "valid_unit (lim_Unit (Limit l))"
    and rq: "Domain rq = dn" "Descriptors rq = [de]"
    and key: "key = cache_key (baseRateLimiter this) dn (now_at s (reads s)) (de, Some l)"
    and inv: "window_inv contents this cnt l key sofar s" and bound: "sofar + unat (hits_of rq) < 2 ^ 32"
  shows "\<exists>st t. DoLimit pf rx this rq [Some l] s = (Inr [st], t) \<and>
    (Code st = OVER_LIMIT \<longleftrightarrow>
       unat (RequestsPerUnit (Limit l)) < sofar + unat (hits_of rq) \<and> \<not> ShadowMode l) \<and>
    (Code st = OVER_LIMIT \<or> Code st = OK) \<and>
    window_inv contents this cnt l key (sofar + unat (hits_of rq)) t \<and> now_at t = now_at s"
proof -
  let ?c = "count_of this cnt s key" and ?h = "hits_of rq" and ?lim = "unat (RequestsPerUnit (Limit l))"
  have b: "?c + unat ?h < 2 ^ 32" using inv bound by (simp add: window_inv_def Let_def)
  obtain found reset t where run: "DoLimit pf rx this rq [Some l] s =
      (Inr [answer found l (of_nat ?c + ?h) reset], t)"
    and f: "found \<longrightarrow> ck_Key key \<in> cached contents (localCache s)"
    and c: "count_of this cnt t key = ?c + (if found then 0 else unat ?h)"
    and now: "now_at t = now_at s"
    and lc: "ck_Key key \<in> cached contents (localCache t) \<longrightarrow> ck_Key key \<in> cached contents (localCache s) \<or>
      exceeded False l (of_nat ?c + ?h)"
    using DoLimit_single [OF laws sound stop unit rq key hits_of_def b] by blast
  have ex: "exceeded found l (of_nat ?c + ?h) \<longleftrightarrow> ?lim < sofar + unat ?h"
    using exceeded_nat [OF b, of l] f inv
    by (cases found) (auto simp: exceeded_def [of True] window_inv_def Let_def)
  have "window_inv contents this cnt l key (sofar + unat ?h) t"
    using inv c f lc exceeded_nat [OF b, of l] by (auto simp: window_inv_def Let_def)
  with run ex now show ?thesis
    by (intro exI [of _ "answer found l (of_nat ?c + ?h) reset"] exI [of _ t]) (simp add: answer_def)
qed

text \<open>The hits asked for by the first \<open>n\<close> requests.\<close>

definition asked :: "RateLimitRequest list \<Rightarrow> nat" where
  "asked rqs = sum_list (map (\<lambda>rq. unat (hits_of rq)) rqs)"

definition decisions :: "RateLimit \<Rightarrow> nat \<Rightarrow> RateLimitRequest list \<Rightarrow> Code list" where
  "decisions l sofar rqs =
     map (\<lambda>n. if unat (RequestsPerUnit (Limit l)) < sofar + asked (take (Suc n) rqs) then OVER_LIMIT else OK)
       [0..<length rqs]"

lemma decisions_Cons:
  "decisions l sofar (rq # rqs) =
     (if unat (RequestsPerUnit (Limit l)) < sofar + unat (hits_of rq) then OVER_LIMIT else OK)
     # decisions l (sofar + unat (hits_of rq)) rqs"
  by (simp add: decisions_def map_upt_Suc asked_def add.assoc del: upt_Suc)

lemma window_run:
  fixes s :: "('lc, 'r, 'x) redis_state_scheme"
  assumes laws: "redis_laws rx cnt" and sound: "cache_sound pf contents"
    and stop: "\<not> stopCacheKeyIncrementWhenOverlimit this"
    and unit: "UnitToDivider (lim_Unit (Limit l)) = Inr d" and shadow: "\<not> ShadowMode l"
    and rqs: "\<forall>rq \<in> set rqs. Domain rq = dn \<and> Descriptors rq = [de]"
    and key: "key = cache_key (baseRateLimiter this) dn now (de, Some l)"
    and win: "\<forall>i. window_start d (now_at s i) = window_start d now"
    and inv: "window_inv contents this cnt l key sofar s" and bound: "sofar + asked rqs < 2 ^ 32"
  shows "\<exists>stss t. mapM (\<lambda>rq. DoLimit pf rx this rq [Some l]) rqs s = (Inr stss, t) \<and>
    map (map Code) stss = map (\<lambda>c. [c]) (decisions l sofar rqs)"
  using rqs win inv bound
proof (induction rqs arbitrary: s sofar)
  case Nil
  then show ?case by (simp add: prim_simps decisions_def)
next
  case (Cons rq rqs)
  have v: "valid_unit (lim_Unit (Limit l))" using unit by (auto simp: UnitToDivider_valid)
  have rq: "Domain rq = dn" "Descriptors rq = [de]" using Cons.prems(1) by auto
  have k: "key = cache_key (baseRateLimiter this) dn (now_at s (reads s)) (de, Some l)"
    using Cons.prems(2) key by (simp add: cache_key_Some [OF unit])
  have b: "sofar + unat (hits_of rq) < 2 ^ 32" "sofar + unat (hits_of rq) + asked rqs < 2 ^ 32"
    using Cons.prems(4) by (simp_all add: asked_def)
  obtain st t where one: "DoLimit pf rx this rq [Some l] s = (Inr [st], t)"
    and code: "Code st = OVER_LIMIT \<longleftrightarrow>
        unat (RequestsPerUnit (Limit l)) < sofar + unat (hits_of rq) \<and> \<not> ShadowMode l"
      "Code st = OVER_LIMIT \<or> Code st = OK"
    and inv': "window_inv contents this cnt l key (sofar + unat (hits_of rq)) t" and now: "now_at t = now_at s"
    using window_step [OF laws sound stop v rq k Cons.prems(3) b(1)]
    by (elim exE conjE) (rule that; assumption)
  have rqs': "\<forall>rq \<in> set rqs. Domain rq = dn \<and> Descriptors rq = [de]" using Cons.prems(1) by simp
  have win': "\<forall>i. window_start d (now_at t i) = window_start d now" using Cons.prems(2) now by simp
  obtain stss u where rest: "mapM (\<lambda>rq. DoLimit pf rx this rq [Some l]) rqs t = (Inr stss, u)"
    "map (map Code) stss = map (\<lambda>c. [c]) (decisions l (sofar + unat (hits_of rq)) rqs)"
    using Cons.IH [OF rqs' win' inv' b(2)] by (elim exE conjE) (rule that; assumption)
  have "mapM (\<lambda>rq. DoLimit pf rx this rq [Some l]) (rq # rqs) s = (Inr ([st] # stss), u)"
    using one rest(1) by (simp add: monad_simps)
  then show ?case using rest(2) code shadow by (auto simp: decisions_Cons)
qed

section \<open>Properties\<close>

text \<open>
  The fixed window. Let the counter of a key be zero and the key not be in the local cache, as at
  the start of a window, and let a sequence of requests for one descriptor follow while the clock
  stays in the window, asking for fewer than \<open>2 ^ 32\<close> hits together. Then every request is answered,
  and the \<open>n\<close>-th is \<open>OK\<close> exactly when the hits asked for by the first \<open>n\<close> requests, its own
  included, are within the limit. This holds for any behaviour of the local cache that returns only
  keys that were set.
\<close>

lemma DoLimit_window:
  fixes s :: "('lc, 'r, 'x) redis_state_scheme"
  assumes "redis_laws rx cnt" and "cache_sound pf contents"
    and "\<not> stopCacheKeyIncrementWhenOverlimit this"
    and "UnitToDivider (lim_Unit (Limit l)) = Inr d" and "\<not> ShadowMode l"
    and "\<forall>rq \<in> set rqs. Domain rq = dn \<and> Descriptors rq = [de]"
    and "key = cache_key (baseRateLimiter this) dn now (de, Some l)"
    and "\<forall>i. window_start d (now_at s i) = window_start d now"
    and "count_of this cnt s key = 0" and "ck_Key key \<notin> cached contents (localCache s)"
    and "asked rqs < 2 ^ 32"
  shows "\<exists>stss t. mapM (\<lambda>rq. DoLimit pf rx this rq [Some l]) rqs s = (Inr stss, t) \<and>
    length stss = length rqs \<and>
    (\<forall>n < length rqs. map Code (stss ! n) =
       [if asked (take (Suc n) rqs) \<le> unat (RequestsPerUnit (Limit l)) then OK else OVER_LIMIT])"
proof -
  have "window_inv contents this cnt l key 0 s"
    using assms(9,10) by (simp add: window_inv_def)
  then obtain stss t where run: "mapM (\<lambda>rq. DoLimit pf rx this rq [Some l]) rqs s = (Inr stss, t)"
    and codes: "map (map Code) stss = map (\<lambda>c. [c]) (decisions l 0 rqs)"
    using window_run [OF assms(1-8), of 0] assms(11) by auto
  have len: "length stss = length rqs"
    using arg_cong [OF codes, of length] by (simp add: decisions_def)
  have "map Code (stss ! n) =
       [if asked (take (Suc n) rqs) \<le> unat (RequestsPerUnit (Limit l)) then OK else OVER_LIMIT]"
    if n: "n < length rqs" for n
  proof -
    have "map Code (stss ! n) = map (map Code) stss ! n" using n len by simp
    also have "\<dots> = [decisions l 0 rqs ! n]" unfolding codes using n by (simp add: decisions_def)
    finally show ?thesis using n by (auto simp: decisions_def)
  qed
  with run len show ?thesis by blast
qed

lemma DoLimit_window_witness:
  "\<exists>stss t. mapM (\<lambda>rq. DoLimit set_cache counter_server sample_redis rq [Some sample_limit])
      (replicate 3 \<lparr>Domain = ''d'', Descriptors = [sample_request ''a'' ''b''], HitsAddend = 4\<rparr>)
      sample_redis_state = (Inr stss, t) \<and>
    map Code (stss ! 1) = [OK] \<and> map Code (stss ! 2) = [OVER_LIMIT]"
proof -
  let ?rq = "\<lparr>Domain = ''d'', Descriptors = [sample_request ''a'' ''b''], HitsAddend = 4\<rparr>"
  let ?key = "cache_key (baseRateLimiter sample_redis) ''d'' 1234 (sample_request ''a'' ''b'', Some sample_limit)"
  have h: "unat (hits_of ?rq) = 4" by (simp add: hits_of_def max_def)
  have asked: "asked (replicate n ?rq) = 4 * n" for n by (induction n) (simp_all add: asked_def h)
  have l: "UnitToDivider (lim_Unit (Limit sample_limit)) = Inr 60" "\<not> ShadowMode sample_limit"
    "unat (RequestsPerUnit (Limit sample_limit)) = 10"
    by (simp_all add: sample_limit_def NewRateLimit_def)
  have stop: "\<not> stopCacheKeyIncrementWhenOverlimit sample_redis"
    by (simp add: sample_redis_def NewFixedRateLimitCacheImpl_def)
  have "\<exists>stss t. mapM (\<lambda>rq. DoLimit set_cache counter_server sample_redis rq [Some sample_limit])
      (replicate 3 ?rq) sample_redis_state = (Inr stss, t) \<and> length stss = length (replicate 3 ?rq) \<and>
    (\<forall>n < length (replicate 3 ?rq). map Code (stss ! n) =
       [if asked (take (Suc n) (replicate 3 ?rq)) \<le> unat (RequestsPerUnit (Limit sample_limit)) then OK else OVER_LIMIT])"
    by (rule DoLimit_window [OF counter_server_laws set_cache_sound stop l(1,2), where key = ?key and now = 1234])
      (simp_all add: sample_redis_state_def count_of_def cached_def asked)
  then obtain stss t where run: "mapM (\<lambda>rq. DoLimit set_cache counter_server sample_redis rq [Some sample_limit])
      (replicate 3 ?rq) sample_redis_state = (Inr stss, t)"
    and codes: "\<And>n. n < 3 \<Longrightarrow> map Code (stss ! n) =
       [if asked (take (Suc n) (replicate 3 ?rq)) \<le> 10 then OK else OVER_LIMIT]"
    unfolding l(3) by auto
  have "map Code (stss ! 1) = [OK]" "map Code (stss ! 2) = [OVER_LIMIT]"
    using codes [of 1] codes [of 2] by (simp_all only: take_replicate asked) simp_all
  with run show ?thesis by (intro exI conjI)
qed

end
