(* ===== verification/Redis_Contract.thy ===== *)
theory Redis_Contract
  imports Redis_Cache
begin

text \<open>
  The redis back end keeps the contract of \<open>RateLimitCache\<close>, in both modes and for any behaviour
  of the servers: it answers every descriptor, or panics with a \<open>RedisError\<close>.
\<close>

definition is_RedisError :: "panic \<Rightarrow> bool" where
  "is_RedisError p = (\<exists>e. p = RedisError e)"

text \<open>A pipeline for the dedicated client exists only if there is one.\<close>

definition vars_ok :: "fixedRateLimitCacheImpl \<Rightarrow> DoLimit_vars \<Rightarrow> bool" where
  "vars_ok this v \<longleftrightarrow>
     (perSecondPipelineToGet v \<noteq> None \<or> perSecondPipeline v \<noteq> None \<longrightarrow> perSecondClient this \<noteq> None)"

lemma IsOverLimitWithLocalCache_runs:
  "runs E (IsOverLimitWithLocalCache pf k) s (\<lambda>b t. True)"
  by (cases "localCache s") (auto simp: runs_def IsOverLimitWithLocalCache_def split: prod.split)

lemma nonnil_runs: "p = Some x \<Longrightarrow> runs E (nonnil p) s (\<lambda>y t. y = x)"
  by (simp add: runs_def monad_simps)

lemma item_ok_limit:
  assumes "item_ok (i, key, lim)" and "ck_Key key \<noteq> ''''"
  obtains l where "lim = Some l" and "valid_unit (lim_Unit (Limit l))"
  using assms by (auto simp: item_ok_def limit_ok_def)

lemma check_and_get_runs:
  assumes "item_ok item" and "vars_ok this v"
  shows "runs E (check_and_get pf this item v) s (\<lambda>w t. vars_ok this w)"
proof -
  obtain i key lim where item: "item = (i, key, lim)" by (cases item)
  show ?thesis
  proof (cases "ck_Key key = ''''")
    case True
    then show ?thesis using assms(2) by (simp add: item check_and_get_def runs_ret)
  next
    case False
    then obtain l where "lim = Some l" using assms(1) item by (auto elim: item_ok_limit)
    then show ?thesis
      using False assms(2)
      by (auto simp: item check_and_get_def vars_ok_def usePerSecond_def monad_simps
          intro!: runs_bind [OF IsOverLimitWithLocalCache_runs] runs_bind [OF nonnil_runs] runs_ret)
  qed
qed

lemma check_local_runs:
  assumes "item_ok item" and "vars_ok this v"
  shows "runs E (check_local pf item v) s (\<lambda>w t. vars_ok this w)"
proof -
  obtain i key lim where item: "item = (i, key, lim)" by (cases item)
  show ?thesis
  proof (cases "ck_Key key = ''''")
    case True
    then show ?thesis using assms(2) by (simp add: item check_local_def runs_ret)
  next
    case False
    then obtain l where "lim = Some l" using assms(1) item by (auto elim: item_ok_limit)
    then show ?thesis
      using False assms(2)
      by (auto simp: item check_local_def vars_ok_def
          intro!: runs_bind [OF IsOverLimitWithLocalCache_runs] runs_bind [OF nonnil_runs] runs_ret)
  qed
qed

lemma check_near_runs:
  assumes "item_ok item" and "vars_ok this v"
  shows "runs E (check_near hits item v) s (\<lambda>w t. vars_ok this w)"
proof -
  obtain i key lim where item: "item = (i, key, lim)" by (cases item)
  show ?thesis
  proof (cases "ck_Key key = ''''")
    case True
    then show ?thesis using assms(2) by (simp add: item check_near_def runs_ret)
  next
    case False
    then obtain l where "lim = Some l" using assms(1) item by (auto elim: item_ok_limit)
    then show ?thesis
      using False assms(2)
      by (auto simp: item check_near_def Let_def runs_def monad_simps IsOverLimitThresholdReached_def
          NewRateLimitInfo_def vars_ok_def)
  qed
qed

lemma setup_runs:
  assumes "item_ok item" and "vars_ok this v"
  shows "runs E (setup_pipeline this hits item v) s (\<lambda>w t. vars_ok this w)"
proof -
  obtain i key lim where item: "item = (i, key, lim)" by (cases item)
  show ?thesis
  proof (cases "ck_Key key = '''' \<or> overlimitIndexes v ! i")
    case True
    then show ?thesis using assms(2) by (simp add: item setup_pipeline_def runs_ret)
  next
    case False
    then obtain e m where "setup_pipeline this hits item v s =
      (Inr (if usePerSecond this key
      then v\<lparr>perSecondPipeline := Some (started (perSecondPipeline v) @ inc_cmds i (ck_Key key)
        (if nearlimitIndexes v ! i then hits else hitsAddendForRedis v) e)\<rparr>
      else v\<lparr>pipeline := Some (started (pipeline v) @ inc_cmds i (ck_Key key)
        (if nearlimitIndexes v ! i then hits else hitsAddendForRedis v) e)\<rparr>), s\<lparr>draws := m\<rparr>)"
      using setup_step [of i key lim v this hits s] assms(1) item by auto
    then show ?thesis
      by (rule runs_eq) (use assms(2) in \<open>auto simp: vars_ok_def usePerSecond_def\<close>)
  qed
qed

lemma run_pipeline_runs: "runs is_RedisError (run_pipeline rx c p arr) s (\<lambda>_ _. True)"
  by (cases p)
    (auto simp: run_pipeline_def runs_def monad_simps is_RedisError_def split: prod.splits option.splits)

lemma run_perSecondPipeline_runs:
  "(p \<noteq> None \<longrightarrow> perSecond \<noteq> None) \<Longrightarrow>
   runs is_RedisError (run_perSecondPipeline rx perSecond p arr) s (\<lambda>_ _. True)"
  by (cases p; cases perSecond)
    (auto simp: run_perSecondPipeline_def runs_def monad_simps is_RedisError_def
      split: prod.splits option.splits)

lemma fetch_runs:
  assumes "item_ok item"
  shows "runs E (fetch_status pf this hits v item) s (\<lambda>st t. status_ok (snd (snd item)) st)"
proof -
  obtain i key lim where item: "item = (i, key, lim)" by (cases item)
  let ?info = "NewRateLimitInfo lim (results v ! i - hits) (results v ! i) 0 0"
  have "runs E (GetResponseDescriptorStatus pf (baseRateLimiter this) (ck_Key key) ?info
      (isOverLimitWithLocalCache v ! i) hits) s (\<lambda>st t. status_ok (li_limit ?info) st)"
    by (rule GetResponseDescriptorStatus_runs)
      (use assms in \<open>simp_all add: item item_ok_def NewRateLimitInfo_def\<close>)
  then show ?thesis by (simp add: item fetch_status_def Let_def NewRateLimitInfo_def)
qed

lemma stop_check_runs:
  assumes "list_all item_ok items" and "vars_ok this v"
  shows "runs is_RedisError (stop_check pf rx this hits items v) s (\<lambda>w t. vars_ok this w)"
  unfolding stop_check_def
proof (rule runs_bind)
  show "runs is_RedisError (foldM (check_and_get pf this) items v) s (\<lambda>w t. vars_ok this w)"
    by (rule runs_foldM) (use assms in \<open>auto simp: list_all_iff intro: check_and_get_runs\<close>)
next
  fix w t assume w: "vars_ok this w"
  have near: "runs is_RedisError (foldM (check_near hits) items (w\<lparr>currentCount := c\<rparr>)) u
      (\<lambda>w t. vars_ok this w)" for c u
    by (rule runs_foldM)
      (use assms(1) w in \<open>auto simp: list_all_iff vars_ok_def [of this "w\<lparr>currentCount := c\<rparr>"]
        vars_ok_def [of this w] intro: check_near_runs\<close>)
  have ps: "perSecondPipelineToGet w \<noteq> None \<longrightarrow> perSecondClient this \<noteq> None"
    using w by (auto simp: vars_ok_def)
  show "runs is_RedisError
      (if length items > 1 \<and> \<not> isCacheKeyOverlimit w
       then bind (run_pipeline rx (client this) (pipelineToGet w) (currentCount w)) (\<lambda>counts.
         bind (run_perSecondPipeline rx (perSecondClient this) (perSecondPipelineToGet w) counts)
           (\<lambda>counts. foldM (check_near hits) items (w\<lparr>currentCount := counts\<rparr>)))
       else ret w) t (\<lambda>w t. vars_ok this w)"
    using w near
    by (auto intro!: runs_ret runs_bind [OF run_pipeline_runs]
        runs_bind [OF run_perSecondPipeline_runs [OF ps]])
qed

lemma DoLimit_runs:
  assumes len: "length (Descriptors request) = length lims" and ok: "list_all limit_ok lims"
  shows "runs is_RedisError (DoLimit pf rx this request lims) s (\<lambda>sts t. list_all2 status_ok lims sts)"
proof -
  let ?hits = "Max_u32 1 (HitsAddend request)"
  let ?n = "length (Descriptors request)"
  let ?items = "request_items this request lims (now_at s (reads s))"
  let ?keys = "map (cache_key (baseRateLimiter this) (Domain request) (now_at s (reads s)))
    (zip (Descriptors request) lims)"
  have items: "list_all item_ok ?items" "map (snd \<circ> snd) ?items = lims"
    using request_items_ok [OF ok len] by simp_all
  have v0: "vars_ok this (initial_vars ?n ?hits)" by (simp add: vars_ok_def initial_vars_def)
  have gen: "runs is_RedisError (GenerateCacheKeys (baseRateLimiter this) request lims ?hits) s
      (\<lambda>keys t. keys = ?keys)"
    by (rule runs_eq [OF GenerateCacheKeys_apply [OF ok len]]) simp
  have first: "runs is_RedisError (if stopCacheKeyIncrementWhenOverlimit this
      then stop_check pf rx this ?hits ?items (initial_vars ?n ?hits)
      else foldM (check_local pf) ?items (initial_vars ?n ?hits)) t (\<lambda>w t. vars_ok this w)" for t
    using items(1) v0
    by (auto simp: list_all_iff intro!: stop_check_runs runs_foldM check_local_runs)
  have second: "runs is_RedisError (foldM (setup_pipeline this ?hits) ?items v) t (\<lambda>w t. vars_ok this w)"
    if "vars_ok this v" for v t
    by (rule runs_foldM) (use items(1) that in \<open>auto simp: list_all_iff intro: setup_runs\<close>)
  have last: "runs is_RedisError (mapM (fetch_status pf this ?hits v) ?items) t
      (\<lambda>sts t. list_all2 status_ok lims sts)" for v t
  proof -
    have "runs is_RedisError (mapM (fetch_status pf this ?hits v) ?items) t
        (\<lambda>sts t. list_all2 (\<lambda>item st. status_ok (snd (snd item)) st) ?items sts \<and> True)"
      by (rule runs_mapM) (use items(1) in \<open>auto simp: list_all_iff intro!: runs_conseq [OF fetch_runs]\<close>)
    then show ?thesis
      by (rule runs_conseq)
        (use items(2) in \<open>auto simp: list_all2_map1 [of status_ok "snd \<circ> snd" ?items, unfolded items(2)]\<close>)
  qed
  have ps: "vars_ok this v \<Longrightarrow> perSecondPipeline v \<noteq> None \<longrightarrow> perSecondClient this \<noteq> None" for v
    by (auto simp: vars_ok_def)
  show ?thesis
    unfolding DoLimit_def Let_def
    by (rule runs_bind [OF gen], simp only: request_items_def [symmetric], rule runs_bind [OF first],
        rule runs_bind [OF second], assumption, rule runs_bind [OF run_pipeline_runs],
        rule runs_bind [OF run_perSecondPipeline_runs [OF ps]], assumption, rule last)
qed

interpretation redis: rate_limit_cache "DoLimit pf rx this" is_RedisError for pf rx this
  by unfold_locales (rule DoLimit_runs)

section \<open>Lemmas: unavailable servers\<close>

definition server_down :: "'r radix \<Rightarrow> bool" where
  "server_down rx \<longleftrightarrow> (\<forall>c r. \<exists>e r'. rx_Do rx c r = (Inl e, r')) \<and>
     (\<forall>cs r. cs \<noteq> [] \<longrightarrow> (\<exists>e r'. rx_Pipeline rx cs r = (Inl e, r')))"

lemma PipeDo_down:
  assumes "server_down rx" and "cs \<noteq> []"
  shows "\<exists>e arr' r'. PipeDo rx c cs arr r = ((Some e, arr'), r')"
proof -
  obtain a as where cs: "cs = a # as" using assms(2) by (cases cs) auto
  obtain e r' where "rx_Do rx a r = (Inl e, r')" using assms(1) unfolding server_down_def by blast
  moreover obtain e2 r2 where "rx_Pipeline rx cs r = (Inl e2, r2)"
    using assms unfolding server_down_def by blast
  ultimately show ?thesis by (simp add: PipeDo_def cs)
qed

lemma check_local_no_cache:
  assumes "localCache s = None"
  shows "check_local pf item v s = (Inr v, s)"
  using assms
  by (cases item) (simp add: check_local_def IsOverLimitWithLocalCache_def monad_simps)

lemma check_local_loop_no_cache:
  "localCache s = None \<Longrightarrow> foldM (check_local pf) items v s = (Inr v, s)"
  by (induction items arbitrary: v) (simp_all add: prim_simps bind_apply check_local_no_cache)

lemma run_pipeline_down:
  assumes "server_down rx" and "p \<noteq> []"
  shows "runs is_RedisError (run_pipeline rx c (extend None p) arr) s (\<lambda>_ _. False)"
proof -
  obtain e arr' r' where "PipeDo rx c p arr (redis s) = ((Some e, arr'), r')"
    using PipeDo_down [OF assms] by blast
  then show ?thesis
    using assms(2)
    by (simp add: run_pipeline_def extend_def started_def runs_def monad_simps is_RedisError_def)
qed

lemma run_perSecondPipeline_down:
  assumes "server_down rx" and "p \<noteq> []" and "perSecond \<noteq> None"
  shows "runs is_RedisError (run_perSecondPipeline rx perSecond (extend None p) arr) s (\<lambda>_ _. False)"
proof -
  obtain c where c: "perSecond = Some c" using assms(3) by auto
  obtain e arr' r' where "PipeDo rx c p arr (perSecondRedis s) = ((Some e, arr'), r')"
    using PipeDo_down [OF assms(1,2)] by blast
  then show ?thesis
    using assms(2) c
    by (simp add: run_perSecondPipeline_def extend_def started_def runs_def monad_simps is_RedisError_def)
qed

lemma inc_pipe_Nil: "inc_pipe ops = [] \<longleftrightarrow> ops = []"
  by (cases ops) (auto simp: inc_pipe_def inc_cmds_def)

lemma ops_of_some:
  assumes "(i, key, lim) \<in> set items" and "ck_Key key \<noteq> ''''" and "\<not> skip ! i"
  shows "ops_of this False skip amount e items \<noteq> [] \<or>
    ops_of this True skip amount e items \<noteq> [] \<and> perSecondClient this \<noteq> None"
proof (cases "usePerSecond this key")
  case True
  then have "(i, ck_Key key, amount i, e i) \<in> set (ops_of this True skip amount e items)"
    using assms by (auto simp: ops_of_set)
  then show ?thesis using True by (auto simp: usePerSecond_def)
next
  case False
  then have "(i, ck_Key key, amount i, e i) \<in> set (ops_of this False skip amount e items)"
    using assms by (auto simp: ops_of_set)
  then show ?thesis by auto
qed

lemma DoLimit_down:
  fixes s :: "('lc, 'r, 'x) redis_state_scheme"
  assumes down: "server_down rx" and stop: "\<not> stopCacheKeyIncrementWhenOverlimit this"
    and len: "length (Descriptors request) = length lims" and ok: "list_all limit_ok lims"
    and some: "\<exists>l. Some l \<in> set lims" and lc: "localCache s = None"
  shows "runs is_RedisError (DoLimit pf rx this request lims) s (\<lambda>_ _. False)"
proof -
  let ?hits = "Max_u32 1 (HitsAddend request)"
  let ?n = "length (Descriptors request)"
  let ?items = "request_items this request lims (now_at s (reads s))"
  let ?keys = "map (cache_key (baseRateLimiter this) (Domain request) (now_at s (reads s)))
    (zip (Descriptors request) lims)"
  let ?v = "initial_vars ?n ?hits"
  have items: "list_all item_ok ?items" "map fst ?items = [0..<length lims]" "map (snd \<circ> snd) ?items = lims"
    using request_items_ok [OF ok len] by simp_all
  then have dist: "distinct (map fst ?items)" by simp
  obtain l where "Some l \<in> set (map (snd \<circ> snd) ?items)" using some items(3) by auto
  then obtain i key where it: "(i, key, Some l) \<in> set ?items" by force
  have k: "ck_Key key \<noteq> ''''" using items(1) it by (auto simp: list_all_iff item_ok_def)
  have "i \<in> set (map fst ?items)" using it by force
  then have i: "\<not> overlimitIndexes ?v ! i" using len by (simp add: items(2) initial_vars_def)
  have gen: "runs is_RedisError (GenerateCacheKeys (baseRateLimiter this) request lims ?hits) s
      (\<lambda>keys t. keys = ?keys \<and> localCache t = None)"
    by (rule runs_eq [OF GenerateCacheKeys_apply [OF ok len]]) (simp add: lc)
  have first: "runs is_RedisError (foldM (check_local pf) ?items ?v) t (\<lambda>v t. v = ?v)"
    if "localCache t = None" for t :: "('lc, 'r, 'x) redis_state_scheme"
    by (simp add: runs_def check_local_loop_no_cache [OF that])
  have tail: "runs is_RedisError (bind (foldM (setup_pipeline this ?hits) ?items ?v) (\<lambda>v.
      bind (run_pipeline rx (client this) (pipeline v) (results v)) (\<lambda>counts.
      bind (run_perSecondPipeline rx (perSecondClient this) (perSecondPipeline v) counts) (g v)))) t
      (\<lambda>_ _. False)" for g and t :: "('lc, 'r, 'x) redis_state_scheme"
  proof -
    obtain e m where set_up: "foldM (setup_pipeline this ?hits) ?items ?v t =
      (Inr (?v\<lparr>pipeline := extend None (inc_pipe (ops_of this False (overlimitIndexes ?v)
          (\<lambda>i. if nearlimitIndexes ?v ! i then ?hits else hitsAddendForRedis ?v) e ?items)),
        perSecondPipeline := extend None (inc_pipe (ops_of this True (overlimitIndexes ?v)
          (\<lambda>i. if nearlimitIndexes ?v ! i then ?hits else hitsAddendForRedis ?v) e ?items))\<rparr>), t\<lparr>draws := m\<rparr>)"
      (is "_ = (Inr ?w, _)")
      using setup_loop [OF items(1) dist refl, of this ?hits ?v t] by (auto simp: initial_vars_def)
    have w: "runs is_RedisError (foldM (setup_pipeline this ?hits) ?items ?v) t (\<lambda>v u. v = ?w)"
      unfolding runs_def set_up by simp
    from ops_of_some [OF it k i] show ?thesis
    proof
      assume "ops_of this False (overlimitIndexes ?v)
        (\<lambda>i. if nearlimitIndexes ?v ! i then ?hits else hitsAddendForRedis ?v) e ?items \<noteq> []"
      then show ?thesis
        by (intro runs_bind [OF w])
          (auto simp: inc_pipe_Nil intro!: runs_bind [OF run_pipeline_down [OF down]])
    next
      assume "ops_of this True (overlimitIndexes ?v)
        (\<lambda>i. if nearlimitIndexes ?v ! i then ?hits else hitsAddendForRedis ?v) e ?items \<noteq> [] \<and>
        perSecondClient this \<noteq> None"
      then show ?thesis
        by (intro runs_bind [OF w])
          (auto simp: inc_pipe_Nil intro!: runs_bind [OF run_pipeline_runs]
            runs_bind [OF run_perSecondPipeline_down [OF down]])
    qed
  qed
  show ?thesis
    unfolding DoLimit_def Let_def
  proof (rule runs_bind [OF gen], elim conjE)
    fix keys and t :: "('lc, 'r, 'x) redis_state_scheme" assume "keys = ?keys" and t: "localCache t = None"
    then show "runs is_RedisError (bind (if stopCacheKeyIncrementWhenOverlimit this
        then stop_check pf rx this ?hits (zip [0..<?n] (zip keys lims)) ?v
        else foldM (check_local pf) (zip [0..<?n] (zip keys lims)) ?v) (\<lambda>v.
      bind (foldM (setup_pipeline this ?hits) (zip [0..<?n] (zip keys lims)) v) (\<lambda>v.
      bind (run_pipeline rx (client this) (pipeline v) (results v)) (\<lambda>counts.
      bind (run_perSecondPipeline rx (perSecondClient this) (perSecondPipeline v) counts) (\<lambda>counts.
      mapM (fetch_status pf this ?hits (v\<lparr>results := counts\<rparr>)) (zip [0..<?n] (zip keys lims))))))) t
      (\<lambda>_ _. False)"
      using stop
      by (simp only: request_items_def [symmetric] if_False) (rule runs_bind [OF first [OF t]], simp only: tail)
  qed
qed

section \<open>Properties\<close>

text \<open>
  C8. The contract. For as many limits as descriptors, all with valid units, and whatever the redis
  servers, the local cache and the clock do, \<open>DoLimit\<close> either returns one status per descriptor, in
  order, each correct for its limit (\<open>OVER_LIMIT\<close> only for a limit that is not in shadow mode, and
  with nothing remaining), or panics with a \<open>RedisError\<close>: never with a nil pointer, an assertion or
  a string.
\<close>

theorem DoLimit_contract:
  assumes "length (Descriptors request) = length lims" and "list_all limit_ok lims"
  shows "case DoLimit pf rx this request lims s of
      (Inr sts, t) \<Rightarrow> list_all2 status_ok lims sts
    | (Inl p, t) \<Rightarrow> \<exists>e. p = RedisError e"
  using redis.do_limit_runs [OF assms, where pf = pf and rx = rx and this = this and s = s]
  unfolding runs_def is_RedisError_def .

theorem DoLimit_contract_witness:
  "case DoLimit set_cache counter_server sample_redis (sample_rl_request 3) [Some sample_limit, None]
      sample_redis_state of
      (Inr sts, t) \<Rightarrow> list_all2 status_ok [Some sample_limit, None] sts
    | (Inl p, t) \<Rightarrow> \<exists>e. p = RedisError e"
  by (rule DoLimit_contract)
    (simp_all add: sample_rl_request_def limit_ok_def sample_limit_def NewRateLimit_def)

text \<open>
  Failures are reported. If the servers answer every command with an error and there is no local
  cache, then a request with at least one limit makes \<open>DoLimit\<close> panic with a \<open>RedisError\<close>: no
  request is granted or rejected without having been counted.
\<close>

lemma DoLimit_reports_failure:
  assumes "server_down rx" and "\<not> stopCacheKeyIncrementWhenOverlimit this"
    and "length (Descriptors request) = length lims" and "list_all limit_ok lims"
    and "\<exists>l. Some l \<in> set lims" and "localCache s = None"
  shows "\<exists>e t. DoLimit pf rx this request lims s = (Inl (RedisError e), t)"
  using DoLimit_down [OF assms] by (cases rule: runs_cases) (auto simp: is_RedisError_def)

definition dead_server :: "(string \<Rightarrow> nat) radix" where
  "dead_server = counter_server\<lparr>rx_Do := (\<lambda>_ r. (Inl ''EOF'', r)), rx_Pipeline := (\<lambda>_ r. (Inl ''EOF'', r))\<rparr>"

lemma DoLimit_reports_failure_witness:
  "\<exists>e t. DoLimit set_cache dead_server sample_redis (sample_rl_request 3) [Some sample_limit, None]
      (sample_redis_state\<lparr>localCache := None\<rparr>) = (Inl (RedisError e), t)"
  by (rule DoLimit_reports_failure)
    (simp_all add: server_down_def dead_server_def sample_redis_def NewFixedRateLimitCacheImpl_def
      sample_rl_request_def limit_ok_def sample_limit_def NewRateLimit_def)


end
