(* ===== verification/Redis_Stop.thy ===== *)
theory Redis_Stop
  imports Redis_Contract
begin

text \<open>
  The mode \<open>stopCacheKeyIncrementWhenOverlimit\<close> of the redis back end: what is counted for a request
  with several limits when one of them rejects it.
\<close>

section \<open>Lemmas: reading the counters\<close>











section \<open>Lemmas: the loops\<close>
















section \<open>Properties\<close>






end
