(* ===== verification/Redis_Steps.thy ===== *)
theory Redis_Steps
  imports Redis_Cache
begin

text \<open>
  \<open>DoLimit\<close> of the redis back end (without the mode that stops counting) as a sequence of steps, split
  where it talks to a server: a step prepares the pipelines, or has one command executed, or turns the
  replies into statuses. Run alone, the steps are \<open>DoLimit\<close>; \<open>Redis_Concurrent\<close> interleaves
  the steps of many requests.
\<close>

section \<open>The steps of a request\<close>

text \<open>
  Where a request is in \<open>DoLimit\<close>: at its beginning, with commands still to be executed on either
  redis, or past it. The items and the local variables are those of \<open>DoLimit\<close>; \<open>results\<close> holds the
  replies received so far.
\<close>

datatype call_state =
    Arrived
  | Counting "item list" DoLimit_vars Pipeline Pipeline
  | Answered "item list" DoLimit_vars "DescriptorStatus list"
  | Panicked panic

record call =
  rc_request :: RateLimitRequest
  rc_limits :: "RateLimit option list"
  rc_state :: call_state

definition rc_hits :: "call \<Rightarrow> u32" where
  "rc_hits c = Max_u32 1 (HitsAddend (rc_request c))"

lemma rc_hits_state [simp]: "rc_hits (c\<lparr>rc_state := st\<rparr>) = rc_hits c"
  by (simp add: rc_hits_def)

definition prepare ::
  "'lc platform \<Rightarrow> fixedRateLimitCacheImpl \<Rightarrow> RateLimitRequest \<Rightarrow> RateLimit option list
    \<Rightarrow> (('lc, 'r, 'x) redis_state_scheme, call_state) M" where
  "prepare pf this request lims =
     (let hitsAddend = Max_u32 1 (HitsAddend request) in
      bind (GenerateCacheKeys (baseRateLimiter this) request lims hitsAddend) (\<lambda>cacheKeys.
      let n = length (Descriptors request); items = zip [0..<n] (zip cacheKeys lims) in
      bind (foldM (check_local pf) items (initial_vars n hitsAddend)) (\<lambda>v.
      bind (foldM (setup_pipeline this hitsAddend) items v) (\<lambda>v.
      ret (Counting items v (started (pipeline v)) (started (perSecondPipeline v)))))))"

text \<open>One command, on the redis that \<open>get\<close> and \<open>put\<close> select; an error panics.\<close>

definition command ::
  "'r radix \<Rightarrow> ('s \<Rightarrow> 'r) \<Rightarrow> ('r \<Rightarrow> 's \<Rightarrow> 's) \<Rightarrow> FlatCmd \<Rightarrow> DoLimit_vars \<Rightarrow> ('s, DoLimit_vars) M" where
  "command rx get put c v = (\<lambda>s.
     case rx_Do rx c (get s) of
       (Inl err, r) \<Rightarrow> (Inl (RedisError err), put r s)
     | (Inr x, r) \<Rightarrow> (Inr (v\<lparr>results := receive c x (results v)\<rparr>), put r s))"

definition on_redis :: "'r radix \<Rightarrow> FlatCmd \<Rightarrow> DoLimit_vars \<Rightarrow> (('lc, 'r, 'x) redis_state_scheme, DoLimit_vars) M" where
  "on_redis rx = command rx redis (\<lambda>r s. s\<lparr>redis := r\<rparr>)"

definition on_perSecondRedis ::
  "'r radix \<Rightarrow> FlatCmd \<Rightarrow> DoLimit_vars \<Rightarrow> (('lc, 'r, 'x) redis_state_scheme, DoLimit_vars) M" where
  "on_perSecondRedis rx = command rx perSecondRedis (\<lambda>r s. s\<lparr>perSecondRedis := r\<rparr>)"

fun advance ::
  "'lc platform \<Rightarrow> 'r radix \<Rightarrow> fixedRateLimitCacheImpl \<Rightarrow> RateLimitRequest \<Rightarrow> RateLimit option list \<Rightarrow> call_state
    \<Rightarrow> (('lc, 'r, 'x) redis_state_scheme, call_state) M" where
  "advance pf rx this request lims Arrived = prepare pf this request lims"
| "advance pf rx this request lims (Counting items v (c # cs) ps) =
     bind (on_redis rx c v) (\<lambda>v. ret (Counting items v cs ps))"
| "advance pf rx this request lims (Counting items v [] (c # ps)) =
     bind (on_perSecondRedis rx c v) (\<lambda>v. ret (Counting items v [] ps))"
| "advance pf rx this request lims (Counting items v [] []) =
     bind (mapM (fetch_status pf this (Max_u32 1 (HitsAddend request)) v) items) (\<lambda>sts. ret (Answered items v sts))"
| "advance pf rx this request lims (Answered items v sts) = ret (Answered items v sts)"
| "advance pf rx this request lims (Panicked p) = raise p"

fun finished :: "call_state \<Rightarrow> bool" where
  "finished (Answered items v sts) = True"
| "finished (Panicked p) = True"
| "finished _ = False"

text \<open>A request alone, for at most \<open>n\<close> steps.\<close>

fun run_alone ::
  "'lc platform \<Rightarrow> 'r radix \<Rightarrow> fixedRateLimitCacheImpl \<Rightarrow> RateLimitRequest \<Rightarrow> RateLimit option list \<Rightarrow> nat \<Rightarrow> call_state
    \<Rightarrow> (('lc, 'r, 'x) redis_state_scheme, call_state) M" where
  "run_alone pf rx this request lims 0 st = ret st"
| "run_alone pf rx this request lims (Suc n) st =
     (if finished st then ret st
      else bind (advance pf rx this request lims st) (run_alone pf rx this request lims n))"

section \<open>Lemmas: a request alone\<close>

text \<open>\<open>DoLimit\<close> begins with \<open>prepare\<close>.\<close>

definition DoLimit_rest ::
  "'lc platform \<Rightarrow> 'r radix \<Rightarrow> fixedRateLimitCacheImpl \<Rightarrow> u32 \<Rightarrow> item list \<Rightarrow> DoLimit_vars
    \<Rightarrow> (('lc, 'r, 'x) redis_state_scheme, DescriptorStatus list) M" where
  "DoLimit_rest pf rx this hits items v =
     bind (run_pipeline rx (client this) (pipeline v) (results v)) (\<lambda>counts.
     bind (run_perSecondPipeline rx (perSecondClient this) (perSecondPipeline v) counts) (\<lambda>counts.
     mapM (fetch_status pf this hits (v\<lparr>results := counts\<rparr>)) items))"

lemma DoLimit_prepared:
  assumes "\<not> stopCacheKeyIncrementWhenOverlimit this"
  shows "DoLimit pf rx this request lims = bind (prepare pf this request lims) (\<lambda>st.
    case st of Counting items v cs ps \<Rightarrow> DoLimit_rest pf rx this (Max_u32 1 (HitsAddend request)) items v)"
  using assms by (simp add: DoLimit_def prepare_def DoLimit_rest_def Let_def bind_assoc bind_ret)

text \<open>What \<open>prepare\<close> leaves of the pipelines: at most two commands per item, and a second redis only if there is one.\<close>

definition pipes :: "DoLimit_vars \<Rightarrow> nat" where
  "pipes v = length (started (pipeline v)) + length (started (perSecondPipeline v))"

lemma setup_pipes:
  assumes "setup_pipeline this hits item v s = (Inr v', t)"
    and "perSecondPipeline v \<noteq> None \<longrightarrow> perSecondClient this \<noteq> None"
  shows "pipes v' \<le> pipes v + 2 \<and> (perSecondPipeline v' \<noteq> None \<longrightarrow> perSecondClient this \<noteq> None)"
proof -
  have len: "length (pipelineAppend p k n i e) = length p + 2" for p k n i e
    by (simp add: pipelineAppend_def PipeAppend_def)
  show ?thesis
    using assms
    by (cases item) (auto simp: setup_pipeline_def bind_Inr_iff prim_simps Let_def pipes_def len usePerSecond_def
        started_def [of "Some p" for p] split: if_splits)
qed

lemma setup_loop_pipes:
  assumes "foldM (setup_pipeline this hits) items v s = (Inr v', t)"
    and "perSecondPipeline v \<noteq> None \<longrightarrow> perSecondClient this \<noteq> None"
  shows "pipes v' \<le> pipes v + 2 * length items \<and> (perSecondPipeline v' \<noteq> None \<longrightarrow> perSecondClient this \<noteq> None)"
  using assms
proof (induction items arbitrary: v s)
  case Nil
  then show ?case by (simp add: prim_simps)
next
  case (Cons item items)
  then obtain w u where one: "setup_pipeline this hits item v s = (Inr w, u)"
    and rest: "foldM (setup_pipeline this hits) items w u = (Inr v', t)" by (auto simp: bind_Inr_iff)
  from setup_pipes [OF one Cons.prems(2)] Cons.IH [OF rest] show ?case by simp
qed

lemma check_local_pipes:
  assumes "foldM (check_local pf) items v s = (Inr v', t)"
  shows "pipeline v' = pipeline v \<and> perSecondPipeline v' = perSecondPipeline v"
  using assms
proof (induction items arbitrary: v s)
  case Nil
  then show ?case by (simp add: prim_simps)
next
  case (Cons item items)
  then obtain w u where one: "check_local pf item v s = (Inr w, u)"
    and rest: "foldM (check_local pf) items w u = (Inr v', t)" by (auto simp: bind_Inr_iff)
  have "pipeline w = pipeline v \<and> perSecondPipeline w = perSecondPipeline v"
    using one by (cases item) (auto simp: check_local_def bind_Inr_iff prim_simps split: if_splits)
  with Cons.IH [OF rest] show ?case by simp
qed

lemma prepare_pipes:
  assumes "prepare pf this request lims s = (Inr st, t)"
  obtains items v where "st = Counting items v (started (pipeline v)) (started (perSecondPipeline v))"
    and "pipes v \<le> 2 * length (Descriptors request)"
    and "perSecondPipeline v \<noteq> None \<longrightarrow> perSecondClient this \<noteq> None"
proof -
  let ?h = "Max_u32 1 (HitsAddend request)" and ?n = "length (Descriptors request)"
  obtain keys v0 v u1 u2 where loc: "foldM (check_local pf) (zip [0..<?n] (zip keys lims)) (initial_vars ?n ?h) u1 = (Inr v0, u2)"
    and set_up: "foldM (setup_pipeline this ?h) (zip [0..<?n] (zip keys lims)) v0 u2 = (Inr v, t)"
    and st: "st = Counting (zip [0..<?n] (zip keys lims)) v (started (pipeline v)) (started (perSecondPipeline v))"
    using assms by (auto simp: prepare_def Let_def bind_Inr_iff prim_simps)
  have "pipes v0 = 0" "perSecondPipeline v0 = None"
    using check_local_pipes [OF loc] by (simp_all add: pipes_def initial_vars_def started_def)
  with setup_loop_pipes [OF set_up] st show thesis by (intro that) auto
qed

lemma run_alone_finished: "finished st \<Longrightarrow> run_alone pf rx this request lims n st = ret st"
  by (cases n) simp_all

text \<open>The commands one after the other are the pipelines, executed command by command.\<close>

lemma run_commands:
  "run_alone pf rx this request lims (length cs + n) (Counting items v cs ps) s =
     (case PipeDo_each rx cs (results v) (redis s) of
        ((None, arr), r) \<Rightarrow> run_alone pf rx this request lims n (Counting items (v\<lparr>results := arr\<rparr>) [] ps) (s\<lparr>redis := r\<rparr>)
      | ((Some err, arr), r) \<Rightarrow> (Inl (RedisError err), s\<lparr>redis := r\<rparr>))"
proof (induction cs arbitrary: v s)
  case Nil
  then show ?case by simp
next
  case (Cons c cs)
  obtain y r where d: "rx_Do rx c (redis s) = (y, r)" by (cases "rx_Do rx c (redis s)")
  show ?case
  proof (cases y)
    case (Inl err)
    with d show ?thesis by (simp add: on_redis_def command_def monad_simps)
  next
    case (Inr x)
    with d Cons.IH [of "v\<lparr>results := receive c x (results v)\<rparr>" "s\<lparr>redis := r\<rparr>"] show ?thesis
      by (simp add: on_redis_def command_def monad_simps split: prod.split option.split)
  qed
qed

lemma run_perSecond_commands:
  "run_alone pf rx this request lims (length ps + n) (Counting items v [] ps) s =
     (case PipeDo_each rx ps (results v) (perSecondRedis s) of
        ((None, arr), r) \<Rightarrow> run_alone pf rx this request lims n (Counting items (v\<lparr>results := arr\<rparr>) [] []) (s\<lparr>perSecondRedis := r\<rparr>)
      | ((Some err, arr), r) \<Rightarrow> (Inl (RedisError err), s\<lparr>perSecondRedis := r\<rparr>))"
proof (induction ps arbitrary: v s)
  case Nil
  then show ?case by simp
next
  case (Cons c ps)
  obtain y r where d: "rx_Do rx c (perSecondRedis s) = (y, r)" by (cases "rx_Do rx c (perSecondRedis s)")
  show ?case
  proof (cases y)
    case (Inl err)
    with d show ?thesis by (simp add: on_perSecondRedis_def command_def monad_simps)
  next
    case (Inr x)
    with d Cons.IH [of "v\<lparr>results := receive c x (results v)\<rparr>" "s\<lparr>perSecondRedis := r\<rparr>"] show ?thesis
      by (simp add: on_perSecondRedis_def command_def monad_simps split: prod.split option.split)
  qed
qed

lemma run_pipeline_each:
  assumes "implicitPipelining c"
  shows "run_pipeline rx c p arr s =
    (case PipeDo_each rx (started p) arr (redis s) of
       ((None, arr'), r) \<Rightarrow> (Inr arr', s\<lparr>redis := r\<rparr>)
     | ((Some err, arr'), r) \<Rightarrow> (Inl (RedisError err), s\<lparr>redis := r\<rparr>))"
  using assms
  by (cases p) (auto simp: run_pipeline_def started_def PipeDo_def monad_simps split: prod.splits option.splits)

lemma run_perSecondPipeline_each:
  assumes "p \<noteq> None \<longrightarrow> perSecond \<noteq> None" and "\<forall>c. perSecond = Some c \<longrightarrow> implicitPipelining c"
  shows "run_perSecondPipeline rx perSecond p arr s =
    (case PipeDo_each rx (started p) arr (perSecondRedis s) of
       ((None, arr'), r) \<Rightarrow> (Inr arr', s\<lparr>perSecondRedis := r\<rparr>)
     | ((Some err, arr'), r) \<Rightarrow> (Inl (RedisError err), s\<lparr>perSecondRedis := r\<rparr>))"
  using assms
  by (cases p) (auto simp: run_perSecondPipeline_def started_def PipeDo_def monad_simps split: prod.splits option.splits)

text \<open>The end of the steps and the end of \<open>DoLimit\<close>: the same statuses or the same panic, in the same state.\<close>

definition ends_as :: "call_state res \<times> 's \<Rightarrow> DescriptorStatus list res \<times> 's \<Rightarrow> bool" where
  "ends_as x d \<longleftrightarrow>
     (case x of
        (Inr st, t) \<Rightarrow> (\<exists>items v sts. st = Answered items v sts \<and> d = (Inr sts, t))
      | (Inl p, t) \<Rightarrow> d = (Inl p, t))"

lemma run_answer:
  "ends_as (run_alone pf rx this request lims (Suc n) (Counting items v [] []) s)
    (mapM (fetch_status pf this (Max_u32 1 (HitsAddend request)) v) items s)"
  by (auto simp: ends_as_def bind_apply run_alone_finished prim_simps split: prod.splits sum.splits)

lemma run_rest:
  assumes "implicitPipelining (client this)" and "\<forall>c. perSecondClient this = Some c \<longrightarrow> implicitPipelining c"
    and "perSecondPipeline v \<noteq> None \<longrightarrow> perSecondClient this \<noteq> None" and "pipes v < n"
  shows "ends_as (run_alone pf rx this request lims n (Counting items v (started (pipeline v)) (started (perSecondPipeline v))) s)
    (DoLimit_rest pf rx this (Max_u32 1 (HitsAddend request)) items v s)"
proof -
  let ?cs = "started (pipeline v)" and ?ps = "started (perSecondPipeline v)"
  obtain m where n: "n = length ?cs + (length ?ps + Suc m)"
    using assms(4) by (metis add.assoc less_imp_Suc_add pipes_def add_Suc_right)
  obtain e1 arr1 r1 where one: "PipeDo_each rx ?cs (results v) (redis s) = ((e1, arr1), r1)" by (metis prod_cases3 prod.collapse)
  show ?thesis
  proof (cases e1)
    case (Some err)
    then show ?thesis
      unfolding n run_commands
      by (simp add: one DoLimit_rest_def bind_apply run_pipeline_each [OF assms(1)] ends_as_def)
  next
    case None
    let ?s = "s\<lparr>redis := r1\<rparr>" and ?v = "v\<lparr>results := arr1\<rparr>"
    obtain e2 arr2 r2 where two: "PipeDo_each rx ?ps arr1 (perSecondRedis s) = ((e2, arr2), r2)" by (metis prod_cases3 prod.collapse)
    have rest: "DoLimit_rest pf rx this (Max_u32 1 (HitsAddend request)) items v s =
        bind (run_perSecondPipeline rx (perSecondClient this) (perSecondPipeline v) arr1) (\<lambda>counts.
          mapM (fetch_status pf this (Max_u32 1 (HitsAddend request)) (v\<lparr>results := counts\<rparr>)) items) ?s"
      using None by (simp add: one DoLimit_rest_def bind_apply [of "run_pipeline _ _ _ _"] run_pipeline_each [OF assms(1)])
    have alone: "run_alone pf rx this request lims n (Counting items v ?cs ?ps) s =
        run_alone pf rx this request lims (length ?ps + Suc m) (Counting items ?v [] ?ps) ?s"
      unfolding n run_commands using None by (simp add: one)
    show ?thesis
    proof (cases e2)
      case (Some err)
      then show ?thesis
        unfolding alone rest run_perSecond_commands
        by (simp add: two bind_apply run_perSecondPipeline_each [OF assms(3,2)] ends_as_def)
    next
      case e2: None
      then show ?thesis
        unfolding alone rest run_perSecond_commands
        using run_answer [of pf rx this request lims m items "?v\<lparr>results := arr2\<rparr>" "?s\<lparr>perSecondRedis := r2\<rparr>"]
        by (simp add: two bind_apply [of "run_perSecondPipeline _ _ _ _"] run_perSecondPipeline_each [OF assms(3,2)])
    qed
  qed
qed

text \<open>
  C25. The steps are \<open>DoLimit\<close>. With clients that execute their pipelines command by command, the steps
  of a request with nothing in between end with the statuses \<open>DoLimit\<close> returns, or with the panic it
  raises, and in the same state; two steps and two more per descriptor are enough.
\<close>

theorem steps_are_DoLimit:
  assumes "\<not> stopCacheKeyIncrementWhenOverlimit this" and "implicitPipelining (client this)"
    and "\<forall>c. perSecondClient this = Some c \<longrightarrow> implicitPipelining c"
    and "2 + 2 * length (Descriptors request) \<le> n"
  shows "ends_as (run_alone pf rx this request lims n Arrived s) (DoLimit pf rx this request lims s)"
proof -
  obtain m where n: "n = Suc m" "2 * length (Descriptors request) < m" using assms(4) by (cases n) auto
  obtain r t where p: "prepare pf this request lims s = (r, t)" by (cases "prepare pf this request lims s")
  show ?thesis
  proof (cases r)
    case (Inl e)
    with p n(1) show ?thesis by (simp add: DoLimit_prepared [OF assms(1)] bind_apply ends_as_def)
  next
    case (Inr st)
    with p have p': "prepare pf this request lims s = (Inr st, t)" by simp
    obtain items v where st: "st = Counting items v (started (pipeline v)) (started (perSecondPipeline v))"
      "pipes v \<le> 2 * length (Descriptors request)" "perSecondPipeline v \<noteq> None \<longrightarrow> perSecondClient this \<noteq> None"
      by (rule prepare_pipes [OF p'])
    from run_rest [OF assms(2,3) st(3), of m] st(1,2) n p Inr show ?thesis
      by (simp add: DoLimit_prepared [OF assms(1)] bind_apply [of "prepare _ _ _ _"])
  qed
qed

definition implicit_redis :: fixedRateLimitCacheImpl where
  "implicit_redis = sample_redis\<lparr>client := \<lparr>implicitPipelining = True\<rparr>\<rparr>"

lemma implicit_redis_simps:
  "\<not> stopCacheKeyIncrementWhenOverlimit implicit_redis" "implicitPipelining (client implicit_redis)"
  "perSecondClient implicit_redis = None"
  by (simp_all add: implicit_redis_def sample_redis_def NewFixedRateLimitCacheImpl_def)

lemma implicit_items:
  "request_items implicit_redis (sample_rl_request h) [Some sample_limit, None] 1234 =
     [(0, \<lparr>ck_Key = ''d_a_b_1200'', PerSecond = False\<rparr>, Some sample_limit), (1, \<lparr>ck_Key = '''', PerSecond = False\<rparr>, None)]"
  using sample_items by (simp add: request_items_def implicit_redis_def sample_rl_request_def)

lemma sample_limits_ok: "list_all limit_ok [Some sample_limit, None]"
  by (simp add: limit_ok_def sample_limit_def NewRateLimit_def)

theorem steps_are_DoLimit_witness:
  "\<exists>items v sts t. run_alone set_cache counter_server implicit_redis (sample_rl_request 3) [Some sample_limit, None] 6 Arrived
      sample_redis_state = (Inr (Answered items v sts), t) \<and>
    DoLimit set_cache counter_server implicit_redis (sample_rl_request 3) [Some sample_limit, None]
      sample_redis_state = (Inr sts, t)"
proof -
  let ?x = "run_alone set_cache counter_server implicit_redis (sample_rl_request 3) [Some sample_limit, None] 6 Arrived sample_redis_state"
  let ?d = "DoLimit set_cache counter_server implicit_redis (sample_rl_request 3) [Some sample_limit, None] sample_redis_state"
  have ends: "ends_as ?x ?d"
    by (rule steps_are_DoLimit) (simp_all add: implicit_redis_simps sample_rl_request_def)
  have len: "length (Descriptors (sample_rl_request 3)) = length [Some sample_limit, None]"
    and hits: "(3 :: u32) = Max_u32 1 (HitsAddend (sample_rl_request 3))" by (simp_all add: sample_rl_request_def max_def)
  let ?items = "request_items implicit_redis (sample_rl_request 3) [Some sample_limit, None] (now_at sample_redis_state (reads sample_redis_state))"
  have keys: "distinct (filter (\<lambda>k. k \<noteq> '''') (map (\<lambda>(i, key, lim). ck_Key key) ?items))"
    and bound: "\<forall>(i, key, lim) \<in> set ?items. count_of implicit_redis id sample_redis_state key + unat (3 :: u32) < 2 ^ 32"
    by (simp_all add: sample_redis_state_def implicit_items count_of_def)
  have "\<exists>sts t. ?d = (Inr sts, t)"
    using DoLimit_counts [OF counter_server_laws set_cache_sound implicit_redis_simps(1) sample_limits_ok len refl keys hits bound]
    by blast
  with ends show ?thesis by (auto simp: ends_as_def split: prod.splits sum.splits)
qed

end
