(* ===== verification/Redis_Concurrent.thy ===== *)
theory Redis_Concurrent
  imports Redis_Steps
begin

text \<open>
  Concurrent requests on redis. The service runs every request in its own goroutine; what they share is
  the redis servers, the local cache and the log of metrics. Here the steps of any number of requests
  (\<open>Redis_Steps\<close>) are interleaved in any way, and a limit they share is still enforced. The unit is one
  command, whether a client sends its commands one by one or as a pipeline: a redis server executes
  the commands of a pipeline one after the other and those of other connections in between.
\<close>

section \<open>Interleavings\<close>

definition settle :: "panic + call_state \<Rightarrow> call_state" where
  "settle r = (case r of Inl p \<Rightarrow> Panicked p | Inr st \<Rightarrow> st)"

inductive any_step ::
  "'lc platform \<Rightarrow> 'r radix \<Rightarrow> fixedRateLimitCacheImpl \<Rightarrow> call list \<times> ('lc, 'r, 'x) redis_state_scheme
    \<Rightarrow> call list \<times> ('lc, 'r, 'x) redis_state_scheme \<Rightarrow> bool" for pf rx this where
  any_step: "i < length calls \<Longrightarrow> c = calls ! i \<Longrightarrow> \<not> finished (rc_state c) \<Longrightarrow>
     advance pf rx this (rc_request c) (rc_limits c) (rc_state c) s = (r, t) \<Longrightarrow>
     any_step pf rx this (calls, s) (calls[i := c\<lparr>rc_state := settle r\<rparr>], t)"

text \<open>A number of steps.\<close>

inductive any_steps ::
  "'lc platform \<Rightarrow> 'r radix \<Rightarrow> fixedRateLimitCacheImpl \<Rightarrow> nat \<Rightarrow> call list \<times> ('lc, 'r, 'x) redis_state_scheme
    \<Rightarrow> call list \<times> ('lc, 'r, 'x) redis_state_scheme \<Rightarrow> bool" for pf rx this where
  no_step: "any_steps pf rx this 0 x x"
| one_more: "any_steps pf rx this n x y \<Longrightarrow> any_step pf rx this y z \<Longrightarrow> any_steps pf rx this (Suc n) x z"

inductive_cases any_stepE: "any_step pf rx this (calls, s) z"

section \<open>Lemmas: what a request has counted\<close>

text \<open>The counter of a key on one of the two redis.\<close>

definition on_count :: "('r \<Rightarrow> string \<Rightarrow> nat) \<Rightarrow> bool \<Rightarrow> ('lc, 'r, 'x) redis_state_scheme \<Rightarrow> string \<Rightarrow> nat" where
  "on_count cnt b s k = cnt (if b then perSecondRedis s else redis s) k"

definition waits :: "string \<Rightarrow> Pipeline \<Rightarrow> bool" where
  "waits k cs = list_ex (\<lambda>c. cmd c = ''INCRBY'' \<and> cmd_key c = k) cs"

definition item_at :: "fixedRateLimitCacheImpl \<Rightarrow> bool \<Rightarrow> string \<Rightarrow> item list \<Rightarrow> item option" where
  "item_at this b k items = find (\<lambda>(j, key, lim). k \<noteq> '''' \<and> ck_Key key = k \<and> usePerSecond this key = b) items"

text \<open>The reply a request has for a key on a redis: none while the command waits, or if the local cache answered.\<close>

definition replied_in ::
  "fixedRateLimitCacheImpl \<Rightarrow> bool \<Rightarrow> string \<Rightarrow> item list \<Rightarrow> DoLimit_vars \<Rightarrow> Pipeline \<Rightarrow> nat option" where
  "replied_in this b k items v cs =
     (case item_at this b k items of
        None \<Rightarrow> None
      | Some (j, key, lim) \<Rightarrow>
          if isOverLimitWithLocalCache v ! j \<or> waits k cs then None else Some (unat (results v ! j)))"

fun replied :: "fixedRateLimitCacheImpl \<Rightarrow> bool \<Rightarrow> string \<Rightarrow> call_state \<Rightarrow> nat option" where
  "replied this b k (Counting items v cs ps) = replied_in this b k items v (if b then ps else cs)"
| "replied this b k (Answered items v sts) = replied_in this b k items v []"
| "replied this b k _ = None"

fun found_key :: "string \<Rightarrow> call_state \<Rightarrow> bool" where
  "found_key k (Counting items v cs ps) =
     list_ex (\<lambda>(j, key, lim). ck_Key key = k \<and> isOverLimitWithLocalCache v ! j) items"
| "found_key k (Answered items v sts) =
     list_ex (\<lambda>(j, key, lim). ck_Key key = k \<and> isOverLimitWithLocalCache v ! j) items"
| "found_key k _ = False"

text \<open>What is left of a pipeline: whole pairs of commands, perhaps after the second of one.\<close>

definition pipe_left ::
  "fixedRateLimitCacheImpl \<Rightarrow> bool \<Rightarrow> u32 \<Rightarrow> item list \<Rightarrow> DoLimit_vars \<Rightarrow> Pipeline \<Rightarrow> bool" where
  "pipe_left this b h items v cs \<longleftrightarrow>
     (\<exists>ops. (cs = inc_pipe ops \<or>
          (\<exists>k e. 0 < e \<and> cs = \<lparr>rcv = None, cmd = ''EXPIRE'', cmd_key = k, args = [ArgInt e]\<rparr> # inc_pipe ops)) \<and>
        distinct (map (fst \<circ> snd) ops) \<and>
        (\<forall>(j, k, n, e) \<in> set ops. 0 < e \<and> n = h \<and> k \<noteq> '''' \<and>
          (\<exists>key lim. (j, key, lim) \<in> set items \<and> ck_Key key = k \<and> usePerSecond this key = b \<and>
            \<not> isOverLimitWithLocalCache v ! j)))"

definition keys_distinct :: "item list \<Rightarrow> bool" where
  "keys_distinct items = distinct (filter (\<lambda>k. k \<noteq> '''') (map (\<lambda>(i, key, lim). ck_Key key) items))"

definition items_wf :: "item list \<Rightarrow> DoLimit_vars \<Rightarrow> bool" where
  "items_wf items v \<longleftrightarrow> list_all item_ok items \<and> distinct (map fst items) \<and> keys_distinct items \<and>
     (\<forall>(j, key, lim) \<in> set items. j < length (results v))"

lemma waits_simps [simp]:
  "\<not> waits k []" "waits k (c # cs) \<longleftrightarrow> cmd c = ''INCRBY'' \<and> cmd_key c = k \<or> waits k cs"
  by (simp_all add: waits_def)

lemma waits_inc_pipe: "waits k (inc_pipe ops) \<longleftrightarrow> k \<in> (fst \<circ> snd) ` set ops"
  by (induction ops) (auto simp: inc_pipe_def inc_cmds_def waits_def)

lemma item_at_Some:
  "item_at this b k items = Some (j, key, lim) \<Longrightarrow>
   (j, key, lim) \<in> set items \<and> k \<noteq> '''' \<and> ck_Key key = k \<and> usePerSecond this key = b"
  unfolding item_at_def by (induction items) (auto split: if_splits)

lemma item_at_unique:
  assumes "keys_distinct items" and "(j, key, lim) \<in> set items" and "ck_Key key \<noteq> ''''"
  shows "item_at this (usePerSecond this key) (ck_Key key) items = Some (j, key, lim)"
proof (cases "item_at this (usePerSecond this key) (ck_Key key) items")
  case None
  then show ?thesis using assms(2,3) by (auto simp: item_at_def find_None_iff)
next
  case (Some it)
  obtain j' key' lim' where it: "it = (j', key', lim')" by (cases it)
  have m: "(j', key', lim') \<in> set items" "ck_Key key' = ck_Key key" using item_at_Some [OF Some [unfolded it]] by simp_all
  have "j = j' \<and> key = key' \<and> lim = lim'"
    by (rule key_unique [OF assms(1) [unfolded keys_distinct_def] assms(2) m(1) m(2) [symmetric] assms(3)])
  with Some it show ?thesis by simp
qed

lemma pipe_left_cases:
  assumes "pipe_left this b h items v (c # cs)"
  obtains (expire) k e where "0 < e" and "c = \<lparr>rcv = None, cmd = ''EXPIRE'', cmd_key = k, args = [ArgInt e]\<rparr>"
      and "pipe_left this b h items v cs"
  | (incrby) j key lim where "c = \<lparr>rcv = Some j, cmd = ''INCRBY'', cmd_key = ck_Key key, args = [ArgU32 h]\<rparr>"
      and "(j, key, lim) \<in> set items" and "ck_Key key \<noteq> ''''" and "usePerSecond this key = b"
      and "\<not> isOverLimitWithLocalCache v ! j" and "\<not> waits (ck_Key key) cs" and "pipe_left this b h items v cs"
proof -
  obtain ops where cs: "c # cs = inc_pipe ops \<or>
      (\<exists>k e. 0 < e \<and> c # cs = \<lparr>rcv = None, cmd = ''EXPIRE'', cmd_key = k, args = [ArgInt e]\<rparr> # inc_pipe ops)"
    and d: "distinct (map (fst \<circ> snd) ops)"
    and ops: "\<forall>(j, k, n, e) \<in> set ops. 0 < e \<and> n = h \<and> k \<noteq> '''' \<and>
          (\<exists>key lim. (j, key, lim) \<in> set items \<and> ck_Key key = k \<and> usePerSecond this key = b \<and>
            \<not> isOverLimitWithLocalCache v ! j)"
    using assms unfolding pipe_left_def by (elim exE conjE) (rule that)
  from cs show thesis
  proof
    assume "\<exists>k e. 0 < e \<and> c # cs = \<lparr>rcv = None, cmd = ''EXPIRE'', cmd_key = k, args = [ArgInt e]\<rparr> # inc_pipe ops"
    then obtain k e where "0 < e" "c = \<lparr>rcv = None, cmd = ''EXPIRE'', cmd_key = k, args = [ArgInt e]\<rparr>" "cs = inc_pipe ops" by auto
    moreover have "pipe_left this b h items v (inc_pipe ops)" unfolding pipe_left_def using d ops by blast
    ultimately show thesis by (intro expire) auto
  next
    assume c: "c # cs = inc_pipe ops"
    then obtain j k n e ops' where o: "ops = (j, k, n, e) # ops'"
      by (cases ops) (auto simp: inc_pipe_def)
    from ops o obtain key lim where k: "0 < e" "n = h" "k \<noteq> ''''" "(j, key, lim) \<in> set items" "ck_Key key = k"
      "usePerSecond this key = b" "\<not> isOverLimitWithLocalCache v ! j" by auto
    have cs': "c = \<lparr>rcv = Some j, cmd = ''INCRBY'', cmd_key = k, args = [ArgU32 h]\<rparr>"
      "cs = \<lparr>rcv = None, cmd = ''EXPIRE'', cmd_key = k, args = [ArgInt e]\<rparr> # inc_pipe ops'"
      using c k(2) by (auto simp: o inc_pipe_Cons inc_cmds_def)
    have "pipe_left this b h items v cs" unfolding pipe_left_def using d ops o k(1) cs'(2) by (intro exI [of _ ops']) auto
    moreover have "\<not> waits k cs" using d by (auto simp: cs'(2) waits_inc_pipe o)
    ultimately show thesis using cs'(1) k by (intro incrby [of j key lim]) auto
  qed
qed

text \<open>The effect of a counting command on what is counted: its key only.\<close>

lemma replied_in_incrby:
  assumes wf: "items_wf items v" and it: "(j, key, lim) \<in> set items" "ck_Key key \<noteq> ''''"
    and f: "\<not> isOverLimitWithLocalCache v ! j" and w: "\<not> waits (ck_Key key) cs"
    and c: "c = \<lparr>rcv = Some j, cmd = ''INCRBY'', cmd_key = ck_Key key, args = [ArgU32 h]\<rparr>"
    and v': "v' = v\<lparr>results := (results v)[j := x]\<rparr>" and b: "b = usePerSecond this key"
  shows "replied_in this b (ck_Key key) items v (c # cs) = None"
    and "replied_in this b (ck_Key key) items v' cs = Some (unat x)"
    and "k \<noteq> ck_Key key \<Longrightarrow> replied_in this b k items v' cs = replied_in this b k items v (c # cs)"
    and "b' \<noteq> b \<Longrightarrow> replied_in this b' k items v' qs = replied_in this b' k items v qs"
proof -
  have at: "item_at this b (ck_Key key) items = Some (j, key, lim)"
    unfolding b by (rule item_at_unique) (use wf it in \<open>auto simp: items_wf_def\<close>)
  have j: "j < length (results v)" using wf it by (auto simp: items_wf_def)
  have other: "j' \<noteq> j" if "item_at this b' k items = Some (j', key', lim')" "k \<noteq> ck_Key key \<or> b' \<noteq> b" for b' k j' key' lim'
  proof
    assume "j' = j"
    with item_at_Some [OF that(1)] it(1) wf have "key' = key"
      by (auto simp: items_wf_def dest: eq_key_imp_eq_value)
    with item_at_Some [OF that(1)] that(2) b show False by auto
  qed
  show "replied_in this b (ck_Key key) items v (c # cs) = None" by (simp add: replied_in_def at c)
  show "replied_in this b (ck_Key key) items v' cs = Some (unat x)" using f w j by (simp add: replied_in_def at v')
  show "k \<noteq> ck_Key key \<Longrightarrow> replied_in this b k items v' cs = replied_in this b k items v (c # cs)"
    using other [of b k] by (auto simp: replied_in_def v' c split: option.splits)
  show "b' \<noteq> b \<Longrightarrow> replied_in this b' k items v' qs = replied_in this b' k items v qs"
    using other [of b' k] by (auto simp: replied_in_def v' split: option.splits)
qed

lemma replied_in_expire:
  "cmd c = ''EXPIRE'' \<Longrightarrow> replied_in this b k items v cs = replied_in this b k items v (c # cs)"
  by (auto simp: replied_in_def split: option.splits)

section \<open>Lemmas: the effect of a step\<close>

text \<open>The requests of the theorem: usable limits, and no key twice in a request, whenever it reads the clock.\<close>

definition call_fine :: "fixedRateLimitCacheImpl \<Rightarrow> (nat \<Rightarrow> int) \<Rightarrow> call \<Rightarrow> bool" where
  "call_fine this clock c \<longleftrightarrow> list_all limit_ok (rc_limits c) \<and>
     length (Descriptors (rc_request c)) = length (rc_limits c) \<and>
     (\<forall>n. keys_distinct (request_items this (rc_request c) (rc_limits c) (clock n)))"

text \<open>The items were made at some reading of the clock, and what is left to do fits them.\<close>

definition call_wf :: "fixedRateLimitCacheImpl \<Rightarrow> (nat \<Rightarrow> int) \<Rightarrow> call \<Rightarrow> bool" where
  "call_wf this clock c =
     (let made = (\<lambda>items v. items_wf items v \<and>
        (\<exists>n. items = request_items this (rc_request c) (rc_limits c) (clock n))) in
      case rc_state c of
        Arrived \<Rightarrow> True
      | Counting items v cs ps \<Rightarrow> made items v \<and>
          pipe_left this False (rc_hits c) items v cs \<and> pipe_left this True (rc_hits c) items v ps
      | Answered items v sts \<Rightarrow> made items v \<and>
          list_all2 (status_for (isOverLimitWithLocalCache v) (results v)) items sts
      | Panicked p \<Rightarrow> False)"

text \<open>
  The effect on the counters, seen from the request: nothing, or one more key is counted, its reply
  being the new value of the counter.
\<close>

definition counts_nothing ::
  "fixedRateLimitCacheImpl \<Rightarrow> ('r \<Rightarrow> string \<Rightarrow> nat) \<Rightarrow> call_state \<Rightarrow> ('lc, 'r, 'x) redis_state_scheme
    \<Rightarrow> call_state \<Rightarrow> ('lc, 'r, 'x) redis_state_scheme \<Rightarrow> bool" where
  "counts_nothing this cnt st s st' t \<longleftrightarrow>
     (\<forall>b k. replied this b k st' = replied this b k st \<and> on_count cnt b t k = on_count cnt b s k)"

definition counts_one ::
  "fixedRateLimitCacheImpl \<Rightarrow> ('r \<Rightarrow> string \<Rightarrow> nat) \<Rightarrow> nat \<Rightarrow> bool \<Rightarrow> string \<Rightarrow> call_state
    \<Rightarrow> ('lc, 'r, 'x) redis_state_scheme \<Rightarrow> call_state \<Rightarrow> ('lc, 'r, 'x) redis_state_scheme \<Rightarrow> bool" where
  "counts_one this cnt h b k st s st' t \<longleftrightarrow>
     replied this b k st = None \<and> replied this b k st' = Some (on_count cnt b s k + h) \<and>
     on_count cnt b t k = on_count cnt b s k + h \<and>
     (\<forall>b' k'. (b', k') \<noteq> (b, k) \<longrightarrow>
        replied this b' k' st' = replied this b' k' st \<and> on_count cnt b' t k' = on_count cnt b' s k')"

text \<open>Where the keys in the local cache come from.\<close>

definition cache_from ::
  "('lc \<Rightarrow> string set) \<Rightarrow> fixedRateLimitCacheImpl \<Rightarrow> call_state \<Rightarrow> item list \<Rightarrow> ('lc, 'r, 'x) redis_state_scheme
    \<Rightarrow> ('lc, 'r, 'x) redis_state_scheme \<Rightarrow> bool" where
  "cache_from contents this st items s t \<longleftrightarrow>
     (\<forall>k \<in> cached contents (localCache t). k \<in> cached contents (localCache s) \<or>
        (\<exists>j key l a. (j, key, Some l) \<in> set items \<and> ck_Key key = k \<and>
           replied this (usePerSecond this key) k st = Some a \<and> unat (RequestsPerUnit (Limit l)) < a))"

text \<open>\<open>prepare\<close> leaves a pair of commands for each item the local cache does not know to be exhausted.\<close>

lemma prepare_runs:
  fixes s :: "('lc, 'r, 'x) redis_state_scheme"
  assumes sound: "cache_sound pf contents" and ok: "list_all limit_ok (rc_limits c)"
    and len: "length (Descriptors (rc_request c)) = length (rc_limits c)"
    and items: "items = request_items this (rc_request c) (rc_limits c) (now_at s (reads s))"
  obtains fs e v t where "\<forall>i. 0 < e i"
    and "prepare pf this (rc_request c) (rc_limits c) s = (Inr (Counting items v
      (inc_pipe (ops_of this False fs (\<lambda>_. rc_hits c) e items)) (inc_pipe (ops_of this True fs (\<lambda>_. rc_hits c) e items))), t)"
    and "isOverLimitWithLocalCache v = fs" and "length (results v) = length (Descriptors (rc_request c))"
    and "found_in contents (localCache s) items fs" and "cached contents (localCache t) \<subseteq> cached contents (localCache s)"
    and "redis t = redis s" and "perSecondRedis t = perSecondRedis s" and "now_at t = now_at s"
proof -
  let ?rq = "rc_request c" and ?lims = "rc_limits c" and ?h = "rc_hits c"
  let ?n = "length (Descriptors ?rq)"
  note shape = request_items_shape [OF ok len items]
  let ?rest = "\<lambda>(n :: nat) items v. bind (foldM (setup_pipeline this ?h) items v) (\<lambda>v.
      ret (Counting items v (started (pipeline v)) (started (perSecondPipeline v))))"
  obtain fs lc where begins: "bind (GenerateCacheKeys (baseRateLimiter this) ?rq ?lims ?h) (\<lambda>cacheKeys.
       let n = ?n; items = zip [0..<n] (zip cacheKeys ?lims) in
       bind (foldM (check_local pf) items (initial_vars n ?h)) (?rest n items)) s =
     ?rest ?n items ((initial_vars ?n ?h)\<lparr>isOverLimitWithLocalCache := fs, overlimitIndexes := fs\<rparr>)
       (s\<lparr>reads := Suc (reads s), stats := stats s @ hit_events ?h ?lims, localCache := lc\<rparr>)"
    and fs: "found_in contents (localCache s) items fs" and lc: "cached contents lc \<subseteq> cached contents (localCache s)"
    by (rule local_check_runs [OF sound ok len items, where f = ?rest])
  let ?v1 = "(initial_vars ?n ?h)\<lparr>isOverLimitWithLocalCache := fs, overlimitIndexes := fs\<rparr>"
    and ?s2 = "s\<lparr>reads := Suc (reads s), stats := stats s @ hit_events ?h ?lims, localCache := lc\<rparr>"
  have amount: "(\<lambda>_. ?h) = (\<lambda>i. if nearlimitIndexes ?v1 ! i then ?h else hitsAddendForRedis ?v1)"
    by (rule ext) (simp add: initial_vars_def)
  obtain e m where e: "\<forall>i. 0 < e i" and set_up: "foldM (setup_pipeline this ?h) items ?v1 ?s2 =
      (Inr (?v1\<lparr>pipeline := Redis_Cache.extend None (inc_pipe (ops_of this False fs (\<lambda>_. ?h) e items)),
            perSecondPipeline := Redis_Cache.extend None (inc_pipe (ops_of this True fs (\<lambda>_. ?h) e items))\<rparr>), ?s2\<lparr>draws := m\<rparr>)"
      (is "_ = (Inr ?v, ?t)")
    using setup_loop [OF shape(1,2) amount, of this ?s2] by (auto simp: initial_vars_def)
  have pipe: "started (Redis_Cache.extend None (inc_pipe ops)) = inc_pipe ops" for ops by (simp add: Redis_Cache.extend_def started_def)
  have "prepare pf this ?rq ?lims s = ?rest ?n items ?v1 ?s2"
    using begins by (simp only: prepare_def Let_def rc_hits_def)
  then have "prepare pf this ?rq ?lims s = (Inr (Counting items ?v
      (inc_pipe (ops_of this False fs (\<lambda>_. ?h) e items)) (inc_pipe (ops_of this True fs (\<lambda>_. ?h) e items))), ?t)"
    by (simp add: bind_apply set_up pipe prim_simps)
  from that [OF e this _ _ fs] lc show thesis by (simp add: initial_vars_def)
qed

lemma prepare_effect:
  fixes s :: "('lc, 'r, 'x) redis_state_scheme"
  assumes sound: "cache_sound pf contents" and fine: "call_fine this (now_at s) c" and st: "rc_state c = Arrived"
  shows "\<exists>st t. prepare pf this (rc_request c) (rc_limits c) s = (Inr st, t) \<and>
    call_wf this (now_at s) (c\<lparr>rc_state := st\<rparr>) \<and> now_at t = now_at s \<and>
    counts_nothing this cnt Arrived s st t \<and>
    (\<forall>k. found_key k st \<longrightarrow> k \<in> cached contents (localCache s)) \<and>
    cached contents (localCache t) \<subseteq> cached contents (localCache s)"
proof -
  let ?h = "rc_hits c" and ?items = "request_items this (rc_request c) (rc_limits c) (now_at s (reads s))"
  have ok: "list_all limit_ok (rc_limits c)" "length (Descriptors (rc_request c)) = length (rc_limits c)" and keys: "keys_distinct ?items"
    using fine by (auto simp: call_fine_def)
  note shape = request_items_shape [OF ok refl, of this "now_at s (reads s)"]
  obtain fs e v t where e: "\<forall>i. 0 < e i"
    and run: "prepare pf this (rc_request c) (rc_limits c) s = (Inr (Counting ?items v
      (inc_pipe (ops_of this False fs (\<lambda>_. ?h) e ?items)) (inc_pipe (ops_of this True fs (\<lambda>_. ?h) e ?items))), t)"
    and v: "isOverLimitWithLocalCache v = fs" "length (results v) = length (Descriptors (rc_request c))"
    and fs: "found_in contents (localCache s) ?items fs" and lc: "cached contents (localCache t) \<subseteq> cached contents (localCache s)"
    and same: "redis t = redis s" "perSecondRedis t = perSecondRedis s" "now_at t = now_at s"
    by (rule prepare_runs [OF sound ok refl])
  let ?cs = "\<lambda>b. inc_pipe (ops_of this b fs (\<lambda>_. ?h) e ?items)"
  let ?st = "Counting ?items v (?cs False) (?cs True)"
  have left: "pipe_left this b ?h ?items v (?cs b)" for b
    unfolding pipe_left_def using e v(1) ops_of_distinct(2) [OF shape(2) keys [unfolded keys_distinct_def]]
    by (intro exI [of _ "ops_of this b fs (\<lambda>_. ?h) e ?items"]) (auto simp: ops_of_set; blast)
  have wf: "items_wf ?items v" using shape keys v(2) by (simp add: items_wf_def)
  have "replied_in this b k ?items v (?cs b) = None" for b k
  proof (cases "item_at this b k ?items")
    case (Some it)
    obtain j key lim where it: "it = (j, key, lim)" by (cases it)
    have "(j, k, ?h, e j) \<in> set (ops_of this b fs (\<lambda>_. ?h) e ?items)" if "\<not> fs ! j"
      using item_at_Some [OF Some [unfolded it]] that by (auto simp: ops_of_set)
    then have "fs ! j \<or> waits k (?cs b)" unfolding waits_inc_pipe by force
    then show ?thesis using Some it v(1) by (simp add: replied_in_def)
  qed (simp add: replied_in_def)
  then have "counts_nothing this cnt Arrived s ?st t" by (simp add: counts_nothing_def on_count_def same)
  moreover have "k \<in> cached contents (localCache s)" if "found_key k ?st" for k
    using that fs v(1) by (fastforce simp: found_in_def list_ex_iff)
  moreover have "call_wf this (now_at s) (c\<lparr>rc_state := ?st\<rparr>)"
    using wf left by (auto simp: call_wf_def rc_hits_def Let_def)
  ultimately show ?thesis using run lc same(3) by (intro exI [of _ ?st] exI [of _ t]) simp
qed

text \<open>The commands, on either redis: the command on \<open>r\<close> with the replies \<open>v\<close> leaves \<open>r'\<close> and \<open>v'\<close>.\<close>

definition command_counts ::
  "fixedRateLimitCacheImpl \<Rightarrow> ('r \<Rightarrow> string \<Rightarrow> nat) \<Rightarrow> nat \<Rightarrow> bool \<Rightarrow> item list \<Rightarrow> DoLimit_vars \<Rightarrow> Pipeline \<Rightarrow> 'r
    \<Rightarrow> DoLimit_vars \<Rightarrow> Pipeline \<Rightarrow> 'r \<Rightarrow> bool" where
  "command_counts this cnt h b items v cs r v' cs' r' \<longleftrightarrow>
     (\<forall>k qs. replied_in this (\<not> b) k items v' qs = replied_in this (\<not> b) k items v qs) \<and>
     ((\<forall>k. replied_in this b k items v' cs' = replied_in this b k items v cs \<and> cnt r' k = cnt r k) \<or>
      (\<exists>k. replied_in this b k items v cs = None \<and> replied_in this b k items v' cs' = Some (cnt r k + h) \<and>
         cnt r' k = cnt r k + h \<and>
         (\<forall>k'. k' \<noteq> k \<longrightarrow> replied_in this b k' items v' cs' = replied_in this b k' items v cs \<and> cnt r' k' = cnt r k')))"

lemma command_counts_redis:
  assumes "command_counts this cnt h False items v cs (redis s) v' cs' r'"
  shows "counts_nothing this cnt (Counting items v cs ps) s (Counting items v' cs' ps) (s\<lparr>redis := r'\<rparr>) \<or>
    (\<exists>b k. counts_one this cnt h b k (Counting items v cs ps) s (Counting items v' cs' ps) (s\<lparr>redis := r'\<rparr>))"
  using assms unfolding command_counts_def
proof (elim conjE disjE exE)
  fix k
  assume "\<forall>k qs. replied_in this (\<not> False) k items v' qs = replied_in this (\<not> False) k items v qs"
    and "replied_in this False k items v cs = None" "replied_in this False k items v' cs' = Some (cnt (redis s) k + h)"
      "cnt r' k = cnt (redis s) k + h"
      "\<forall>k'. k' \<noteq> k \<longrightarrow> replied_in this False k' items v' cs' = replied_in this False k' items v cs \<and> cnt r' k' = cnt (redis s) k'"
  then show ?thesis by (intro disjI2 exI [of _ False] exI [of _ k]) (auto simp: counts_one_def on_count_def)
qed (auto simp: counts_nothing_def on_count_def)

lemma command_counts_perSecondRedis:
  assumes "command_counts this cnt h True items v ps (perSecondRedis s) v' ps' r'"
  shows "counts_nothing this cnt (Counting items v cs ps) s (Counting items v' cs ps') (s\<lparr>perSecondRedis := r'\<rparr>) \<or>
    (\<exists>b k. counts_one this cnt h b k (Counting items v cs ps) s (Counting items v' cs ps') (s\<lparr>perSecondRedis := r'\<rparr>))"
  using assms unfolding command_counts_def
proof (elim conjE disjE exE)
  fix k
  assume "\<forall>k qs. replied_in this (\<not> True) k items v' qs = replied_in this (\<not> True) k items v qs"
    and "replied_in this True k items v ps = None" "replied_in this True k items v' ps' = Some (cnt (perSecondRedis s) k + h)"
      "cnt r' k = cnt (perSecondRedis s) k + h"
      "\<forall>k'. k' \<noteq> k \<longrightarrow> replied_in this True k' items v' ps' = replied_in this True k' items v ps \<and> cnt r' k' = cnt (perSecondRedis s) k'"
  then show ?thesis by (intro disjI2 exI [of _ True] exI [of _ k]) (auto simp: counts_one_def on_count_def)
qed (auto simp: counts_nothing_def on_count_def)

lemma command_effect:
  assumes laws: "redis_laws rx cnt" and wf: "items_wf items v" and left: "pipe_left this b h items v (c # cs)"
    and bound: "\<And>k. replied_in this b k items v (c # cs) = None \<Longrightarrow> cnt r k + unat h < 2 ^ 32"
  obtains x r' v' where "rx_Do rx c r = (Inr x, r')" and "v' = v\<lparr>results := receive c x (results v)\<rparr>"
    and "items_wf items v'" and "pipe_left this b h items v' cs"
    and "\<forall>qs b. pipe_left this b h items v' qs = pipe_left this b h items v qs"
    and "command_counts this cnt (unat h) b items v (c # cs) r v' cs r'"
  using left
proof (cases rule: pipe_left_cases)
  case (expire k e)
  have "expire_law rx cnt" using laws by (simp add: redis_laws_def)
  with expire obtain x r' where r: "rx_Do rx c r = (Inr x, r')" "cnt r' = cnt r" unfolding expire_law_def by blast
  have "v\<lparr>results := receive c x (results v)\<rparr> = v" using expire(2) by (simp add: receive_def)
  with r expire(2,3) wf replied_in_expire [of c this b _ items v cs] show thesis
    by (intro that [of x r' v]) (simp_all add: command_counts_def)
next
  case (incrby j key lim)
  have nil: "replied_in this b (ck_Key key) items v (c # cs) = None"
    by (rule replied_in_incrby(1) [OF wf incrby(2,3,5,6,1) refl incrby(4) [symmetric]])
  have bd: "cnt r (ck_Key key) + unat h < 2 ^ 32" by (rule bound [OF nil])
  have "incrby_law rx cnt" using laws by (simp add: redis_laws_def)
  with bd obtain r' where r: "rx_Do rx c r = (Inr (of_nat (cnt r (ck_Key key)) + h), r')"
    "cnt r' = (cnt r)(ck_Key key := cnt r (ck_Key key) + unat h)"
    unfolding incrby_law_def incrby(1) by blast
  let ?x = "of_nat (cnt r (ck_Key key)) + h" and ?v = "v\<lparr>results := (results v)[j := of_nat (cnt r (ck_Key key)) + h]\<rparr>"
  have v: "?v = v\<lparr>results := receive c ?x (results v)\<rparr>" by (simp add: incrby(1) receive_def)
  have x: "unat ?x = cnt r (ck_Key key) + unat h"
    using bd by (simp add: unat_add_no_wrap unat_of_nat)
  note inc = replied_in_incrby(2-4) [OF wf incrby(2,3,5,6,1) refl incrby(4) [symmetric], where x = ?x, unfolded x]
  have left': "pipe_left this b' h items ?v qs = pipe_left this b' h items v qs" for b' qs by (simp add: pipe_left_def)
  have wf': "items_wf items ?v" using wf by (simp add: items_wf_def)
  show thesis
  proof (rule that [OF r(1) v wf'])
    show "pipe_left this b h items ?v cs" using incrby(7) by (simp add: left')
    show "\<forall>qs b. pipe_left this b h items ?v qs = pipe_left this b h items v qs" by (simp add: left')
    show "command_counts this cnt (unat h) b items v (c # cs) r ?v cs r'"
      unfolding command_counts_def using nil inc r(2) by (intro conjI disjI2 exI [of _ "ck_Key key"]) auto
  qed
qed

lemma answer_effect:
  fixes s :: "('lc, 'r, 'x) redis_state_scheme"
  assumes sound: "cache_sound pf contents" and wf: "items_wf items v"
  shows "\<exists>sts t. mapM (fetch_status pf this h v) items s = (Inr sts, t) \<and> now_at t = now_at s \<and>
    list_all2 (status_for (isOverLimitWithLocalCache v) (results v)) items sts \<and>
    counts_nothing this cnt (Counting items v [] []) s (Answered items v sts) t \<and>
    cache_from contents this (Counting items v [] []) items s t"
proof -
  let ?fs = "isOverLimitWithLocalCache v"
  have ok: "list_all item_ok items" using wf by (simp add: items_wf_def)
  obtain sts m es lc where run: "mapM (fetch_status pf this h v) items s =
      (Inr sts, s\<lparr>reads := m, stats := es, localCache := lc\<rparr>)" (is "_ = (_, ?t)")
    and sts: "list_all2 (status_for ?fs (results v)) items sts"
    and lc: "cached contents lc \<subseteq> cached contents (localCache s) \<union>
      {ck_Key (fst (snd item)) | item. item \<in> set items \<and> item_exceeded ?fs (results v) item}"
    using fetch_loop [OF sound ok, of this h v s] by (elim exE conjE) (rule that)
  have "cache_from contents this (Counting items v [] []) items s ?t"
    unfolding cache_from_def
  proof (intro ballI disjCI)
    fix k
    assume "k \<in> cached contents (localCache ?t)" and no: "\<not> (\<exists>j key l a. (j, key, Some l) \<in> set items \<and> ck_Key key = k \<and>
      replied this (usePerSecond this key) k (Counting items v [] []) = Some a \<and> unat (RequestsPerUnit (Limit l)) < a)"
    then consider "k \<in> cached contents (localCache s)"
      | j key l where "(j, key, Some l) \<in> set items" "ck_Key key = k" "\<not> ?fs ! j" "RequestsPerUnit (Limit l) < results v ! j"
      using lc by (force simp: item_exceeded_def exceeded_def split: option.splits)
    then show "k \<in> cached contents (localCache s)"
    proof cases
      case 2
      have "item_ok (j, key, Some l)" using ok 2(1) by (simp add: list_all_iff)
      then have "k \<noteq> ''''" using 2(2) by (simp add: item_ok_def)
      with item_at_unique [of items j key "Some l" this] 2 wf
      have "replied this (usePerSecond this key) k (Counting items v [] []) = Some (unat (results v ! j))"
        by (simp add: items_wf_def replied_in_def)
      with 2(1,2,4) no show ?thesis by (auto simp: word_less_nat_alt)
    qed
  qed
  moreover have "counts_nothing this cnt (Counting items v [] []) s (Answered items v sts) ?t"
    by (simp add: counts_nothing_def on_count_def)
  ultimately show ?thesis using run sts by (intro exI [of _ sts] exI [of _ ?t]) simp
qed

text \<open>What any step of a request does to the request, the counters and the local cache.\<close>

definition step_effect ::
  "('lc \<Rightarrow> string set) \<Rightarrow> fixedRateLimitCacheImpl \<Rightarrow> ('r \<Rightarrow> string \<Rightarrow> nat) \<Rightarrow> (nat \<Rightarrow> int) \<Rightarrow> call
    \<Rightarrow> ('lc, 'r, 'x) redis_state_scheme \<Rightarrow> call_state \<Rightarrow> ('lc, 'r, 'x) redis_state_scheme \<Rightarrow> bool" where
  "step_effect contents this cnt clock c s st t \<longleftrightarrow>
     call_wf this clock (c\<lparr>rc_state := st\<rparr>) \<and> now_at t = clock \<and>
     (counts_nothing this cnt (rc_state c) s st t \<or> (\<exists>b k. counts_one this cnt (unat (rc_hits c)) b k (rc_state c) s st t)) \<and>
     (\<forall>k. found_key k st \<longrightarrow> found_key k (rc_state c) \<or> k \<in> cached contents (localCache s)) \<and>
     (\<exists>items. cache_from contents this (rc_state c) items s t \<and>
        (items \<noteq> [] \<longrightarrow> (\<exists>n. items = request_items this (rc_request c) (rc_limits c) (clock n))))"

lemma cache_from_same:
  "cached contents (localCache t) \<subseteq> cached contents (localCache s) \<Longrightarrow>
   \<exists>items. cache_from contents this st items s t \<and> (items \<noteq> [] \<longrightarrow> P items)"
  by (rule exI [of _ "[]"]) (auto simp: cache_from_def)

lemma redis_command_effect:
  assumes laws: "redis_laws rx cnt" and clock: "now_at s = clock" and wf: "call_wf this clock c"
    and st: "rc_state c = Counting items v (d # cs) ps"
    and bound: "\<And>b k. replied this b k (rc_state c) = None \<Longrightarrow> on_count cnt b s k + unat (rc_hits c) < 2 ^ 32"
  shows "\<exists>st t. advance pf rx this (rc_request c) (rc_limits c) (rc_state c) s = (Inr st, t) \<and>
    step_effect contents this cnt clock c s st t"
proof -
  have iw: "items_wf items v" and made: "\<exists>n. items = request_items this (rc_request c) (rc_limits c) (clock n)"
    and left: "pipe_left this False (rc_hits c) items v (d # cs)" "pipe_left this True (rc_hits c) items v ps"
    using wf st by (simp_all add: call_wf_def)
  have b: "cnt (redis s) k + unat (rc_hits c) < 2 ^ 32" if "replied_in this False k items v (d # cs) = None" for k
    using bound [of False k] that st by (simp add: on_count_def)
  obtain x r v' where step: "rx_Do rx d (redis s) = (Inr x, r)" "v' = v\<lparr>results := receive d x (results v)\<rparr>"
    "items_wf items v'" "pipe_left this False (rc_hits c) items v' cs"
    "\<forall>qs b. pipe_left this b (rc_hits c) items v' qs = pipe_left this b (rc_hits c) items v qs"
    "command_counts this cnt (unat (rc_hits c)) False items v (d # cs) (redis s) v' cs r"
    by (rule command_effect [OF laws iw left(1) b])
  let ?st = "Counting items v' cs ps" and ?t = "s\<lparr>redis := r\<rparr>"
  have "advance pf rx this (rc_request c) (rc_limits c) (rc_state c) s = (Inr ?st, ?t)"
    using step(1,2) st by (simp add: on_redis_def command_def monad_simps)
  moreover have "call_wf this clock (c\<lparr>rc_state := ?st\<rparr>)"
    using step(3-5) made left(2) by (simp add: call_wf_def rc_hits_def)
  moreover have "found_key k ?st \<longrightarrow> found_key k (rc_state c)" for k using step(2) st by simp
  ultimately show ?thesis
    unfolding step_effect_def using command_counts_redis [OF step(6)] clock st
    by (intro exI [of _ ?st] exI [of _ ?t] conjI) (auto intro!: cache_from_same)
qed

lemma perSecondRedis_command_effect:
  assumes laws: "redis_laws rx cnt" and clock: "now_at s = clock" and wf: "call_wf this clock c"
    and st: "rc_state c = Counting items v [] (d # ps)"
    and bound: "\<And>b k. replied this b k (rc_state c) = None \<Longrightarrow> on_count cnt b s k + unat (rc_hits c) < 2 ^ 32"
  shows "\<exists>st t. advance pf rx this (rc_request c) (rc_limits c) (rc_state c) s = (Inr st, t) \<and>
    step_effect contents this cnt clock c s st t"
proof -
  have iw: "items_wf items v" and made: "\<exists>n. items = request_items this (rc_request c) (rc_limits c) (clock n)"
    and left: "pipe_left this False (rc_hits c) items v []" "pipe_left this True (rc_hits c) items v (d # ps)"
    using wf st by (simp_all add: call_wf_def)
  have b: "cnt (perSecondRedis s) k + unat (rc_hits c) < 2 ^ 32" if "replied_in this True k items v (d # ps) = None" for k
    using bound [of True k] that st by (simp add: on_count_def)
  obtain x r v' where step: "rx_Do rx d (perSecondRedis s) = (Inr x, r)" "v' = v\<lparr>results := receive d x (results v)\<rparr>"
    "items_wf items v'" "pipe_left this True (rc_hits c) items v' ps"
    "\<forall>qs b. pipe_left this b (rc_hits c) items v' qs = pipe_left this b (rc_hits c) items v qs"
    "command_counts this cnt (unat (rc_hits c)) True items v (d # ps) (perSecondRedis s) v' ps r"
    by (rule command_effect [OF laws iw left(2) b])
  let ?st = "Counting items v' [] ps" and ?t = "s\<lparr>perSecondRedis := r\<rparr>"
  have "advance pf rx this (rc_request c) (rc_limits c) (rc_state c) s = (Inr ?st, ?t)"
    using step(1,2) st by (simp add: on_perSecondRedis_def command_def monad_simps)
  moreover have "call_wf this clock (c\<lparr>rc_state := ?st\<rparr>)"
    using step(3-5) made left(1) by (simp add: call_wf_def rc_hits_def)
  moreover have "found_key k ?st \<longrightarrow> found_key k (rc_state c)" for k using step(2) st by simp
  ultimately show ?thesis
    unfolding step_effect_def using command_counts_perSecondRedis [OF step(6)] clock st
    by (intro exI [of _ ?st] exI [of _ ?t] conjI) (auto intro!: cache_from_same)
qed

text \<open>Any step of a request that is not at its end.\<close>

lemma advance_effect:
  fixes s :: "('lc, 'r, 'x) redis_state_scheme"
  assumes laws: "redis_laws rx cnt" and sound: "cache_sound pf contents" and clock: "now_at s = clock"
    and fine: "call_fine this clock c" and wf: "call_wf this clock c" and going: "\<not> finished (rc_state c)"
    and bound: "\<And>b k. replied this b k (rc_state c) = None \<Longrightarrow> on_count cnt b s k + unat (rc_hits c) < 2 ^ 32"
  shows "\<exists>st t. advance pf rx this (rc_request c) (rc_limits c) (rc_state c) s = (Inr st, t) \<and>
    step_effect contents this cnt clock c s st t"
proof -
  consider (arrived) "rc_state c = Arrived" | (main) items v d cs ps where "rc_state c = Counting items v (d # cs) ps"
    | (per_second) items v d ps where "rc_state c = Counting items v [] (d # ps)"
    | (answer) items v where "rc_state c = Counting items v [] []"
    using going by (cases "rc_state c") (simp_all, metis list.exhaust)
  then show ?thesis
  proof cases
    case arrived
    obtain st t where "prepare pf this (rc_request c) (rc_limits c) s = (Inr st, t)"
      "call_wf this clock (c\<lparr>rc_state := st\<rparr>)" "now_at t = clock" "counts_nothing this cnt Arrived s st t"
      "\<forall>k. found_key k st \<longrightarrow> k \<in> cached contents (localCache s)"
      "cached contents (localCache t) \<subseteq> cached contents (localCache s)"
      using prepare_effect [OF sound fine [folded clock] arrived, of cnt] clock by auto
    then show ?thesis using arrived
      by (intro exI [of _ st] exI [of _ t]) (auto simp: step_effect_def intro!: cache_from_same)
  next
    case main
    show ?thesis by (rule redis_command_effect [OF laws clock wf main bound])
  next
    case per_second
    show ?thesis by (rule perSecondRedis_command_effect [OF laws clock wf per_second bound])
  next
    case answer
    have iw: "items_wf items v" and made: "\<exists>n. items = request_items this (rc_request c) (rc_limits c) (clock n)"
      using wf answer by (simp_all add: call_wf_def)
    obtain sts t where ans: "mapM (fetch_status pf this (rc_hits c) v) items s = (Inr sts, t)" "now_at t = now_at s"
      "list_all2 (status_for (isOverLimitWithLocalCache v) (results v)) items sts"
      "counts_nothing this cnt (Counting items v [] []) s (Answered items v sts) t"
      "cache_from contents this (Counting items v [] []) items s t"
      using answer_effect [OF sound iw, of this "rc_hits c" s cnt] by (elim exE conjE) (rule that)
    have "advance pf rx this (rc_request c) (rc_limits c) (rc_state c) s = (Inr (Answered items v sts), t)"
      using ans(1) answer by (simp add: rc_hits_def monad_simps)
    moreover have "step_effect contents this cnt clock c s (Answered items v sts) t"
      unfolding step_effect_def using ans(2-5) answer iw made clock by (auto simp: call_wf_def)
    ultimately show ?thesis by blast
  qed
qed

section \<open>Lemmas: all requests together\<close>

lemma sum_list_pick:
  fixes f g :: "'a \<Rightarrow> nat"
  assumes "x \<in> set xs" and "f x = 0" and "\<And>y. f y \<le> g y"
  shows "sum_list (map f xs) + g x \<le> sum_list (map g xs)"
  using assms(1)
proof (induction xs)
  case (Cons y ys)
  have mono: "sum_list (map f zs) \<le> sum_list (map g zs)" for zs by (rule sum_list_mono) (rule assms(3))
  show ?case
  proof (cases "x \<in> set ys")
    case True
    with Cons.IH assms(3) [of y] show ?thesis by simp
  next
    case False
    with Cons.prems assms(2) mono [of ys] show ?thesis by simp
  qed
qed simp

lemma sum_list_swap:
  fixes f :: "'a \<Rightarrow> nat"
  shows "i < length xs \<Longrightarrow> sum_list (map f (xs[i := x])) + f (xs ! i) = sum_list (map f xs) + f x"
  by (simp add: map_update sum_list_update) (metis Nat.diff_add_assoc2 elem_le_sum_list length_map nth_map trans_le_add1 diff_add)

text \<open>The hits of the requests that have counted a key with a reply that satisfies \<open>P\<close>.\<close>

definition tally :: "fixedRateLimitCacheImpl \<Rightarrow> bool \<Rightarrow> string \<Rightarrow> (nat \<Rightarrow> bool) \<Rightarrow> call \<Rightarrow> nat" where
  "tally this b k P c =
     (case replied this b k (rc_state c) of None \<Rightarrow> 0 | Some a \<Rightarrow> if P a then unat (rc_hits c) else 0)"

definition total_hits :: "call list \<Rightarrow> nat" where
  "total_hits calls = sum_list (map (\<lambda>c. unat (rc_hits c)) calls)"

text \<open>
  The accounts of a key: its counter has grown by the hits of the requests that have counted it,
  replies are at most the counter, and the hits behind replies up to a value fit below that value.
\<close>

definition accounts ::
  "fixedRateLimitCacheImpl \<Rightarrow> ('r \<Rightarrow> string \<Rightarrow> nat) \<Rightarrow> bool \<Rightarrow> string \<Rightarrow> nat \<Rightarrow> call list
    \<Rightarrow> ('lc, 'r, 'x) redis_state_scheme \<Rightarrow> bool" where
  "accounts this cnt b k c0 calls s \<longleftrightarrow>
     on_count cnt b s k = c0 + sum_list (map (tally this b k (\<lambda>_. True)) calls) \<and>
     (\<forall>c \<in> set calls. \<forall>a. replied this b k (rc_state c) = Some a \<longrightarrow> a \<le> on_count cnt b s k) \<and>
     (\<forall>m. c0 + sum_list (map (tally this b k (\<lambda>a. a \<le> m)) calls) \<le> max m c0)"

lemma accounts_same:
  assumes "accounts this cnt b k c0 calls s" and "i < length calls"
    and same: "replied this b k st = replied this b k (rc_state (calls ! i))" "on_count cnt b t k = on_count cnt b s k"
  shows "accounts this cnt b k c0 (calls[i := (calls ! i)\<lparr>rc_state := st\<rparr>]) t"
proof -
  let ?c = "(calls ! i)\<lparr>rc_state := st\<rparr>"
  have "tally this b k P ?c = tally this b k P (calls ! i)" for P by (simp add: tally_def same(1) split: option.split)
  then have sums: "map (tally this b k P) (calls[i := ?c]) = map (tally this b k P) calls" for P
    using assms(2) by (simp add: map_update list_update_same_conv)
  have "\<forall>c \<in> set (calls[i := ?c]). \<forall>a. replied this b k (rc_state c) = Some a \<longrightarrow> a \<le> on_count cnt b t k"
    using assms(1,2) same set_update_subset_insert [of calls i ?c] by (fastforce simp: accounts_def)
  with assms(1) same(2) show ?thesis by (simp add: accounts_def sums)
qed

lemma accounts_one:
  assumes acc: "accounts this cnt b k c0 calls s" and i: "i < length calls"
    and one: "counts_one this cnt (unat (rc_hits (calls ! i))) b k (rc_state (calls ! i)) s st t"
  shows "accounts this cnt b k c0 (calls[i := (calls ! i)\<lparr>rc_state := st\<rparr>]) t"
proof -
  let ?c = "(calls ! i)\<lparr>rc_state := st\<rparr>" and ?h = "unat (rc_hits (calls ! i))" and ?a = "on_count cnt b s k + unat (rc_hits (calls ! i))"
  have new: "replied this b k (rc_state (calls ! i)) = None" "replied this b k st = Some ?a" "on_count cnt b t k = ?a"
    using one by (auto simp: counts_one_def)
  have t: "tally this b k P (calls ! i) = 0" "tally this b k P ?c = (if P ?a then ?h else 0)" for P
    using new by (simp_all add: tally_def rc_hits_def)
  have sums: "sum_list (map (tally this b k P) (calls[i := ?c])) = sum_list (map (tally this b k P) calls) + (if P ?a then ?h else 0)" for P
    using sum_list_swap [OF i, of "tally this b k P" ?c] t [of P] by simp
  have le: "sum_list (map (tally this b k P) calls) \<le> sum_list (map (tally this b k (\<lambda>_. True)) calls)" for P
    by (rule sum_list_mono) (auto simp: tally_def split: option.splits)
  have cnt: "on_count cnt b s k = c0 + sum_list (map (tally this b k (\<lambda>_. True)) calls)"
    and upto: "\<And>m. c0 + sum_list (map (tally this b k (\<lambda>a. a \<le> m)) calls) \<le> max m c0"
    using acc by (auto simp: accounts_def)
  have "c0 + sum_list (map (tally this b k (\<lambda>a. a \<le> m)) (calls[i := ?c])) \<le> max m c0" for m
    using upto [of m] le [of "\<lambda>a. a \<le> m"] cnt by (auto simp: sums)
  moreover have "\<forall>c \<in> set (calls[i := ?c]). \<forall>a. replied this b k (rc_state c) = Some a \<longrightarrow> a \<le> on_count cnt b t k"
    using acc i new set_update_subset_insert [of calls i ?c] by (fastforce simp: accounts_def)
  ultimately show ?thesis using cnt new(3) by (simp add: accounts_def sums)
qed

text \<open>Every step keeps the accounts of every key.\<close>

lemma accounts_step:
  assumes acc: "accounts this cnt b k c0 calls s" and i: "i < length calls"
    and eff: "counts_nothing this cnt (rc_state (calls ! i)) s st t \<or>
      (\<exists>b k. counts_one this cnt (unat (rc_hits (calls ! i))) b k (rc_state (calls ! i)) s st t)"
  shows "accounts this cnt b k c0 (calls[i := (calls ! i)\<lparr>rc_state := st\<rparr>]) t"
  using eff
proof (elim disjE exE)
  assume "counts_nothing this cnt (rc_state (calls ! i)) s st t"
  then show ?thesis by (intro accounts_same [OF acc i]) (auto simp: counts_nothing_def)
next
  fix b' k'
  assume one: "counts_one this cnt (unat (rc_hits (calls ! i))) b' k' (rc_state (calls ! i)) s st t"
  show ?thesis
  proof (cases "(b', k') = (b, k)")
    case True
    with accounts_one [OF acc i] one show ?thesis by simp
  next
    case False
    with one show ?thesis by (intro accounts_same [OF acc i]) (auto simp: counts_one_def)
  qed
qed

text \<open>What holds of all requests together, from their arrival on.\<close>

definition together ::
  "fixedRateLimitCacheImpl \<Rightarrow> ('r \<Rightarrow> string \<Rightarrow> nat) \<Rightarrow> (nat \<Rightarrow> int) \<Rightarrow> (bool \<Rightarrow> string \<Rightarrow> nat) \<Rightarrow> call list
    \<Rightarrow> ('lc, 'r, 'x) redis_state_scheme \<Rightarrow> bool" where
  "together this cnt clock c0 calls s \<longleftrightarrow> now_at s = clock \<and>
     (\<forall>c \<in> set calls. call_fine this clock c \<and> call_wf this clock c) \<and>
     (\<forall>b k. accounts this cnt b k (c0 b k) calls s)"

text \<open>A key under one limit: every request that has the key, whenever it reads the clock, has it with this limit.\<close>

definition limited_to ::
  "fixedRateLimitCacheImpl \<Rightarrow> (nat \<Rightarrow> int) \<Rightarrow> string \<Rightarrow> bool \<Rightarrow> nat \<Rightarrow> call \<Rightarrow> bool" where
  "limited_to this clock k b L c \<longleftrightarrow>
     (\<forall>n. \<forall>(j, key, lim) \<in> set (request_items this (rc_request c) (rc_limits c) (clock n)). ck_Key key = k \<longrightarrow>
        usePerSecond this key = b \<and> (\<exists>l. lim = Some l \<and> unat (RequestsPerUnit (Limit l)) = L \<and> \<not> ShadowMode l))"

definition cache_justified ::
  "('lc \<Rightarrow> string set) \<Rightarrow> ('r \<Rightarrow> string \<Rightarrow> nat) \<Rightarrow> string \<Rightarrow> bool \<Rightarrow> nat \<Rightarrow> call list
    \<Rightarrow> ('lc, 'r, 'x) redis_state_scheme \<Rightarrow> bool" where
  "cache_justified contents cnt k b L calls s \<longleftrightarrow>
     (k \<in> cached contents (localCache s) \<or> (\<exists>c \<in> set calls. found_key k (rc_state c)) \<longrightarrow> L < on_count cnt b s k)"

text \<open>How many steps a request can still make.\<close>

definition left_steps :: "call \<Rightarrow> nat" where
  "left_steps c =
     (case rc_state c of
        Arrived \<Rightarrow> 2 + 2 * length (Descriptors (rc_request c))
      | Counting items v cs ps \<Rightarrow> 1 + length cs + length ps
      | _ \<Rightarrow> 0)"

lemma left_steps_advance:
  assumes "\<not> finished (rc_state c)" and "advance pf rx this (rc_request c) (rc_limits c) (rc_state c) s = (Inr st, t)"
  shows "left_steps (c\<lparr>rc_state := st\<rparr>) < left_steps c"
proof (cases "rc_state c")
  case Arrived
  with assms(2) have "prepare pf this (rc_request c) (rc_limits c) s = (Inr st, t)" by simp
  then obtain items v where "st = Counting items v (started (pipeline v)) (started (perSecondPipeline v))"
    and "pipes v \<le> 2 * length (Descriptors (rc_request c))" by (rule prepare_pipes)
  with Arrived show ?thesis by (simp add: left_steps_def pipes_def)
next
  case (Counting items v cs ps)
  with assms(2) show ?thesis
    by (cases cs; cases ps) (auto simp: left_steps_def bind_Inr_iff prim_simps)
qed (use assms(1) in simp_all)

lemma together_bound:
  assumes "together this cnt clock c0 calls s" and "c \<in> set calls" and "replied this b k (rc_state c) = None"
  shows "on_count cnt b s k + unat (rc_hits c) \<le> c0 b k + total_hits calls"
proof -
  have "on_count cnt b s k = c0 b k + sum_list (map (tally this b k (\<lambda>_. True)) calls)"
    using assms(1) by (simp add: together_def accounts_def)
  moreover have "sum_list (map (tally this b k (\<lambda>_. True)) calls) + unat (rc_hits c) \<le> total_hits calls"
    unfolding total_hits_def
    by (rule sum_list_pick [OF assms(2), where g = "\<lambda>c. unat (rc_hits c)"])
      (use assms(3) in \<open>auto simp: tally_def split: option.splits\<close>)
  ultimately show ?thesis by simp
qed

lemma counters_grow:
  "counts_nothing this cnt st s st' t \<or> (\<exists>b k. counts_one this cnt h b k st s st' t) \<Longrightarrow> on_count cnt b s k \<le> on_count cnt b t k"
proof (elim disjE exE)
  fix b' k' assume "counts_one this cnt h b' k' st s st' t"
  then show ?thesis by (cases "(b, k) = (b', k')") (auto simp: counts_one_def)
qed (simp add: counts_nothing_def)

text \<open>The invariant, for a key under one limit.\<close>

definition sharing ::
  "('lc \<Rightarrow> string set) \<Rightarrow> fixedRateLimitCacheImpl \<Rightarrow> ('r \<Rightarrow> string \<Rightarrow> nat) \<Rightarrow> (nat \<Rightarrow> int) \<Rightarrow> (bool \<Rightarrow> string \<Rightarrow> nat)
    \<Rightarrow> string \<Rightarrow> bool \<Rightarrow> nat \<Rightarrow> nat \<Rightarrow> call list \<Rightarrow> ('lc, 'r, 'x) redis_state_scheme \<Rightarrow> bool" where
  "sharing contents this cnt clock c0 k b L N calls s \<longleftrightarrow>
     together this cnt clock c0 calls s \<and> cache_justified contents cnt k b L calls s \<and>
     (\<forall>c \<in> set calls. limited_to this clock k b L c) \<and> total_hits calls = N \<and> (\<forall>b k. c0 b k + N < 2 ^ 32)"

text \<open>A step keeps the cache justified: what it puts there, or finds there, had a count above the limit.\<close>

lemma cache_justified_step:
  assumes just: "cache_justified contents cnt k b L calls s" and mem: "c \<in> set calls" and lim: "limited_to this clock k b L c"
    and made: "items \<noteq> [] \<longrightarrow> (\<exists>n. items = request_items this (rc_request c) (rc_limits c) (clock n))"
    and from_: "cache_from contents this (rc_state c) items s t"
    and acc: "\<And>a. replied this b k (rc_state c) = Some a \<Longrightarrow> a \<le> on_count cnt b s k"
    and found: "\<forall>k. found_key k st \<longrightarrow> found_key k (rc_state c) \<or> k \<in> cached contents (localCache s)"
    and sub: "set calls' \<subseteq> insert (c\<lparr>rc_state := st\<rparr>) (set calls)" and grow: "on_count cnt b s k \<le> on_count cnt b t k"
  shows "cache_justified contents cnt k b L calls' t"
proof -
  have "L < on_count cnt b s k" if "k \<in> cached contents (localCache t)"
  proof -
    from from_ that consider "k \<in> cached contents (localCache s)"
      | j key l a where "(j, key, Some l) \<in> set items" "ck_Key key = k"
          "replied this (usePerSecond this key) k (rc_state c) = Some a" "unat (RequestsPerUnit (Limit l)) < a"
      unfolding cache_from_def by auto
    then show ?thesis
    proof cases
      case 1
      with just show ?thesis by (auto simp: cache_justified_def)
    next
      case (2 j key l a)
      from 2(1) made obtain n where "items = request_items this (rc_request c) (rc_limits c) (clock n)" by fastforce
      with 2(1,2) lim have "usePerSecond this key = b" "unat (RequestsPerUnit (Limit l)) = L"
        by (fastforce simp: limited_to_def)+
      with 2(3,4) acc [of a] show ?thesis by simp
    qed
  qed
  moreover have "L < on_count cnt b s k" if "d \<in> set calls'" "found_key k (rc_state d)" for d
  proof -
    have "d \<in> set calls \<or> rc_state d = st" using that(1) sub by auto
    with that(2) found mem have "k \<in> cached contents (localCache s) \<or> (\<exists>c \<in> set calls. found_key k (rc_state c))" by blast
    with just show ?thesis by (simp add: cache_justified_def)
  qed
  ultimately show ?thesis unfolding cache_justified_def using grow by (meson order_less_le_trans)
qed

lemma sharing_step:
  fixes s :: "('lc, 'r, 'x) redis_state_scheme"
  assumes laws: "redis_laws rx cnt" and sound: "cache_sound pf contents"
    and inv: "sharing contents this cnt clock c0 k b L N calls s"
    and step: "any_step pf rx this (calls, s) (calls', t)"
  shows "sharing contents this cnt clock c0 k b L N calls' t \<and>
    sum_list (map left_steps calls') < sum_list (map left_steps calls)"
proof -
  obtain i r where i: "i < length calls" and calls': "calls' = calls[i := (calls ! i)\<lparr>rc_state := settle r\<rparr>]"
    and run: "advance pf rx this (rc_request (calls ! i)) (rc_limits (calls ! i)) (rc_state (calls ! i)) s = (r, t)"
    and going: "\<not> finished (rc_state (calls ! i))"
    using step by (auto elim!: any_stepE)
  let ?c = "calls ! i"
  have mem: "?c \<in> set calls" using i by simp
  have tog: "together this cnt clock c0 calls s" and lim: "\<forall>c \<in> set calls. limited_to this clock k b L c"
    and just: "cache_justified contents cnt k b L calls s" and N: "total_hits calls = N" "\<forall>b k. c0 b k + N < 2 ^ 32"
    using inv by (simp_all add: sharing_def)
  have clock: "now_at s = clock" and fw: "call_fine this clock ?c" "call_wf this clock ?c"
    using tog mem by (auto simp: together_def)
  have bound: "on_count cnt b s k + unat (rc_hits ?c) < 2 ^ 32" if "replied this b k (rc_state ?c) = None" for b k
    using together_bound [OF tog mem that] N le_less_trans by blast
  obtain st u where st: "advance pf rx this (rc_request ?c) (rc_limits ?c) (rc_state ?c) s = (Inr st, u)"
    and effect: "step_effect contents this cnt clock ?c s st u"
    using advance_effect [OF laws sound clock fw going bound] by blast
  obtain items where wf: "call_wf this clock (?c\<lparr>rc_state := st\<rparr>)" "now_at u = clock"
    and eff: "counts_nothing this cnt (rc_state ?c) s st u \<or> (\<exists>b k. counts_one this cnt (unat (rc_hits ?c)) b k (rc_state ?c) s st u)"
    and found: "\<forall>k. found_key k st \<longrightarrow> found_key k (rc_state ?c) \<or> k \<in> cached contents (localCache s)"
    and from_: "cache_from contents this (rc_state ?c) items s u"
    and made: "items \<noteq> [] \<longrightarrow> (\<exists>n. items = request_items this (rc_request ?c) (rc_limits ?c) (clock n))"
    using effect unfolding step_effect_def by (elim exE conjE) (rule that)
  have [simp]: "r = Inr st" "u = t" using st run by simp_all
  have cs: "calls' = calls[i := ?c\<lparr>rc_state := st\<rparr>]" by (simp add: calls' settle_def)
  have sub: "set calls' \<subseteq> insert (?c\<lparr>rc_state := st\<rparr>) (set calls)" unfolding cs by (rule set_update_subset_insert)
  have fine': "call_fine this clock (?c\<lparr>rc_state := st\<rparr>)" "limited_to this clock k b L (?c\<lparr>rc_state := st\<rparr>)"
    using fw(1) lim mem by (auto simp: call_fine_def limited_to_def)
  have grow: "on_count cnt b s k \<le> on_count cnt b t k" using counters_grow [OF eff, of b k] by simp
  have acc: "a \<le> on_count cnt b s k" if "replied this b k (rc_state ?c) = Some a" for a
    using tog mem that unfolding together_def accounts_def by blast
  have "cache_justified contents cnt k b L calls' t"
    by (rule cache_justified_step [OF just mem _ made _ acc found sub grow]) (use lim mem from_ in simp_all)
  moreover have "together this cnt clock c0 calls' t"
    using tog sub fine' wf accounts_step [OF _ i eff] unfolding together_def cs by auto
  moreover have "total_hits calls' = N"
    using sum_list_swap [OF i, of "\<lambda>c. unat (rc_hits c)" "?c\<lparr>rc_state := st\<rparr>"] N(1) by (simp add: total_hits_def cs)
  moreover have "sum_list (map left_steps calls') < sum_list (map left_steps calls)"
    using sum_list_swap [OF i, of left_steps "?c\<lparr>rc_state := st\<rparr>"] left_steps_advance [OF going st] by (simp add: cs)
  ultimately show ?thesis using N(2) lim fine'(2) sub by (auto simp: sharing_def)
qed

lemma sharing_steps:
  fixes s :: "('lc, 'r, 'x) redis_state_scheme"
  assumes "redis_laws rx cnt" and "cache_sound pf contents" and "sharing contents this cnt clock c0 k b L N calls s"
    and "any_steps pf rx this n (calls, s) (calls', t)"
  shows "sharing contents this cnt clock c0 k b L N calls' t \<and>
    n + sum_list (map left_steps calls') \<le> sum_list (map left_steps calls)"
  using assms(4)
proof (induction n "(calls, s)" "(calls', t)" arbitrary: calls' t rule: any_steps.induct)
  case no_step
  then show ?case using assms(3) by simp
next
  case (one_more n y)
  obtain cs u where y: "y = (cs, u)" by (cases y)
  from one_more(2) [OF y] have "sharing contents this cnt clock c0 k b L N cs u"
    "n + sum_list (map left_steps cs) \<le> sum_list (map left_steps calls)" by simp_all
  with sharing_step [OF assms(1,2) _ one_more(3) [unfolded y]] show ?case by fastforce
qed

section \<open>The limit, shared by concurrent requests\<close>

text \<open>A request that has been answered with this code for a key.\<close>

definition has_code :: "string \<Rightarrow> Code \<Rightarrow> call \<Rightarrow> bool" where
  "has_code k code c =
     (case rc_state c of
        Answered items v sts \<Rightarrow> list_ex (\<lambda>((j, key, lim), st). ck_Key key = k \<and> Code st = code) (zip items sts)
      | _ \<Rightarrow> False)"

text \<open>What an answer for the key says: it came from the local cache, or from a reply.\<close>

lemma answered_for_key:
  assumes inv: "sharing contents this cnt clock c0 k b L N calls s" and c: "c \<in> set calls" and code: "has_code k code c"
  shows "(found_key k (rc_state c) \<and> code = OVER_LIMIT) \<or>
    (\<exists>a. replied this b k (rc_state c) = Some a \<and> code = (if L < a then OVER_LIMIT else OK))"
proof -
  from code obtain items v sts j key lim st where state: "rc_state c = Answered items v sts"
    and zip: "((j, key, lim), st) \<in> set (zip items sts)" and key: "ck_Key key = k" and st: "Code st = code"
    by (auto simp: has_code_def list_ex_iff split: call_state.splits)
  have "call_wf this clock c" "limited_to this clock k b L c" using inv c by (simp_all add: sharing_def together_def)
  then obtain n where wf: "items_wf items v" and items: "items = request_items this (rc_request c) (rc_limits c) (clock n)"
    and all: "list_all2 (status_for (isOverLimitWithLocalCache v) (results v)) items sts"
    and lim: "limited_to this clock k b L c"
    by (auto simp: call_wf_def state)
  have it: "(j, key, lim) \<in> set items" using zip by (rule set_zip_leftD)
  from lim it items key obtain l where l: "usePerSecond this key = b" "lim = Some l" "unat (RequestsPerUnit (Limit l)) = L"
    "\<not> ShadowMode l" by (fastforce simp: limited_to_def)
  obtain reset where ans: "st = answer (isOverLimitWithLocalCache v ! j) l (results v ! j) reset"
    using all zip l(2) by (fastforce simp: list_all2_iff status_for_def)
  have "item_ok (j, key, Some l)" using wf it l(2) by (simp add: items_wf_def list_all_iff)
  then have "item_at this b k items = Some (j, key, lim)"
    using item_at_unique [of items j key lim this] wf it key l(1) by (auto simp: items_wf_def item_ok_def)
  then show ?thesis
    using ans st it key l(3,4) by (auto simp: state replied_in_def list_ex_iff answer_def exceeded_def word_less_nat_alt)
qed

lemma admitted_within:
  assumes inv: "sharing contents this cnt clock c0 k b L N calls s" and zero: "c0 b k = 0"
  shows "total_hits (filter (has_code k OK) calls) \<le> L"
proof -
  have "total_hits (filter (has_code k OK) calls) \<le> sum_list (map (tally this b k (\<lambda>a. a \<le> L)) calls)"
    unfolding total_hits_def sum_list_map_filter'
    by (rule sum_list_mono) (use answered_for_key [OF inv, where code = OK] in \<open>fastforce simp: tally_def split: if_splits\<close>)
  also have "c0 b k + sum_list (map (tally this b k (\<lambda>a. a \<le> L)) calls) \<le> max L (c0 b k)"
    using inv by (simp add: sharing_def together_def accounts_def)
  then have "sum_list (map (tally this b k (\<lambda>a. a \<le> L)) calls) \<le> L" using zero by simp
  finally show ?thesis .
qed

lemma refused_beyond:
  assumes inv: "sharing contents this cnt clock c0 k b L N calls s" and c: "c \<in> set calls" and code: "has_code k OVER_LIMIT c"
  shows "L < on_count cnt b s k"
  using answered_for_key [OF inv c code]
proof (elim disjE conjE exE)
  assume "found_key k (rc_state c)"
  with inv c show ?thesis by (auto simp: sharing_def cache_justified_def)
next
  fix a assume a: "replied this b k (rc_state c) = Some a" "OVER_LIMIT = (if L < a then OVER_LIMIT else OK)"
  have "\<forall>b k. accounts this cnt b k (c0 b k) calls s" using inv by (simp add: sharing_def together_def)
  with a(1) c have "a \<le> on_count cnt b s k" unfolding accounts_def by blast
  moreover have "L < a" using a(2) by (simp split: if_splits)
  ultimately show ?thesis by simp
qed

lemma counted_at_most:
  assumes "sharing contents this cnt clock c0 k b L N calls s"
  shows "on_count cnt b' s k' \<le> c0 b' k' + N"
proof -
  have "sum_list (map (tally this b' k' (\<lambda>_. True)) calls) \<le> total_hits calls"
    unfolding total_hits_def by (rule sum_list_mono) (simp add: tally_def split: option.split)
  with assms show ?thesis by (auto simp: sharing_def together_def accounts_def)
qed

lemma sharing_start:
  assumes "\<forall>c \<in> set calls. rc_state c = Arrived \<and> call_fine this (now_at s) c \<and> limited_to this (now_at s) k b L c"
    and "k \<notin> cached contents (localCache s)" and "\<forall>b k. on_count cnt b s k + total_hits calls < 2 ^ 32"
  shows "sharing contents this cnt (now_at s) (\<lambda>b k. on_count cnt b s k) k b L (total_hits calls) calls s"
proof -
  have "map (tally this b k P) calls = map (\<lambda>_. 0) calls" for b k P
    using assms(1) by (intro map_cong refl) (simp add: tally_def)
  then have [simp]: "sum_list (map (tally this b k P) calls) = 0" for b k P by (simp only: sum_list_0)
  show ?thesis
    using assms by (auto simp: sharing_def together_def accounts_def cache_justified_def call_wf_def)
qed

text \<open>
  C2. Concurrent requests share a limit. Any number of requests, each with its own descriptors and
  hits, run at once on the same servers, their steps interleaved in any way; the key \<open>k\<close> of a window has
  the limit \<open>L\<close> in each of them and starts at zero, uncached. At every moment: none has panicked; the
  hits of the requests answered \<open>OK\<close> for the key are at most \<open>L\<close>; a request is refused only when more than
  \<open>L\<close> hits have been counted, so none is while all that is asked fits the limit; and the steps
  made are at most two per request and two more per descriptor, so that the requests cannot go on forever.
\<close>

theorem concurrent_requests_share_limit:
  fixes s :: "('lc, 'r, 'x) redis_state_scheme"
  assumes "redis_laws rx cnt" and "cache_sound pf contents" and "\<not> stopCacheKeyIncrementWhenOverlimit this"
    and "\<forall>c \<in> set calls. rc_state c = Arrived \<and> call_fine this (now_at s) c \<and> limited_to this (now_at s) k b L c"
    and "on_count cnt b s k = 0" and "k \<notin> cached contents (localCache s)"
    and "\<forall>b k. on_count cnt b s k + total_hits calls < 2 ^ 32"
    and "any_steps pf rx this n (calls, s) (calls', t)"
  shows "(\<forall>c \<in> set calls'. \<forall>p. rc_state c \<noteq> Panicked p) \<and>
    total_hits (filter (has_code k OK) calls') \<le> L \<and>
    (\<forall>c \<in> set calls'. has_code k OVER_LIMIT c \<longrightarrow> L < on_count cnt b t k \<and> L < total_hits calls) \<and>
    n \<le> sum_list (map (\<lambda>c. 2 + 2 * length (Descriptors (rc_request c))) calls)"
proof -
  let ?c0 = "\<lambda>b k. on_count cnt b s k"
  have start: "sharing contents this cnt (now_at s) ?c0 k b L (total_hits calls) calls s"
    by (rule sharing_start) (use assms in simp_all)
  then have inv: "sharing contents this cnt (now_at s) ?c0 k b L (total_hits calls) calls' t"
    and n: "n + sum_list (map left_steps calls') \<le> sum_list (map left_steps calls)"
    using sharing_steps [OF assms(1,2) _ assms(8)] by simp_all
  have "\<forall>c \<in> set calls'. call_wf this (now_at s) c" using inv by (simp add: sharing_def together_def)
  then have "\<forall>c \<in> set calls'. \<forall>p. rc_state c \<noteq> Panicked p" by (auto simp: call_wf_def)
  moreover have "total_hits (filter (has_code k OK) calls') \<le> L" by (rule admitted_within [OF inv assms(5)])
  moreover have "\<forall>c \<in> set calls'. has_code k OVER_LIMIT c \<longrightarrow> L < on_count cnt b t k \<and> L < total_hits calls"
    using refused_beyond [OF inv] counted_at_most [OF inv, of b k] assms(5) by fastforce
  moreover have "map left_steps calls = map (\<lambda>c. 2 + 2 * length (Descriptors (rc_request c))) calls"
    using assms(4) by (intro map_cong refl) (simp add: left_steps_def)
  with n have "n \<le> sum_list (map (\<lambda>c. 2 + 2 * length (Descriptors (rc_request c))) calls)" by (metis add_leD1)
  ultimately show ?thesis by blast
qed


section \<open>The theorems at concrete requests\<close>

lemma any_steps_first: "any_step pf rx this x y \<Longrightarrow> any_steps pf rx this n y z \<Longrightarrow> any_steps pf rx this (Suc n) x z"
  by (rotate_tac, induction rule: any_steps.induct) (auto intro: any_steps.intros)

text \<open>A request that is not at its end can go on, so the requests can be run until all are answered.\<close>

lemma requests_complete:
  fixes s :: "('lc, 'r, 'x) redis_state_scheme"
  assumes laws: "redis_laws rx cnt" and sound: "cache_sound pf contents"
    and inv: "sharing contents this cnt clock c0 k b L N calls s"
  shows "\<exists>n calls' t. any_steps pf rx this n (calls, s) (calls', t) \<and>
    sharing contents this cnt clock c0 k b L N calls' t \<and> (\<forall>c \<in> set calls'. finished (rc_state c)) \<and>
    map rc_hits calls' = map rc_hits calls"
  using inv
proof (induction "sum_list (map left_steps calls)" arbitrary: calls s rule: less_induct)
  case less
  show ?case
  proof (cases "\<forall>c \<in> set calls. finished (rc_state c)")
    case True
    with less.prems show ?thesis by (intro exI [of _ 0] exI [of _ calls] exI [of _ s]) (simp add: no_step)
  next
    case False
    then obtain i where i: "i < length calls" "\<not> finished (rc_state (calls ! i))" by (auto simp: in_set_conv_nth)
    obtain r u where a: "advance pf rx this (rc_request (calls ! i)) (rc_limits (calls ! i)) (rc_state (calls ! i)) s = (r, u)"
      by (cases "advance pf rx this (rc_request (calls ! i)) (rc_limits (calls ! i)) (rc_state (calls ! i)) s")
    let ?cs = "calls[i := (calls ! i)\<lparr>rc_state := settle r\<rparr>]"
    have one: "any_step pf rx this (calls, s) (?cs, u)" by (rule any_step [OF i(1) refl i(2) a])
    have "sharing contents this cnt clock c0 k b L N ?cs u" "sum_list (map left_steps ?cs) < sum_list (map left_steps calls)"
      using sharing_step [OF laws sound less.prems one] by simp_all
    then obtain n calls' t where rest: "any_steps pf rx this n (?cs, u) (calls', t)"
      "sharing contents this cnt clock c0 k b L N calls' t" "\<forall>c \<in> set calls'. finished (rc_state c)"
      "map rc_hits calls' = map rc_hits ?cs"
      using less.hyps [of ?cs u] by blast
    have "map rc_hits ?cs = map rc_hits calls" by (simp add: map_update list_update_same_conv i(1))
    with rest any_steps_first [OF one rest(1)] show ?thesis by metis
  qed
qed

text \<open>Two requests of six hits under a limit of ten, run to the end: one of them at most is admitted.\<close>

definition two_calls :: "call list" where
  "two_calls = map (\<lambda>h. \<lparr>rc_request = sample_rl_request h, rc_limits = [Some sample_limit, None], rc_state = Arrived\<rparr>) [6, 6]"

theorem concurrent_requests_share_limit_witness:
  "\<exists>n calls t. any_steps set_cache counter_server implicit_redis n (two_calls, sample_redis_state) (calls, t) \<and>
     (\<forall>c \<in> set calls. \<exists>items v sts. rc_state c = Answered items v sts) \<and> map rc_hits calls = [6, 6] \<and>
     total_hits (filter (has_code ''d_a_b_1200'' OK) calls) \<le> 10 \<and> n \<le> 12"
proof -
  let ?s = "sample_redis_state" and ?k = "''d_a_b_1200''"
  have calls: "\<forall>c \<in> set two_calls. rc_state c = Arrived \<and> call_fine implicit_redis (now_at ?s) c \<and>
      limited_to implicit_redis (now_at ?s) ?k False 10 c"
    using sample_limits_ok
    by (auto simp: two_calls_def call_fine_def limited_to_def sample_redis_state_def implicit_items keys_distinct_def usePerSecond_def
        implicit_redis_simps) (auto simp: sample_rl_request_def sample_limit_def NewRateLimit_def)
  have hits: "map rc_hits two_calls = [6, 6]"
    by (simp add: two_calls_def rc_hits_def sample_rl_request_def max_def)
  have "total_hits two_calls = sum_list (map unat (map rc_hits two_calls))" by (simp add: total_hits_def comp_def)
  then have total: "total_hits two_calls = 12" unfolding hits by simp
  have zero: "on_count id False ?s ?k = 0" and none: "?k \<notin> cached set (localCache ?s)"
    and small: "\<forall>b k. on_count id b ?s k + total_hits two_calls < 2 ^ 32"
    by (simp_all add: total on_count_def sample_redis_state_def cached_def)
  from requests_complete [OF counter_server_laws set_cache_sound sharing_start [OF calls none small]]
  obtain n calls t where n: "any_steps set_cache counter_server implicit_redis n (two_calls, ?s) (calls, t)"
    and fin: "\<forall>c \<in> set calls. finished (rc_state c)" and same: "map rc_hits calls = map rc_hits two_calls" by blast
  from concurrent_requests_share_limit [OF counter_server_laws set_cache_sound implicit_redis_simps(1) calls zero none small n]
  have all: "\<forall>c \<in> set calls. \<forall>p. rc_state c \<noteq> Panicked p" "total_hits (filter (has_code ?k OK) calls) \<le> 10" "n \<le> 12"
    by (simp_all add: two_calls_def sample_rl_request_def)
  have "\<exists>items v sts. rc_state c = Answered items v sts" if "c \<in> set calls" for c
    using fin all(1) that by (cases "rc_state c") auto
  with n all(2,3) same hits show ?thesis by metis
qed

end
