(* ===== verification/Health.thy ===== *)
theory Health
  imports Prelude
begin

text \<open>
  The health checker (\<open>src/server/health.go\<close>).

  The gRPC health server is outside the sources: it is the list of the \<open>SetServingStatus\<close> calls made
  on it. A Go map from component names to health is an association list with distinct keys. \<open>Ok\<close> and
  \<open>Fail\<close> hold the mutex of the checker for their whole duration, so that those of concurrent
  goroutines are sequences of whole operations; \<open>ServeHTTP\<close> reads one atomic variable.
\<close>

section \<open>The checker\<close>

datatype ServingStatus = SERVING | NOT_SERVING

record HealthChecker =
  grpc :: "(string \<times> ServingStatus) list"
  healthMap :: "(string \<times> bool) list"
  hc_ok :: u32
  hc_name :: string

definition ConfigHealthComponentName :: string where
  "ConfigHealthComponentName = ''config''"

definition RedisHealthComponentName :: string where
  "RedisHealthComponentName = ''redis''"

definition SigtermComponentName :: string where
  "SigtermComponentName = ''sigterm''"

fun areAllComponentsHealthy :: "(string \<times> bool) list \<Rightarrow> bool" where
  "areAllComponentsHealthy [] = True"
| "areAllComponentsHealthy ((_, healthy) # rest) = (if \<not> healthy then False else areAllComponentsHealthy rest)"

definition SetServingStatus :: "ServingStatus \<Rightarrow> HealthChecker \<Rightarrow> HealthChecker" where
  "SetServingStatus st hc = hc\<lparr>grpc := grpc hc @ [(hc_name hc, st)]\<rparr>"

definition set_component :: "string \<Rightarrow> bool \<Rightarrow> (string \<times> bool) list \<Rightarrow> (string \<times> bool) list" where
  "set_component c b hm = map (\<lambda>(d, x). (d, if d = c then b else x)) hm"

definition NewHealthChecker :: "(string \<times> ServingStatus) list \<Rightarrow> string \<Rightarrow> bool \<Rightarrow> HealthChecker" where
  "NewHealthChecker grpcHealthServer name healthyWithAtLeastOneConfigLoad =
     (let hc = \<lparr>grpc = grpcHealthServer,
        healthMap = [(RedisHealthComponentName, True)]
          @ (if healthyWithAtLeastOneConfigLoad then [(ConfigHealthComponentName, False)] else [])
          @ [(SigtermComponentName, True)],
        hc_ok = 0, hc_name = name\<rparr>
      in if areAllComponentsHealthy (healthMap hc)
         then (SetServingStatus SERVING hc)\<lparr>hc_ok := 1\<rparr>
         else (SetServingStatus NOT_SERVING hc)\<lparr>hc_ok := 0\<rparr>)"

text \<open>The error of an unknown component is returned with the unchanged checker.\<close>

definition Fail :: "string \<Rightarrow> HealthChecker \<Rightarrow> string option \<times> HealthChecker" where
  "Fail componentName hc =
     (if componentName \<in> fst ` set (healthMap hc)
      then (None, SetServingStatus NOT_SERVING
             (hc\<lparr>healthMap := set_component componentName False (healthMap hc), hc_ok := 0\<rparr>))
      else (Some (''Invalid component: '' @ componentName), hc))"

definition Ok :: "string \<Rightarrow> HealthChecker \<Rightarrow> string option \<times> HealthChecker" where
  "Ok componentName hc =
     (if componentName \<in> fst ` set (healthMap hc)
      then let hc = hc\<lparr>healthMap := set_component componentName True (healthMap hc)\<rparr> in
           (None, if areAllComponentsHealthy (healthMap hc)
                  then SetServingStatus SERVING (hc\<lparr>hc_ok := 1\<rparr>) else hc)
      else (Some (''Invalid component: '' @ componentName), hc))"

text \<open>\<open>ServeHTTP\<close>: the status code and the body.\<close>

definition ServeHTTP :: "HealthChecker \<Rightarrow> nat \<times> string" where
  "ServeHTTP hc = (if hc_ok hc = 1 then (200, ''OK'') else (500, ''''))"

section \<open>Lemmas\<close>

lemma areAllComponentsHealthy_iff: "areAllComponentsHealthy hm \<longleftrightarrow> (\<forall>(c, b) \<in> set hm. b)"
  by (induction hm rule: areAllComponentsHealthy.induct) auto

lemma set_component_keys [simp]: "map fst (set_component c b hm) = map fst hm"
  by (induction hm) (auto simp: set_component_def)

lemma map_of_set_component:
  "map_of (set_component c b hm) d = (if d = c \<and> c \<in> fst ` set hm then Some b else map_of hm d)"
proof (induction hm)
  case (Cons x hm)
  then show ?case by (cases x) (auto simp: set_component_def rev_image_eqI)
qed (simp add: set_component_def)

text \<open>The operations a client of the checker can make; an unknown component is refused.\<close>

datatype health_op = OpOk string | OpFail string

fun apply_op :: "health_op \<Rightarrow> HealthChecker \<Rightarrow> HealthChecker" where
  "apply_op (OpOk c) hc = snd (Ok c hc)"
| "apply_op (OpFail c) hc = snd (Fail c hc)"

text \<open>The reference: the last operation on each component decides, and all must be healthy.\<close>

fun op_component :: "health_op \<Rightarrow> string" where
  "op_component (OpOk c) = c"
| "op_component (OpFail c) = c"

fun op_healthy :: "health_op \<Rightarrow> bool" where
  "op_healthy (OpOk c) = True"
| "op_healthy (OpFail c) = False"

definition component_health :: "bool \<Rightarrow> health_op list \<Rightarrow> string \<Rightarrow> bool" where
  "component_health initially ops c =
     (let xs = filter (\<lambda>x. op_component x = c) ops in if xs = [] then initially else op_healthy (last xs))"

lemma component_health_snoc:
  "component_health ini (ops @ [x]) c = (if op_component x = c then op_healthy x else component_health ini ops c)"
  by (simp add: component_health_def)

text \<open>The invariant of the checker: what is reported is that all components are healthy.\<close>

definition health_inv :: "HealthChecker \<Rightarrow> bool" where
  "health_inv hc \<longleftrightarrow> distinct (map fst (healthMap hc)) \<and> grpc hc \<noteq> [] \<and>
     hc_ok hc = (if areAllComponentsHealthy (healthMap hc) then 1 else 0) \<and>
     last (grpc hc) = (hc_name hc, if areAllComponentsHealthy (healthMap hc) then SERVING else NOT_SERVING)"

lemma areAll_set_False:
  "c \<in> fst ` set hm \<Longrightarrow> \<not> areAllComponentsHealthy (set_component c False hm)"
  by (induction hm rule: areAllComponentsHealthy.induct) (auto simp: set_component_def)

lemma areAll_set_True:
  "areAllComponentsHealthy hm \<Longrightarrow> areAllComponentsHealthy (set_component c True hm)"
  by (induction hm rule: areAllComponentsHealthy.induct) (auto simp: set_component_def split: if_splits)

lemma NewHealthChecker_inv: "health_inv (NewHealthChecker g n b)"
  by (auto simp: health_inv_def NewHealthChecker_def SetServingStatus_def Let_def
      RedisHealthComponentName_def ConfigHealthComponentName_def SigtermComponentName_def)

lemma Fail_inv: "health_inv hc \<Longrightarrow> health_inv (snd (Fail c hc))"
  by (auto simp: health_inv_def Fail_def SetServingStatus_def areAll_set_False)

lemma Ok_inv: "health_inv hc \<Longrightarrow> health_inv (snd (Ok c hc))"
  by (auto simp: health_inv_def Ok_def SetServingStatus_def Let_def dest: areAll_set_True split: if_splits)

lemma apply_op_inv: "health_inv hc \<Longrightarrow> health_inv (apply_op x hc)"
  by (cases x) (simp_all add: Ok_inv Fail_inv)

lemma apply_op_map:
  "map_of (healthMap (apply_op x hc)) c =
     (if c = op_component x \<and> c \<in> fst ` set (healthMap hc) then Some (op_healthy x) else map_of (healthMap hc) c)"
  by (cases x) (auto simp: Ok_def Fail_def SetServingStatus_def Let_def map_of_set_component)

lemma apply_op_keys [simp]: "map fst (healthMap (apply_op x hc)) = map fst (healthMap hc)"
  by (cases x) (auto simp: Ok_def Fail_def SetServingStatus_def Let_def)

lemma apply_ops_keys [simp]: "map fst (healthMap (fold apply_op ops hc)) = map fst (healthMap hc)"
  by (induction ops arbitrary: hc) simp_all

lemma apply_ops_inv: "health_inv hc \<Longrightarrow> health_inv (fold apply_op ops hc)"
  by (induction ops arbitrary: hc) (simp_all add: apply_op_inv)

lemma apply_ops_health:
  assumes "map_of (healthMap hc) c = Some b"
  shows "map_of (healthMap (fold apply_op ops hc)) c = Some (component_health b ops c)"
proof (induction ops rule: rev_induct)
  case Nil
  then show ?case using assms by (simp add: component_health_def)
next
  case (snoc x ops)
  have "c \<in> fst ` set (healthMap (fold apply_op ops hc))"
    using snoc by (force dest: map_of_SomeD)
  with snoc show ?case by (auto simp: apply_op_map component_health_snoc)
qed

lemma areAll_map_of:
  "distinct (map fst hm) \<Longrightarrow> areAllComponentsHealthy hm \<longleftrightarrow> (\<forall>c b. map_of hm c = Some b \<longrightarrow> b)"
  by (force simp: areAllComponentsHealthy_iff)

lemma map_of_all: "(\<forall>c b. map_of m c = Some b \<longrightarrow> b) \<longleftrightarrow> (\<forall>c \<in> fst ` set m. the (map_of m c))"
  by (force simp flip: dom_map_of_conv_image_fst)

section \<open>Properties\<close>

lemma health_reports:
  "let hc = fold apply_op ops (NewHealthChecker g name needConfig);
       healthy = component_health True ops ''redis'' \<and> component_health True ops ''sigterm'' \<and>
         (needConfig \<longrightarrow> component_health False ops ''config'')
   in (fst (ServeHTTP hc) = 200 \<longleftrightarrow> healthy) \<and> (fst (ServeHTTP hc) = 500 \<longleftrightarrow> \<not> healthy) \<and>
      last (grpc hc) = (hc_name hc, if healthy then SERVING else NOT_SERVING)"
proof -
  let ?new = "NewHealthChecker g name needConfig"
  let ?hc = "fold apply_op ops ?new"
  have hm: "healthMap ?new = [(''redis'', True)] @ (if needConfig then [(''config'', False)] else []) @ [(''sigterm'', True)]"
    by (simp add: NewHealthChecker_def Let_def SetServingStatus_def RedisHealthComponentName_def
        ConfigHealthComponentName_def SigtermComponentName_def)
  have inv: "health_inv ?hc" by (rule apply_ops_inv [OF NewHealthChecker_inv])
  have dist: "distinct (map fst (healthMap ?hc))" using inv by (simp only: health_inv_def)
  have keyset: "fst ` set (healthMap ?hc) = {''redis'', ''sigterm''} \<union> (if needConfig then {''config''} else {})"
    by (simp only: set_map [symmetric] apply_ops_keys) (auto simp: hm)
  have r: "map_of (healthMap ?hc) ''redis'' = Some (component_health True ops ''redis'')"
    "map_of (healthMap ?hc) ''sigterm'' = Some (component_health True ops ''sigterm'')"
    "needConfig \<Longrightarrow> map_of (healthMap ?hc) ''config'' = Some (component_health False ops ''config'')"
    by (rule apply_ops_health; unfold hm; simp)+
  have "areAllComponentsHealthy (healthMap ?hc) \<longleftrightarrow>
      component_health True ops ''redis'' \<and> component_health True ops ''sigterm'' \<and>
      (needConfig \<longrightarrow> component_health False ops ''config'')"
    unfolding areAll_map_of [OF dist] map_of_all keyset using r(1,2) by (cases needConfig) (use r(3) in auto)
  with inv show ?thesis by (simp add: health_inv_def ServeHTTP_def Let_def)
qed

text \<open>
  C12. Health. After any sequence of operations on a new checker, HTTP answers 200 and the gRPC health
  server was last told \<open>SERVING\<close> exactly when the last operation on each of the components
  \<open>redis\<close>, \<open>sigterm\<close> and, if a configuration is demanded, \<open>config\<close> was \<open>Ok\<close>; without an operation
  \<open>redis\<close> and \<open>sigterm\<close> count as healthy and \<open>config\<close> does not.
\<close>

theorem HealthChecker_refines:
  "let hc = fold apply_op ops (NewHealthChecker g name needConfig);
       healthy = component_health True ops ''redis'' \<and> component_health True ops ''sigterm'' \<and>
         (if needConfig then component_health False ops ''config'' else True)
   in (fst (ServeHTTP hc) = 200 \<longleftrightarrow> healthy) \<and> (fst (ServeHTTP hc) = 500 \<longleftrightarrow> \<not> healthy) \<and>
      last (grpc hc) = (hc_name hc, if healthy then SERVING else NOT_SERVING)"
  using health_reports [of ops g name needConfig] unfolding Let_def if_bool_eq_conj simp_thms .

text \<open>
  Termination is final. Once the signal handler has failed the component \<open>sigterm\<close>, no operation
  on other components makes the service healthy again.
\<close>

lemma sigterm_is_final:
  assumes "health_inv hc" and "''sigterm'' \<in> fst ` set (healthMap hc)"
    and "\<forall>x \<in> set ops. op_component x \<noteq> SigtermComponentName"
  shows "ServeHTTP (fold apply_op ops (snd (Fail SigtermComponentName hc))) = (500, '''')"
proof -
  let ?hc = "snd (Fail SigtermComponentName hc)"
  have f: "map_of (healthMap ?hc) ''sigterm'' = Some False"
    using assms(2) by (simp add: Fail_def SetServingStatus_def SigtermComponentName_def map_of_set_component)
  have "filter (\<lambda>x. op_component x = ''sigterm'') ops = []"
    using assms(3) by (auto simp: SigtermComponentName_def)
  then have "\<not> component_health False ops ''sigterm''" by (simp add: component_health_def)
  with apply_ops_health [OF f, of ops]
  have m: "map_of (healthMap (fold apply_op ops ?hc)) ''sigterm'' = Some False" by simp
  have inv: "health_inv (fold apply_op ops ?hc)" by (rule apply_ops_inv [OF Fail_inv [OF assms(1)]])
  then have "\<not> areAllComponentsHealthy (healthMap (fold apply_op ops ?hc))"
    using m by (auto simp: areAllComponentsHealthy_iff dest: map_of_SomeD)
  with inv show ?thesis by (simp add: health_inv_def ServeHTTP_def)
qed

lemma sigterm_is_final_witness:
  "ServeHTTP (fold apply_op [OpFail ''redis'', OpOk ''redis'']
     (snd (Fail SigtermComponentName (NewHealthChecker [] ''ratelimit'' False)))) = (500, '''')"
  by (rule sigterm_is_final [OF NewHealthChecker_inv])
    (simp_all add: NewHealthChecker_def Let_def SetServingStatus_def SigtermComponentName_def
      RedisHealthComponentName_def)

end
