(* ===== verification/Redis_Pool.thy ===== *)
theory Redis_Pool
  imports Health
begin

text \<open>
  How a redis connection pool reports to the health checker: the callbacks of \<open>poolTrace\<close>
  (\<open>src/redis/driver_impl.go\<close>). Connections are made and closed by goroutines of the pool, and no lock
  is held over a callback. So a callback is a list of operations, each of them atomic (the gauge and the
  counters are atomic variables, the checker has a mutex), and the operations of the callbacks of
  different connections interleave in any way.
\<close>

section \<open>The callbacks\<close>

record poolStats =
  connectionActive :: u64
  connectionTotal :: u64
  connectionClose :: u64

definition newPoolStats :: poolStats where
  "newPoolStats = \<lparr>connectionActive = 0, connectionTotal = 0, connectionClose = 0\<rparr>"

text \<open>\<open>IfNoActive\<close> is the reading of the gauge and the branch on its value.\<close>

datatype trace_op =
    TotalAdd
  | ActiveAdd
  | ReportOk
  | ActiveSub
  | CloseAdd
  | IfNoActive "trace_op list"
  | ReportFail

text \<open>
  \<open>failed\<close> tells whether \<open>newConn.Err\<close> is set, which is only logged; \<open>check\<close> is
  \<open>healthCheckActiveConnection \<and> srv \<noteq> nil\<close>.
\<close>

definition ConnCreated :: "bool \<Rightarrow> bool \<Rightarrow> trace_op list" where
  "ConnCreated check failed =
     (if \<not> failed then [TotalAdd, ActiveAdd] @ (if check then [ReportOk] else []) else [])"

definition ConnClosed :: "bool \<Rightarrow> trace_op list" where
  "ConnClosed check = [ActiveSub, CloseAdd] @ (if check then [IfNoActive [ReportFail]] else [])"

text \<open>One operation: what it does, and the operations it leads to. Errors of the checker are only logged.\<close>

fun trace_step :: "trace_op \<Rightarrow> poolStats \<times> HealthChecker \<Rightarrow> trace_op list \<times> poolStats \<times> HealthChecker" where
  "trace_step TotalAdd (ps, hc) = ([], ps\<lparr>connectionTotal := connectionTotal ps + 1\<rparr>, hc)"
| "trace_step ActiveAdd (ps, hc) = ([], ps\<lparr>connectionActive := connectionActive ps + 1\<rparr>, hc)"
| "trace_step ReportOk (ps, hc) = ([], ps, snd (Ok RedisHealthComponentName hc))"
| "trace_step ActiveSub (ps, hc) = ([], ps\<lparr>connectionActive := connectionActive ps - 1\<rparr>, hc)"
| "trace_step CloseAdd (ps, hc) = ([], ps\<lparr>connectionClose := connectionClose ps + 1\<rparr>, hc)"
| "trace_step (IfNoActive ops) (ps, hc) = (if connectionActive ps = 0 then ops else [], ps, hc)"
| "trace_step ReportFail (ps, hc) = ([], ps, snd (Fail RedisHealthComponentName hc))"

section \<open>Connections\<close>

text \<open>
  A connection: whether it has been closed, and what is left of the callback it is in. The callback
  \<open>ConnCreated\<close> of a connection has returned before the connection is used, and so before it is closed;
  a connection that could not be made is not one. Meanwhile other goroutines may report the health of
  other components.
\<close>

record connection =
  closed :: bool
  todo :: "trace_op list"

inductive pool_step ::
  "bool \<Rightarrow> connection list \<times> poolStats \<times> HealthChecker \<Rightarrow> connection list \<times> poolStats \<times> HealthChecker \<Rightarrow> bool"
  for check where
  create: "pool_step check (cs, s) (cs @ [\<lparr>closed = False, todo = ConnCreated check False\<rparr>], s)"
| close: "i < length cs \<Longrightarrow> \<not> closed (cs ! i) \<Longrightarrow> todo (cs ! i) = [] \<Longrightarrow>
    pool_step check (cs, s) (cs[i := \<lparr>closed = True, todo = ConnClosed check\<rparr>], s)"
| callback: "i < length cs \<Longrightarrow> todo (cs ! i) = op # ops \<Longrightarrow> trace_step op s = (new, t) \<Longrightarrow>
    pool_step check (cs, s) (cs[i := (cs ! i)\<lparr>todo := new @ ops\<rparr>], t)"
| other: "op_component x \<noteq> RedisHealthComponentName \<Longrightarrow> pool_step check (cs, ps, hc) (cs, ps, apply_op x hc)"

text \<open>The same as a function of a schedule, for examples.\<close>

datatype pick = Create | Close nat | Continue nat

fun pick_step :: "bool \<Rightarrow> pick \<Rightarrow> connection list \<times> poolStats \<times> HealthChecker \<Rightarrow> connection list \<times> poolStats \<times> HealthChecker" where
  "pick_step check Create (cs, s) = (cs @ [\<lparr>closed = False, todo = ConnCreated check False\<rparr>], s)"
| "pick_step check (Close i) (cs, s) =
     (if i < length cs \<and> \<not> closed (cs ! i) \<and> todo (cs ! i) = []
      then (cs[i := \<lparr>closed = True, todo = ConnClosed check\<rparr>], s) else (cs, s))"
| "pick_step check (Continue i) (cs, s) =
     (if i < length cs
      then case todo (cs ! i) of
          [] \<Rightarrow> (cs, s)
        | op # ops \<Rightarrow> (case trace_step op s of (new, t) \<Rightarrow> (cs[i := (cs ! i)\<lparr>todo := new @ ops\<rparr>], t))
      else (cs, s))"

lemma pick_step_sound: "(pool_step check)\<^sup>*\<^sup>* cfg (pick_step check p cfg)"
proof (cases cfg; cases p)
  fix cs s i
  assume "cfg = (cs, s)" and "p = Continue i"
  then show ?thesis
    by (auto split: list.split prod.split intro!: r_into_rtranclp pool_step.callback)
qed (auto intro!: r_into_rtranclp pool_step.create pool_step.close)

lemma picks_sound: "(pool_step check)\<^sup>*\<^sup>* cfg (fold (pick_step check) picks cfg)"
proof (induction picks arbitrary: cfg)
  case (Cons p picks)
  from rtranclp_trans [OF pick_step_sound Cons.IH] show ?case by simp
qed simp

section \<open>The invariant\<close>

text \<open>
  What a connection has added to the gauge and to the counters so far, and whether it is in one of its two
  callbacks at all.
\<close>

definition gauged :: "connection \<Rightarrow> bool" where
  "gauged c \<longleftrightarrow> (if closed c then ActiveSub \<in> set (todo c) else ActiveAdd \<notin> set (todo c))"

definition totalled :: "connection \<Rightarrow> bool" where
  "totalled c \<longleftrightarrow> TotalAdd \<notin> set (todo c)"

definition close_noted :: "connection \<Rightarrow> bool" where
  "close_noted c \<longleftrightarrow> closed c \<and> CloseAdd \<notin> set (todo c)"

definition conn_inv :: "connection \<Rightarrow> bool" where
  "conn_inv c \<longleftrightarrow>
     (if closed c
      then todo c \<in> {[ActiveSub, CloseAdd, IfNoActive [ReportFail]], [CloseAdd, IfNoActive [ReportFail]],
             [IfNoActive [ReportFail]], [ReportFail], []}
      else todo c \<in> {[TotalAdd, ActiveAdd, ReportOk], [ActiveAdd, ReportOk], [ReportOk], []})"

text \<open>
  Redis is reported healthy only before the first connection, or while a connection is open, still
  counted as active, or about to look whether it was the last one.
\<close>

definition pending_failure :: "connection \<Rightarrow> bool" where
  "pending_failure c \<longleftrightarrow> \<not> closed c \<or> todo c \<noteq> []"

definition pool_inv :: "connection list \<times> poolStats \<times> HealthChecker \<Rightarrow> bool" where
  "pool_inv = (\<lambda>(cs, ps, hc). list_all conn_inv cs \<and> health_inv hc \<and> ''redis'' \<in> fst ` set (healthMap hc) \<and>
     connectionActive ps = of_nat (length (filter gauged cs)) \<and>
     connectionTotal ps = of_nat (length (filter totalled cs)) \<and>
     connectionClose ps = of_nat (length (filter close_noted cs)) \<and>
     (cs = [] \<or> map_of (healthMap hc) ''redis'' = Some False \<or> list_ex pending_failure cs))"

text \<open>Counting connections after one of them has moved.\<close>

lemma count_update:
  assumes "i < length cs"
  shows "(of_nat (length (filter P (cs[i := c]))) :: u64) =
    of_nat (length (filter P cs)) + (if P c then 1 else 0) - (if P (cs ! i) then 1 else 0)"
  using assms
proof (induction cs arbitrary: i)
  case (Cons d cs)
  then show ?case by (cases i) auto
qed simp

lemma pool_inv_update:
  assumes inv: "pool_inv (cs, ps, hc)" and i: "i < length cs" and c: "conn_inv c" and hc': "health_inv hc'" "''redis'' \<in> fst ` set (healthMap hc')"
    and "connectionActive ps' = connectionActive ps + (if gauged c then 1 else 0) - (if gauged (cs ! i) then 1 else 0)"
    and "connectionTotal ps' = connectionTotal ps + (if totalled c then 1 else 0) - (if totalled (cs ! i) then 1 else 0)"
    and "connectionClose ps' = connectionClose ps + (if close_noted c then 1 else 0) - (if close_noted (cs ! i) then 1 else 0)"
    and redis: "map_of (healthMap hc') ''redis'' = Some False \<or> list_ex pending_failure (cs[i := c])"
  shows "pool_inv (cs[i := c], ps', hc')"
proof -
  have "list_all conn_inv (cs[i := c])"
    using inv i c by (simp add: pool_inv_def list_all_length nth_list_update)
  with assms show ?thesis by (simp add: pool_inv_def count_update)
qed

lemma redis_component:
  assumes "''redis'' \<in> fst ` set (healthMap hc)"
  shows "map_of (healthMap (snd (Ok RedisHealthComponentName hc))) ''redis'' = Some True"
    and "map_of (healthMap (snd (Fail RedisHealthComponentName hc))) ''redis'' = Some False"
    and "fst ` set (healthMap (snd (Ok RedisHealthComponentName hc))) = fst ` set (healthMap hc)"
    and "fst ` set (healthMap (snd (Fail RedisHealthComponentName hc))) = fst ` set (healthMap hc)"
  using assms
  by (simp_all add: Ok_def Fail_def Let_def SetServingStatus_def RedisHealthComponentName_def map_of_set_component
      flip: set_map)

lemmas conn_defs = gauged_def totalled_def close_noted_def conn_inv_def pending_failure_def

lemma pending_failure_update: "i < length cs \<Longrightarrow> pending_failure c \<Longrightarrow> list_ex pending_failure (cs[i := c])"
  by (auto simp: list_ex_length intro!: exI [of _ i])

text \<open>A connection that finds the gauge above zero leaves another one that will have to look.\<close>

lemma another_active:
  assumes "connectionActive ps \<noteq> 0" and "connectionActive ps = of_nat (length (filter gauged cs))"
    and "i < length cs" and "\<not> gauged (cs ! i)"
  shows "list_ex pending_failure (cs[i := c])"
proof -
  have "filter gauged cs \<noteq> []" using assms(1,2) by auto
  then obtain j where j: "j < length cs" "gauged (cs ! j)" by (auto simp: filter_empty_conv in_set_conv_nth)
  with assms(4) have "j \<noteq> i" by auto
  moreover have "pending_failure (cs ! j)" using j(2) by (auto simp: conn_defs split: if_splits)
  ultimately show ?thesis using j(1) by (auto simp: list_ex_length intro!: exI [of _ j])
qed

lemma pool_inv_callback:
  assumes inv: "pool_inv (cs, ps, hc)" and i: "i < length cs" and op: "todo (cs ! i) = op # ops"
    and st: "trace_step op (ps, hc) = (new, ps', hc')"
  shows "pool_inv (cs[i := (cs ! i)\<lparr>todo := new @ ops\<rparr>], ps', hc')"
proof -
  have c: "conn_inv (cs ! i)" and h: "health_inv hc" "''redis'' \<in> fst ` set (healthMap hc)"
    and g: "connectionActive ps = of_nat (length (filter gauged cs))"
    using inv i by (simp_all add: pool_inv_def list_all_length)
  have h': "health_inv hc'" "''redis'' \<in> fst ` set (healthMap hc')"
    using st h by (cases op; force simp: redis_component [OF h(2)] Ok_inv Fail_inv)+
  have red: "map_of (healthMap hc') ''redis'' = Some False" if "op = ReportFail"
    using st that by (auto simp: redis_component [OF h(2)])
  note upd = pool_inv_update [OF inv i _ h'] and pend = pending_failure_update [OF i]
  show ?thesis
  proof (cases op)
    case (IfNoActive alts)
    then have cs: "closed (cs ! i)" "alts = [ReportFail]" "ops = []" using c op by (auto simp: conn_inv_def split: if_splits)
    have "\<not> gauged (cs ! i)" using cs op IfNoActive by (simp add: gauged_def)
    then have "list_ex pending_failure (cs[i := (cs ! i)\<lparr>todo := new @ ops\<rparr>])"
      using st IfNoActive cs another_active [OF _ g i] by (cases "connectionActive ps = 0") (auto intro!: pend simp: pending_failure_def)
    then show ?thesis
      using st IfNoActive cs op h by (intro upd) (auto simp: conn_defs split: if_splits)
  qed ((rule upd; use c op st red in \<open>auto intro!: pend simp: conn_defs split: if_splits\<close>)+)
qed

lemma pool_inv_step:
  assumes "pool_step True cfg cfg'" and "pool_inv cfg"
  shows "pool_inv cfg'"
  using assms
proof (induction rule: pool_step.induct)
  case (create cs s)
  then show ?case by (cases s) (auto simp: pool_inv_def conn_defs ConnCreated_def)
next
  case (close i cs s)
  obtain ps hc where s: "s = (ps, hc)" by (cases s)
  show ?case
    unfolding s
  proof (rule pool_inv_update [where ps = ps and hc = hc])
    show "pool_inv (cs, ps, hc)" using close.prems s by simp
    then show "health_inv hc" "''redis'' \<in> fst ` set (healthMap hc)" by (simp_all add: pool_inv_def)
    show "map_of (healthMap hc) ''redis'' = Some False \<or> list_ex pending_failure (cs[i := \<lparr>closed = True, todo = ConnClosed True\<rparr>])"
      using close.hyps(1) by (auto intro!: pending_failure_update simp: pending_failure_def ConnClosed_def)
  qed (use close.hyps in \<open>simp_all add: conn_defs ConnClosed_def\<close>)
next
  case (callback i cs op ops s new t)
  then show ?case by (cases s; cases t) (auto intro: pool_inv_callback)
next
  case (other x cs ps hc)
  then show ?case
    by (auto simp: pool_inv_def apply_op_inv apply_op_map RedisHealthComponentName_def simp flip: set_map)
qed

lemma pool_inv_reachable:
  assumes "(pool_step True)\<^sup>*\<^sup>* cfg cfg'" and "pool_inv cfg"
  shows "pool_inv cfg'"
  using assms by (induction rule: rtranclp_induct) (auto intro: pool_inv_step)

lemma pool_inv_new: "pool_inv ([], newPoolStats, NewHealthChecker g name needConfig)"
  using NewHealthChecker_inv [of g name needConfig]
  by (simp add: pool_inv_def newPoolStats_def)
    (simp add: NewHealthChecker_def Let_def SetServingStatus_def RedisHealthComponentName_def)

section \<open>One callback at a time\<close>

text \<open>A callback that nothing interrupts.\<close>

function run_callback :: "trace_op list \<Rightarrow> poolStats \<times> HealthChecker \<Rightarrow> poolStats \<times> HealthChecker" where
  "run_callback [] s = s"
| "run_callback (op # ops) s = (case trace_step op s of (new, t) \<Rightarrow> run_callback (new @ ops) t)"
  by pat_completeness auto

lemma trace_step_smaller: "trace_step op s = (new, t) \<Longrightarrow> size_list size new < Suc (size op)"
  by (induction op s rule: trace_step.induct) auto

termination run_callback
  by (relation "measure (\<lambda>(ops, s). size_list size ops)") (auto dest: trace_step_smaller [OF sym])

lemma run_ConnCreated:
  "run_callback (ConnCreated True failed) (ps, hc) =
     (if failed then (ps, hc)
      else (ps\<lparr>connectionTotal := connectionTotal ps + 1, connectionActive := connectionActive ps + 1\<rparr>,
        snd (Ok RedisHealthComponentName hc)))"
  by (simp add: ConnCreated_def)

lemma run_ConnClosed:
  "run_callback (ConnClosed True) (ps, hc) =
     (ps\<lparr>connectionActive := connectionActive ps - 1, connectionClose := connectionClose ps + 1\<rparr>,
      if connectionActive ps = 1 then snd (Fail RedisHealthComponentName hc) else hc)"
  by (simp add: ConnClosed_def)

datatype conn_event = Created bool | Closed

fun trace_event :: "conn_event \<Rightarrow> poolStats \<times> HealthChecker \<Rightarrow> poolStats \<times> HealthChecker" where
  "trace_event (Created failed) = run_callback (ConnCreated True failed)"
| "trace_event Closed = run_callback (ConnClosed True)"

text \<open>The connections open after a sequence of events; a pool closes only what it opened.\<close>

fun open_conns :: "nat \<Rightarrow> conn_event list \<Rightarrow> nat option" where
  "open_conns n [] = Some n"
| "open_conns n (Created failed # es) = open_conns (if failed then n else Suc n) es"
| "open_conns n (Closed # es) = (if n = 0 then None else open_conns (n - 1) es)"

text \<open>
  As long as callbacks do not overlap, the check is exact: from a state in which \<open>redis\<close> is healthy
  exactly if there is an open connection, every sequence of events leads to such a state.
\<close>

lemma redis_health_one_at_a_time:
  assumes "''redis'' \<in> fst ` set (healthMap hc)" and "map_of (healthMap hc) ''redis'' = Some (n > 0)"
    and "connectionActive ps = of_nat n" and "open_conns n es = Some m" and "n + length es < 2 ^ 64"
  shows "case fold trace_event es (ps, hc) of (ps', hc') \<Rightarrow>
    connectionActive ps' = of_nat m \<and> map_of (healthMap hc') ''redis'' = Some (m > 0)"
  using assms
proof (induction es arbitrary: n ps hc)
  case Nil
  then show ?case by simp
next
  case (Cons e es)
  show ?case
  proof (cases e)
    case (Created failed)
    then show ?thesis
      using Cons.prems Cons.IH [of "snd (Ok RedisHealthComponentName hc)" "Suc n"] Cons.IH [of hc n]
      by (cases failed) (simp_all add: run_ConnCreated redis_component add.commute)
  next
    case Closed
    then obtain k where k: "n = Suc k" using Cons.prems(4) by (cases n) auto
    have zero: "connectionActive ps = 1 \<longleftrightarrow> k = 0"
      using Cons.prems(3,5) k by (simp add: word_of_nat_eq_0_iff) (use dvd_imp_le in fastforce)
    show ?thesis
      using Cons.prems Closed k zero Cons.IH [of "snd (Fail RedisHealthComponentName hc)" k] Cons.IH [of hc k]
      by (cases "k = 0") (simp_all add: run_ConnClosed redis_component)
  qed
qed

text \<open>
  Two pools share one health component: with a separate pool for per-second limits, a new
  connection of one pool reports redis as healthy while the other has no connection at all.
\<close>

lemma redis_health_two_pools:
  "let hc = NewHealthChecker g name False;
       (a, hc) = trace_event (Created False) (newPoolStats, hc);
       (b, hc) = trace_event (Created False) (newPoolStats, hc);
       (a, hc) = trace_event Closed (a, hc);
       (b, hc) = trace_event (Created False) (b, hc)
   in connectionActive a = 0 \<and> fst (ServeHTTP hc) = 200"
  by (simp add: run_ConnCreated run_ConnClosed newPoolStats_def Let_def NewHealthChecker_def SetServingStatus_def
      Ok_def Fail_def ServeHTTP_def set_component_def RedisHealthComponentName_def SigtermComponentName_def)

section \<open>Properties\<close>

text \<open>
  C28. Redis health without connections. With the check switched on, however the callbacks of a pool
  interleave with each other and with reports on other components: whenever no callback is running, the
  gauge holds the number of open connections and the counters those of all and of the closed ones; and
  once there has been a connection and none is open any more, the component \<open>redis\<close> is unhealthy and so
  is the whole service.
\<close>

theorem redis_health_follows_connections:
  assumes "(pool_step True)\<^sup>*\<^sup>* ([], newPoolStats, NewHealthChecker g name needConfig) (cs, ps, hc)"
    and "\<forall>c \<in> set cs. todo c = []"
  shows "connectionActive ps = of_nat (length (filter (\<lambda>c. \<not> closed c) cs)) \<and>
    connectionTotal ps = of_nat (length cs) \<and> connectionClose ps = of_nat (length (filter closed cs)) \<and>
    (cs \<noteq> [] \<and> (\<forall>c \<in> set cs. closed c) \<longrightarrow>
      map_of (healthMap hc) ''redis'' = Some False \<and> ServeHTTP hc = (500, ''''))"
proof -
  have inv: "pool_inv (cs, ps, hc)" by (rule pool_inv_reachable [OF assms(1) pool_inv_new])
  have "filter gauged cs = filter (\<lambda>c. \<not> closed c) cs" "filter totalled cs = cs" "filter close_noted cs = filter closed cs"
    using assms(2) by (auto intro!: filter_cong filter_True simp: gauged_def totalled_def close_noted_def)
  moreover have red: "map_of (healthMap hc) ''redis'' = Some False" if "cs \<noteq> []" "\<forall>c \<in> set cs. closed c"
    using inv that assms(2) by (auto simp: pool_inv_def list_ex_iff pending_failure_def)
  moreover have "ServeHTTP hc = (500, '''')" if "map_of (healthMap hc) ''redis'' = Some False"
  proof -
    have "\<not> areAllComponentsHealthy (healthMap hc)"
      using map_of_SomeD [OF that] by (auto simp: areAllComponentsHealthy_iff)
    with inv show ?thesis by (simp add: pool_inv_def health_inv_def ServeHTTP_def)
  qed
  ultimately show ?thesis using inv by (auto simp: pool_inv_def)
qed

text \<open>Two connections, the second made while the first is being closed, and closed in turn.\<close>

theorem redis_health_follows_connections_witness:
  "\<exists>cs ps hc. (pool_step True)\<^sup>*\<^sup>* ([], newPoolStats, NewHealthChecker [] ''ratelimit'' False) (cs, ps, hc) \<and>
    length cs = 2 \<and> connectionActive ps = 0 \<and> ServeHTTP hc = (500, '''')"
proof -
  let ?picks = "[Create, Continue 0, Continue 0, Continue 0, Close 0, Create, Continue 0, Continue 1, Continue 1, Continue 0,
    Continue 1, Continue 0, Continue 0, Close 1, Continue 1, Continue 1, Continue 1, Continue 1]"
  obtain cs ps hc where run: "fold (pick_step True) ?picks ([], newPoolStats, NewHealthChecker [] ''ratelimit'' False) = (cs, ps, hc)"
    and cs: "cs = [\<lparr>closed = True, todo = []\<rparr>, \<lparr>closed = True, todo = []\<rparr>]"
    by (simp add: ConnCreated_def ConnClosed_def newPoolStats_def)
  have steps: "(pool_step True)\<^sup>*\<^sup>* ([], newPoolStats, NewHealthChecker [] ''ratelimit'' False) (cs, ps, hc)"
    unfolding run [symmetric] by (rule picks_sound)
  have "length cs = 2" using cs by simp
  moreover from redis_health_follows_connections [OF steps] cs
  have "connectionActive ps = 0" "ServeHTTP hc = (500, '''')" by auto
  ultimately show ?thesis using steps by (intro exI conjI)
qed

text \<open>
  C38. The check can fail an open pool. No lock is held from the reading of the gauge to \<open>Fail\<close>: a
  connection that is closed as the only one can read zero, another one can be made meanwhile and report
  \<open>redis\<close> as healthy, and then the first reports it as unhealthy. In the end no callback is running, a
  connection is open and the gauge is one, and yet \<open>redis\<close> is unhealthy and the service with it.
\<close>

theorem redis_health_race:
  "\<exists>cs ps hc. (pool_step True)\<^sup>*\<^sup>* ([], newPoolStats, NewHealthChecker g name needConfig) (cs, ps, hc) \<and>
    (\<nexists>c. c \<in> set cs \<and> todo c \<noteq> []) \<and> (\<exists>c. c \<in> set cs \<and> \<not> closed c) \<and> connectionActive ps = 1 \<and>
    map_of (healthMap hc) ''redis'' = Some False \<and> ServeHTTP hc = (500, '''')"
proof -
  let ?new = "NewHealthChecker g name needConfig"
  let ?picks = "[Create, Continue 0, Continue 0, Continue 0, Close 0, Continue 0, Continue 0, Continue 0,
    Create, Continue 1, Continue 1, Continue 1, Continue 0]"
  let ?hc = "snd (Fail ''redis'' (snd (Ok ''redis'' (snd (Ok ''redis'' ?new)))))"
  have run: "fold (pick_step True) ?picks ([], newPoolStats, ?new) =
      ([\<lparr>closed = True, todo = []\<rparr>, \<lparr>closed = False, todo = []\<rparr>],
       \<lparr>connectionActive = 1, connectionTotal = 2, connectionClose = 1\<rparr>, ?hc)"
    by (simp add: ConnCreated_def ConnClosed_def newPoolStats_def RedisHealthComponentName_def)
  have hc: "health_inv ?hc" by (intro Fail_inv Ok_inv NewHealthChecker_inv)
  have "''redis'' \<in> fst ` set (healthMap ?new)"
    by (simp add: NewHealthChecker_def Let_def SetServingStatus_def RedisHealthComponentName_def)
  then have red: "map_of (healthMap ?hc) ''redis'' = Some False"
    by (simp add: redis_component [unfolded RedisHealthComponentName_def])
  then have "\<not> areAllComponentsHealthy (healthMap ?hc)"
    using map_of_SomeD by (fastforce simp: areAllComponentsHealthy_iff)
  then have "ServeHTTP ?hc = (500, '''')" using hc by (simp add: health_inv_def ServeHTTP_def)
  with red picks_sound [of True "([], newPoolStats, ?new)" ?picks, unfolded run] show ?thesis
    by (intro exI conjI) auto
qed

end
