(* ===== verification/Memcached_Workers.thy ===== *)
theory Memcached_Workers
  imports Main "HOL-Library.Multiset"
begin

text \<open>
  The pool of background workers (\<open>runAsync\<close> and \<open>taskQueue\<close> in \<open>src/memcached/cache_impl.go\<close>). A
  task is handed to a worker that waits at the unbuffered channel, or else a new goroutine is started
  with it; a worker that has done its first task waits for more, counts what it does between two
  ticks, and leaves at a tick before which it did nothing.
\<close>

section \<open>State and steps\<close>

text \<open>
  A worker is at its \<open>select\<close> with a value of \<open>tasksProcessedWithinOnePeriod\<close>, or runs a task, after
  which the variable has the value given. \<open>finished\<close> lists the tasks that were run.
\<close>

record 't pool =
  waiting :: "nat list"
  running :: "('t \<times> nat) list"
  finished :: "'t list"

definition remove_nth :: "nat \<Rightarrow> 'a list \<Rightarrow> 'a list" where
  "remove_nth i xs = take i xs @ drop (Suc i) xs"

text \<open>\<open>runAsync(task)\<close>; \<open>i\<close> is the waiting worker that receives, if there is one.\<close>

definition runAsync :: "nat \<Rightarrow> 't \<Rightarrow> 't pool \<Rightarrow> 't pool" where
  "runAsync i t p =
     (if i < length (waiting p)
      then p\<lparr>waiting := remove_nth i (waiting p), running := running p @ [(t, Suc (waiting p ! i))]\<rparr>
      else p\<lparr>running := running p @ [(t, 0)]\<rparr>)"

text \<open>A worker finishes its task; a tick reaches a waiting worker.\<close>

definition task_done :: "nat \<Rightarrow> 't pool \<Rightarrow> 't pool" where
  "task_done i p =
     p\<lparr>waiting := waiting p @ [snd (running p ! i)], running := remove_nth i (running p),
       finished := finished p @ [fst (running p ! i)]\<rparr>"

definition worker_tick :: "nat \<Rightarrow> 't pool \<Rightarrow> 't pool" where
  "worker_tick i p =
     (if waiting p ! i > 0 then p\<lparr>waiting := (waiting p)[i := 0]\<rparr>
      else p\<lparr>waiting := remove_nth i (waiting p)\<rparr>)"

text \<open>A run of the pool, with the tasks submitted so far.\<close>

inductive pool_run :: "'t list \<Rightarrow> 't pool \<Rightarrow> bool" where
  start: "pool_run [] \<lparr>waiting = [], running = [], finished = []\<rparr>"
| submit: "pool_run ts p \<Longrightarrow> i < length (waiting p) \<or> waiting p = [] \<Longrightarrow> pool_run (ts @ [t]) (runAsync i t p)"
| complete: "pool_run ts p \<Longrightarrow> i < length (running p) \<Longrightarrow> pool_run ts (task_done i p)"
| tick: "pool_run ts p \<Longrightarrow> i < length (waiting p) \<Longrightarrow> pool_run ts (worker_tick i p)"

section \<open>Lemmas\<close>

lemma mset_remove_nth: "i < length xs \<Longrightarrow> mset (remove_nth i xs) + {#xs ! i#} = mset xs"
  by (metis add_mset_add_single id_take_nth_drop mset.simps(2) mset_append remove_nth_def union_mset_add_mset_right)

lemma length_remove_nth: "i < length xs \<Longrightarrow> length (remove_nth i xs) = length xs - 1"
  by (simp add: remove_nth_def)

lemma mset_map_remove_nth:
  "i < length xs \<Longrightarrow> mset (map f (remove_nth i xs)) + {#f (xs ! i)#} = mset (map f xs)"
  using arg_cong [OF mset_remove_nth, of i xs "image_mset f"] by simp

section \<open>Properties\<close>

text \<open>
  C27. Every task given to \<open>runAsync\<close> is run exactly once: at any moment the submitted tasks are, as a
  multiset, those that have finished and those that are being run; and there are never more workers
  than tasks were submitted.
\<close>

theorem runAsync_exactly_once:
  assumes "pool_run ts p"
  shows "mset ts = mset (finished p) + mset (map fst (running p)) \<and>
    length (waiting p) + length (running p) \<le> length ts"
  using assms
proof (induction rule: pool_run.induct)
  case (complete ts p i)
  from mset_map_remove_nth [OF complete.hyps(2), of fst] length_remove_nth [OF complete.hyps(2)] complete.IH complete.hyps(2)
  show ?case by (auto simp: task_done_def)
next
  case (submit ts p i t)
  then show ?case by (auto simp: runAsync_def length_remove_nth)
next
  case (tick ts p i)
  then show ?case by (auto simp: worker_tick_def length_remove_nth)
qed simp

theorem runAsync_exactly_once_witness:
  "mset [''a'', ''b''] =
     mset (finished (runAsync 0 ''b'' (task_done 0 (runAsync 0 ''a'' \<lparr>waiting = [], running = [], finished = []\<rparr>)))) +
     mset (map fst (running (runAsync 0 ''b'' (task_done 0 (runAsync 0 ''a'' \<lparr>waiting = [], running = [], finished = []\<rparr>)))))"
proof -
  let ?p = "runAsync 0 ''a'' \<lparr>waiting = [], running = [], finished = []\<rparr>"
  have "pool_run [''a''] ?p" using pool_run.submit [OF pool_run.start, of 0 "''a''"] by simp
  then have "pool_run [''a''] (task_done 0 ?p)" by (rule pool_run.complete) (simp add: runAsync_def)
  then have "pool_run ([''a''] @ [''b'']) (runAsync 0 ''b'' (task_done 0 ?p))"
    by (rule pool_run.submit) (simp add: task_done_def)
  from runAsync_exactly_once [OF this] show ?thesis by simp
qed

end
