(* ===== verification/Settings.thy ===== *)
theory Settings
  imports Float32
begin

text \<open>
  The settings (\<open>src/settings/settings.go\<close>) and the TLS configurations made from files
  (\<open>src/utils/tls.go\<close>).

  Outside the sources: \<open>envconfig.Process\<close>, which fills the structure from the environment (its
  result is the argument \<open>env\<close> of \<open>NewSettings\<close>; \<open>default_Settings\<close> is what the structure tags
  prescribe for an empty environment), and the packages \<open>crypto/tls\<close>, \<open>crypto/x509\<close> and \<open>os\<close>, whose
  operations are the fields of the argument \<open>pki\<close>. Certificates are \<open>'c\<close>, pools of them \<open>'p\<close>;
  a chained interceptor is \<open>'i\<close>. Durations are in nanoseconds.
\<close>

section \<open>Results that may panic\<close>

definition res_bind :: "'a res \<Rightarrow> ('a \<Rightarrow> 'b res) \<Rightarrow> 'b res" where
  "res_bind r f = (case r of Inl p \<Rightarrow> Inl p | Inr x \<Rightarrow> f x)"

lemma res_bind_simps [simp]: "res_bind (Inl p) f = Inl p" "res_bind (Inr x) f = f x"
  by (simp_all add: res_bind_def)

lemma res_bind_Inr: "res_bind r f = Inr y \<longleftrightarrow> (\<exists>x. r = Inr x \<and> f x = Inr y)"
  by (cases r) simp_all

section \<open>TLS configurations\<close>

datatype CAType = ClientCA | ServerCA

datatype ClientAuthType = NoClientCert | RequireAndVerifyClientCert

text \<open>\<open>VerifyPeerCertificate\<close> is the closure that verifies the chain, or nil.\<close>

record ('c, 'p) tls_Config =
  InsecureSkipVerify :: bool
  VerifyPeerCertificate :: bool
  Certificates :: "'c list"
  ClientCAs :: "'p option"
  RootCAs :: "'p option"
  ClientAuth :: ClientAuthType

definition empty_tls_Config :: "('c, 'p) tls_Config" where
  "empty_tls_Config =
     \<lparr>InsecureSkipVerify = False, VerifyPeerCertificate = False, Certificates = [], ClientCAs = None,
      RootCAs = None, ClientAuth = NoClientCert\<rparr>"

record ('c, 'p) pki =
  LoadX509KeyPair :: "string \<Rightarrow> string \<Rightarrow> string + 'c"
  SystemCertPool :: "'p option"
  NewCertPool :: 'p
  AppendCertsFromPEM :: "'p \<Rightarrow> string \<Rightarrow> 'p \<times> bool"
  ReadFile :: "string \<Rightarrow> string + string"
  ParseCertificate :: "string \<Rightarrow> string + 'c"
  VerifyChain :: "'p option \<Rightarrow> 'c list \<Rightarrow> 'c \<Rightarrow> string option"

definition mustReadFile :: "('c, 'p) pki \<Rightarrow> string \<Rightarrow> string res" where
  "mustReadFile pk name =
     (case ReadFile pk name of
        Inl err \<Rightarrow> Inl (ErrorPanic (''failed to read file: '' @ name @ '': '' @ err))
      | Inr b \<Rightarrow> Inr b)"

text \<open>
  The closure \<open>VerifyPeerCertificate\<close>, which reads the roots of the finished configuration: the
  certificates the peer sent are parsed, and the first is verified with the others as intermediates,
  against the roots and without a host name. No certificate at all is an index out of range.
\<close>

fun parse_certificates :: "('c, 'p) pki \<Rightarrow> string list \<Rightarrow> string + 'c list" where
  "parse_certificates pk [] = Inr []"
| "parse_certificates pk (asn1Data # rest) =
     (case ParseCertificate pk asn1Data of
        Inl err \<Rightarrow> Inl (''tls: failed to parse certificate from server: '' @ err)
      | Inr cert \<Rightarrow> (case parse_certificates pk rest of
          Inl err \<Rightarrow> Inl err
        | Inr certs \<Rightarrow> Inr (cert # certs)))"

definition verify_peer :: "('c, 'p) pki \<Rightarrow> ('c, 'p) tls_Config \<Rightarrow> string list \<Rightarrow> string option res" where
  "verify_peer pk config certificates =
     (case parse_certificates pk certificates of
        Inl err \<Rightarrow> Inr (Some err)
      | Inr [] \<Rightarrow> Inl (ErrorPanic ''slice bounds out of range'')
      | Inr (cert # intermediates) \<Rightarrow> Inr (VerifyChain pk (RootCAs config) intermediates cert))"

text \<open>The two blocks of \<open>TlsConfigFromFiles\<close> that load files.\<close>

definition load_key_pair ::
  "('c, 'p) pki \<Rightarrow> string \<Rightarrow> string \<Rightarrow> ('c, 'p) tls_Config \<Rightarrow> ('c, 'p) tls_Config res" where
  "load_key_pair pk certFile keyFile config =
     (if certFile \<noteq> '''' \<and> keyFile \<noteq> ''''
      then case LoadX509KeyPair pk certFile keyFile of
             Inl err \<Rightarrow> Inl (ErrorPanic (''failed lo load TLS key pair ('' @ certFile @ '','' @ keyFile @ ''): '' @ err))
           | Inr tlsKeyPair \<Rightarrow> Inr (config\<lparr>Certificates := Certificates config @ [tlsKeyPair]\<rparr>)
      else Inr config)"

definition load_ca :: "('c, 'p) pki \<Rightarrow> string \<Rightarrow> CAType \<Rightarrow> ('c, 'p) tls_Config \<Rightarrow> ('c, 'p) tls_Config res" where
  "load_ca pk caCertFile caType config =
     (if caCertFile \<noteq> ''''
      then let certPool = (case SystemCertPool pk of None \<Rightarrow> NewCertPool pk | Some p \<Rightarrow> p) in
           res_bind (mustReadFile pk caCertFile) (\<lambda>pem.
           let (certPool, ok) = AppendCertsFromPEM pk certPool pem in
           if \<not> ok then Inl (ErrorPanic (''failed to load the provided TLS CA certificate: '' @ caCertFile))
           else Inr (case caType of
                  ClientCA \<Rightarrow> config\<lparr>ClientCAs := Some certPool\<rparr>
                | ServerCA \<Rightarrow> config\<lparr>RootCAs := Some certPool\<rparr>))
      else Inr config)"

definition TlsConfigFromFiles ::
  "('c, 'p) pki \<Rightarrow> string \<Rightarrow> string \<Rightarrow> string \<Rightarrow> CAType \<Rightarrow> bool \<Rightarrow> ('c, 'p) tls_Config res" where
  "TlsConfigFromFiles pk certFile keyFile caCertFile caType skipHostnameVerification =
     res_bind (load_key_pair pk certFile keyFile
       (empty_tls_Config\<lparr>InsecureSkipVerify := skipHostnameVerification,
          VerifyPeerCertificate := skipHostnameVerification\<rparr>))
       (load_ca pk caCertFile caType)"

section \<open>Settings\<close>

text \<open>A \<open>float64\<close> of the settings: \<open>F64 m e\<close> is \<open>m * 2 ^ e\<close>.\<close>

datatype f64 = F64 nat int

abbreviation second :: int where
  "second \<equiv> 1000000000"

abbreviation hour :: int where
  "hour \<equiv> 3600000000000"

record ('c, 'p, 'i) Settings =
  s_GrpcUnaryInterceptor :: "'i option"
  s_Host :: string
  s_Port :: int
  s_DebugHost :: string
  s_DebugPort :: int
  s_GrpcUds :: string
  s_GrpcHost :: string
  s_GrpcPort :: int
  s_GrpcServerTlsConfig :: "('c, 'p) tls_Config option"
  s_GrpcMaxConnectionAge :: int
  s_GrpcMaxConnectionAgeGrace :: int
  s_GrpcServerUseTLS :: bool
  s_GrpcServerTlsCert :: string
  s_GrpcServerTlsKey :: string
  s_GrpcClientTlsCACert :: string
  s_GrpcClientTlsSAN :: string
  s_LogLevel :: string
  s_LogFormat :: string
  s_ConfigType :: string
  s_ForceStartWithoutInitialConfig :: bool
  s_ConfigGrpcXdsNodeId :: string
  s_ConfigGrpcXdsNodeMetadata :: string
  s_ConfigGrpcXdsServerUrl :: string
  s_ConfigGrpcXdsServerConnectRetryInterval :: int
  s_ConfigGrpcXdsClientAdditionalHeaders :: "(string \<times> string) list"
  s_ConfigGrpcXdsTlsConfig :: "('c, 'p) tls_Config option"
  s_ConfigGrpcXdsServerUseTls :: bool
  s_ConfigGrpcXdsClientTlsCert :: string
  s_ConfigGrpcXdsClientTlsKey :: string
  s_ConfigGrpcXdsServerTlsCACert :: string
  s_ConfigGrpcXdsServerTlsSAN :: string
  s_XdsClientBackoffInitialInterval :: int
  s_XdsClientBackoffMaxInterval :: int
  s_XdsClientBackoffRandomFactor :: f64
  s_XdsClientBackoffJitter :: bool
  s_UseDogStatsd :: bool
  s_UseDogStatsdMogrifiers :: "string list"
  s_UseStatsd :: bool
  s_StatsdHost :: string
  s_StatsdPort :: int
  s_ExtraTags :: "(string \<times> string) list"
  s_StatsFlushInterval :: int
  s_DisableStats :: bool
  s_RuntimePath :: string
  s_RuntimeSubdirectory :: string
  s_RuntimeAppDirectory :: string
  s_RuntimeIgnoreDotFiles :: bool
  s_RuntimeWatchRoot :: bool
  s_ExpirationJitterMaxSeconds :: int
  s_LocalCacheSizeInBytes :: int
  s_NearLimitRatio :: f32
  s_CacheKeyPrefix :: string
  s_BackendType :: string
  s_StopCacheKeyIncrementWhenOverlimit :: bool
  s_RateLimitResponseHeadersEnabled :: bool
  s_HeaderRatelimitLimit :: string
  s_HeaderRatelimitRemaining :: string
  s_HeaderRatelimitReset :: string
  s_HealthyWithAtLeastOneConfigLoaded :: bool
  s_RedisSocketType :: string
  s_RedisType :: string
  s_RedisUrl :: string
  s_RedisPoolSize :: int
  s_RedisAuth :: string
  s_RedisTls :: bool
  s_RedisTlsConfig :: "('c, 'p) tls_Config option"
  s_RedisTlsClientCert :: string
  s_RedisTlsClientKey :: string
  s_RedisTlsCACert :: string
  s_RedisTlsSkipHostnameVerification :: bool
  s_RedisPipelineWindow :: int
  s_RedisPipelineLimit :: int
  s_RedisPerSecond :: bool
  s_RedisPerSecondSocketType :: string
  s_RedisPerSecondType :: string
  s_RedisPerSecondUrl :: string
  s_RedisPerSecondPoolSize :: int
  s_RedisPerSecondAuth :: string
  s_RedisPerSecondTls :: bool
  s_RedisPerSecondPipelineWindow :: int
  s_RedisPerSecondPipelineLimit :: int
  s_RedisHealthCheckActiveConnection :: bool
  s_MemcacheHostPort :: "string list"
  s_MemcacheMaxIdleConns :: int
  s_MemcacheSrv :: string
  s_MemcacheSrvRefresh :: int
  s_MemcacheTls :: bool
  s_MemcacheTlsConfig :: "('c, 'p) tls_Config option"
  s_MemcacheTlsClientCert :: string
  s_MemcacheTlsClientKey :: string
  s_MemcacheTlsCACert :: string
  s_MemcacheTlsSkipHostnameVerification :: bool
  s_GlobalShadowMode :: bool
  s_MergeDomainConfigurations :: bool
  s_TracingEnabled :: bool
  s_TracingServiceName :: string
  s_TracingServiceNamespace :: string
  s_TracingServiceInstanceId :: string
  s_TracingExporterProtocol :: string
  s_TracingSamplingRate :: f64

definition default_Settings :: "('c, 'p, 'i) Settings" where
  "default_Settings =
     \<lparr>s_GrpcUnaryInterceptor = None,
      s_Host = ''0.0.0.0'',
      s_Port = 8080,
      s_DebugHost = ''0.0.0.0'',
      s_DebugPort = 6070,
      s_GrpcUds = '''',
      s_GrpcHost = ''0.0.0.0'',
      s_GrpcPort = 8081,
      s_GrpcServerTlsConfig = None,
      s_GrpcMaxConnectionAge = 24 * hour,
      s_GrpcMaxConnectionAgeGrace = 1 * hour,
      s_GrpcServerUseTLS = False,
      s_GrpcServerTlsCert = '''',
      s_GrpcServerTlsKey = '''',
      s_GrpcClientTlsCACert = '''',
      s_GrpcClientTlsSAN = '''',
      s_LogLevel = ''WARN'',
      s_LogFormat = ''text'',
      s_ConfigType = ''FILE'',
      s_ForceStartWithoutInitialConfig = False,
      s_ConfigGrpcXdsNodeId = ''default'',
      s_ConfigGrpcXdsNodeMetadata = '''',
      s_ConfigGrpcXdsServerUrl = ''localhost:18000'',
      s_ConfigGrpcXdsServerConnectRetryInterval = 3 * second,
      s_ConfigGrpcXdsClientAdditionalHeaders = [],
      s_ConfigGrpcXdsTlsConfig = None,
      s_ConfigGrpcXdsServerUseTls = False,
      s_ConfigGrpcXdsClientTlsCert = '''',
      s_ConfigGrpcXdsClientTlsKey = '''',
      s_ConfigGrpcXdsServerTlsCACert = '''',
      s_ConfigGrpcXdsServerTlsSAN = '''',
      s_XdsClientBackoffInitialInterval = 10 * second,
      s_XdsClientBackoffMaxInterval = 60 * second,
      s_XdsClientBackoffRandomFactor = F64 1 (-1),
      s_XdsClientBackoffJitter = True,
      s_UseDogStatsd = False,
      s_UseDogStatsdMogrifiers = [],
      s_UseStatsd = True,
      s_StatsdHost = ''localhost'',
      s_StatsdPort = 8125,
      s_ExtraTags = [],
      s_StatsFlushInterval = 10 * second,
      s_DisableStats = False,
      s_RuntimePath = ''/srv/runtime_data/current'',
      s_RuntimeSubdirectory = '''',
      s_RuntimeAppDirectory = ''config'',
      s_RuntimeIgnoreDotFiles = False,
      s_RuntimeWatchRoot = True,
      s_ExpirationJitterMaxSeconds = 300,
      s_LocalCacheSizeInBytes = 0,
      s_NearLimitRatio = F32 13421773 (-24),
      s_CacheKeyPrefix = '''',
      s_BackendType = ''redis'',
      s_StopCacheKeyIncrementWhenOverlimit = False,
      s_RateLimitResponseHeadersEnabled = False,
      s_HeaderRatelimitLimit = ''RateLimit-Limit'',
      s_HeaderRatelimitRemaining = ''RateLimit-Remaining'',
      s_HeaderRatelimitReset = ''RateLimit-Reset'',
      s_HealthyWithAtLeastOneConfigLoaded = False,
      s_RedisSocketType = ''unix'',
      s_RedisType = ''SINGLE'',
      s_RedisUrl = ''/var/run/nutcracker/ratelimit.sock'',
      s_RedisPoolSize = 10,
      s_RedisAuth = '''',
      s_RedisTls = False,
      s_RedisTlsConfig = None,
      s_RedisTlsClientCert = '''',
      s_RedisTlsClientKey = '''',
      s_RedisTlsCACert = '''',
      s_RedisTlsSkipHostnameVerification = False,
      s_RedisPipelineWindow = 0,
      s_RedisPipelineLimit = 0,
      s_RedisPerSecond = False,
      s_RedisPerSecondSocketType = ''unix'',
      s_RedisPerSecondType = ''SINGLE'',
      s_RedisPerSecondUrl = ''/var/run/nutcracker/ratelimitpersecond.sock'',
      s_RedisPerSecondPoolSize = 10,
      s_RedisPerSecondAuth = '''',
      s_RedisPerSecondTls = False,
      s_RedisPerSecondPipelineWindow = 0,
      s_RedisPerSecondPipelineLimit = 0,
      s_RedisHealthCheckActiveConnection = False,
      s_MemcacheHostPort = [],
      s_MemcacheMaxIdleConns = 2,
      s_MemcacheSrv = '''',
      s_MemcacheSrvRefresh = 0,
      s_MemcacheTls = False,
      s_MemcacheTlsConfig = None,
      s_MemcacheTlsClientCert = '''',
      s_MemcacheTlsClientKey = '''',
      s_MemcacheTlsCACert = '''',
      s_MemcacheTlsSkipHostnameVerification = False,
      s_GlobalShadowMode = False,
      s_MergeDomainConfigurations = False,
      s_TracingEnabled = False,
      s_TracingServiceName = ''RateLimit'',
      s_TracingServiceNamespace = '''',
      s_TracingServiceInstanceId = '''',
      s_TracingExporterProtocol = ''http'',
      s_TracingSamplingRate = F64 1 0\<rparr>"

text \<open>\<open>type Option func(*Settings)\<close>; an option may panic.\<close>

type_synonym ('c, 'p, 'i) Option = "('c, 'p, 'i) Settings \<Rightarrow> ('c, 'p, 'i) Settings res"

definition RedisTlsConfig :: "('c, 'p) pki \<Rightarrow> bool \<Rightarrow> ('c, 'p, 'i) Option" where
  "RedisTlsConfig pk redisTls s =
     (if redisTls
      then res_bind (TlsConfigFromFiles pk (s_RedisTlsClientCert s) (s_RedisTlsClientKey s) (s_RedisTlsCACert s)
             ServerCA (s_RedisTlsSkipHostnameVerification s)) (\<lambda>c. Inr (s\<lparr>s_RedisTlsConfig := Some c\<rparr>))
      else Inr (s\<lparr>s_RedisTlsConfig := Some empty_tls_Config\<rparr>))"

definition MemcacheTlsConfig :: "('c, 'p) pki \<Rightarrow> bool \<Rightarrow> ('c, 'p, 'i) Option" where
  "MemcacheTlsConfig pk memcacheTls s =
     (if memcacheTls
      then res_bind (TlsConfigFromFiles pk (s_MemcacheTlsClientCert s) (s_MemcacheTlsClientKey s)
             (s_MemcacheTlsCACert s) ServerCA (s_MemcacheTlsSkipHostnameVerification s))
             (\<lambda>c. Inr (s\<lparr>s_MemcacheTlsConfig := Some c\<rparr>))
      else Inr (s\<lparr>s_MemcacheTlsConfig := Some empty_tls_Config\<rparr>))"

definition GrpcServerTlsConfig :: "('c, 'p) pki \<Rightarrow> ('c, 'p, 'i) Option" where
  "GrpcServerTlsConfig pk s =
     (if s_GrpcServerUseTLS s
      then res_bind (TlsConfigFromFiles pk (s_GrpcServerTlsCert s) (s_GrpcServerTlsKey s) (s_GrpcClientTlsCACert s)
             ClientCA False) (\<lambda>c.
           Inr (s\<lparr>s_GrpcServerTlsConfig := Some (c\<lparr>ClientAuth :=
             (if s_GrpcClientTlsCACert s \<noteq> '''' then RequireAndVerifyClientCert else NoClientCert)\<rparr>)\<rparr>))
      else Inr s)"

definition ConfigGrpcXdsServerTlsConfig :: "('c, 'p) pki \<Rightarrow> ('c, 'p, 'i) Option" where
  "ConfigGrpcXdsServerTlsConfig pk s =
     (if s_ConfigGrpcXdsServerUseTls s
      then res_bind (TlsConfigFromFiles pk (s_ConfigGrpcXdsClientTlsCert s) (s_ConfigGrpcXdsClientTlsKey s)
             (s_ConfigGrpcXdsServerTlsCACert s) ServerCA False) (\<lambda>c.
           Inr (s\<lparr>s_ConfigGrpcXdsTlsConfig := Some (c\<lparr>ClientAuth :=
             (if s_ConfigGrpcXdsServerTlsCACert s \<noteq> '''' then RequireAndVerifyClientCert else NoClientCert)\<rparr>)\<rparr>))
      else Inr s)"

definition GrpcUnaryInterceptor :: "'i \<Rightarrow> ('c, 'p, 'i) Option" where
  "GrpcUnaryInterceptor i s = Inr (s\<lparr>s_GrpcUnaryInterceptor := Some i\<rparr>)"

definition NewSettings :: "('c, 'p) pki \<Rightarrow> string + ('c, 'p, 'i) Settings \<Rightarrow> ('c, 'p, 'i) Settings res" where
  "NewSettings pk env =
     (case env of
        Inl err \<Rightarrow> Inl (ErrorPanic err)
      | Inr s \<Rightarrow>
          res_bind (RedisTlsConfig pk (s_RedisTls s \<or> s_RedisPerSecondTls s) s) (\<lambda>s.
          res_bind (MemcacheTlsConfig pk (s_MemcacheTls s) s) (\<lambda>s.
          res_bind (GrpcServerTlsConfig pk s) (\<lambda>s.
          ConfigGrpcXdsServerTlsConfig pk s))))"

section \<open>Lemmas\<close>

lemma load_key_pair_Inr:
  "load_key_pair pk certFile keyFile config = Inr c \<Longrightarrow> \<exists>ps. c = config\<lparr>Certificates := ps\<rparr>"
  by (auto simp: load_key_pair_def split: if_splits sum.splits intro: exI [of _ "Certificates c"])

lemma load_ca_Inr:
  assumes "load_ca pk caCertFile caType config = Inr c"
  obtains "caCertFile = ''''" and "c = config"
  | p where "caCertFile \<noteq> ''''" and "caType = ClientCA" and "c = config\<lparr>ClientCAs := Some p\<rparr>"
  | p where "caCertFile \<noteq> ''''" and "caType = ServerCA" and "c = config\<lparr>RootCAs := Some p\<rparr>"
  using assms
  by (cases caType)
    (auto simp: load_ca_def Let_def res_bind_Inr split_def split: if_splits)

lemma TlsConfigFromFiles_Inr:
  assumes "TlsConfigFromFiles pk certFile keyFile caCertFile caType skip = Inr c"
  shows "InsecureSkipVerify c = skip \<and> VerifyPeerCertificate c = skip \<and> ClientAuth c = NoClientCert \<and>
    (ClientCAs c = None \<longleftrightarrow> \<not> (caCertFile \<noteq> '''' \<and> caType = ClientCA)) \<and>
    (RootCAs c = None \<longleftrightarrow> \<not> (caCertFile \<noteq> '''' \<and> caType = ServerCA))"
proof -
  let ?c = "empty_tls_Config\<lparr>InsecureSkipVerify := skip, VerifyPeerCertificate := skip\<rparr>"
  obtain d where d: "load_key_pair pk certFile keyFile ?c = Inr d" and c: "load_ca pk caCertFile caType d = Inr c"
    using assms by (auto simp: TlsConfigFromFiles_def res_bind_Inr)
  from load_key_pair_Inr [OF d] c show ?thesis by (auto elim!: load_ca_Inr simp: empty_tls_Config_def)
qed

lemma TlsConfigFromFiles_panic:
  "TlsConfigFromFiles pk certFile keyFile caCertFile caType skip = Inl e \<Longrightarrow> \<exists>m. e = ErrorPanic m"
  by (auto simp: TlsConfigFromFiles_def load_key_pair_def load_ca_def Let_def res_bind_def mustReadFile_def split_def
      split: if_splits sum.splits)

text \<open>An option returns settings that differ in one field, or fails with an error value.\<close>

lemma RedisTlsConfig_cases:
  obtains m where "RedisTlsConfig pk b s = Inl (ErrorPanic m)"
  | c where "RedisTlsConfig pk b s = Inr (s\<lparr>s_RedisTlsConfig := Some c\<rparr>)"
    and "InsecureSkipVerify c \<longleftrightarrow> VerifyPeerCertificate c"
    and "InsecureSkipVerify c \<longleftrightarrow> s_RedisTlsSkipHostnameVerification s \<and> b"
proof (cases "TlsConfigFromFiles pk (s_RedisTlsClientCert s) (s_RedisTlsClientKey s) (s_RedisTlsCACert s)
    ServerCA (s_RedisTlsSkipHostnameVerification s)")
  case (Inl e)
  then obtain m where m: "e = ErrorPanic m" using TlsConfigFromFiles_panic by blast
  show thesis
  proof (cases b)
    case True
    then show thesis by (intro that(1) [of m]) (simp add: RedisTlsConfig_def Inl m)
  next
    case False
    then show thesis by (intro that(2) [of empty_tls_Config]) (simp_all add: RedisTlsConfig_def empty_tls_Config_def)
  qed
next
  case (Inr c)
  show thesis
  proof (cases b)
    case True
    then show thesis
      using TlsConfigFromFiles_Inr [OF Inr] by (intro that(2) [of c]) (simp_all add: RedisTlsConfig_def Inr)
  next
    case False
    then show thesis by (intro that(2) [of empty_tls_Config]) (simp_all add: RedisTlsConfig_def empty_tls_Config_def)
  qed
qed

lemma MemcacheTlsConfig_cases:
  obtains m where "MemcacheTlsConfig pk b s = Inl (ErrorPanic m)"
  | c where "MemcacheTlsConfig pk b s = Inr (s\<lparr>s_MemcacheTlsConfig := Some c\<rparr>)"
    and "InsecureSkipVerify c \<longleftrightarrow> VerifyPeerCertificate c"
    and "InsecureSkipVerify c \<longleftrightarrow> s_MemcacheTlsSkipHostnameVerification s \<and> b"
proof (cases "TlsConfigFromFiles pk (s_MemcacheTlsClientCert s) (s_MemcacheTlsClientKey s) (s_MemcacheTlsCACert s)
    ServerCA (s_MemcacheTlsSkipHostnameVerification s)")
  case (Inl e)
  then obtain m where m: "e = ErrorPanic m" using TlsConfigFromFiles_panic by blast
  show thesis
  proof (cases b)
    case True
    then show thesis by (intro that(1) [of m]) (simp add: MemcacheTlsConfig_def Inl m)
  next
    case False
    then show thesis by (intro that(2) [of empty_tls_Config]) (simp_all add: MemcacheTlsConfig_def empty_tls_Config_def)
  qed
next
  case (Inr c)
  show thesis
  proof (cases b)
    case True
    then show thesis
      using TlsConfigFromFiles_Inr [OF Inr] by (intro that(2) [of c]) (simp_all add: MemcacheTlsConfig_def Inr)
  next
    case False
    then show thesis by (intro that(2) [of empty_tls_Config]) (simp_all add: MemcacheTlsConfig_def empty_tls_Config_def)
  qed
qed

definition server_tls_ok :: "('c, 'p, 'i) Settings \<Rightarrow> bool" where
  "server_tls_ok s \<longleftrightarrow> (s_GrpcServerUseTLS s \<longrightarrow> (\<exists>c. s_GrpcServerTlsConfig s = Some c \<and> \<not> InsecureSkipVerify c \<and>
     (ClientAuth c = RequireAndVerifyClientCert \<longleftrightarrow> s_GrpcClientTlsCACert s \<noteq> '''') \<and>
     (ClientAuth c = RequireAndVerifyClientCert \<longleftrightarrow> ClientCAs c \<noteq> None)))"

definition xds_tls_ok :: "('c, 'p, 'i) Settings \<Rightarrow> bool" where
  "xds_tls_ok s \<longleftrightarrow> (s_ConfigGrpcXdsServerUseTls s \<longrightarrow> (\<exists>c. s_ConfigGrpcXdsTlsConfig s = Some c \<and>
     \<not> InsecureSkipVerify c \<and> (s_ConfigGrpcXdsServerTlsCACert s \<noteq> '''' \<longleftrightarrow> RootCAs c \<noteq> None)))"

lemma GrpcServerTlsConfig_cases:
  obtains m where "GrpcServerTlsConfig pk s = Inl (ErrorPanic m)"
  | c where "GrpcServerTlsConfig pk s = Inr (s\<lparr>s_GrpcServerTlsConfig := c\<rparr>)"
    and "server_tls_ok (s\<lparr>s_GrpcServerTlsConfig := c\<rparr>)"
proof (cases "TlsConfigFromFiles pk (s_GrpcServerTlsCert s) (s_GrpcServerTlsKey s) (s_GrpcClientTlsCACert s) ClientCA False")
  case (Inl e)
  then obtain m where m: "e = ErrorPanic m" using TlsConfigFromFiles_panic by blast
  show thesis
  proof (cases "s_GrpcServerUseTLS s")
    case False
    then show thesis by (intro that(2) [of "s_GrpcServerTlsConfig s"]) (simp_all add: GrpcServerTlsConfig_def server_tls_ok_def)
  next
    case True
    then show thesis by (intro that(1) [of m]) (simp add: GrpcServerTlsConfig_def Inl m)
  qed
next
  case (Inr c)
  let ?c = "c\<lparr>ClientAuth := (if s_GrpcClientTlsCACert s \<noteq> '''' then RequireAndVerifyClientCert else NoClientCert)\<rparr>"
  show thesis
  proof (cases "s_GrpcServerUseTLS s")
    case False
    then show thesis by (intro that(2) [of "s_GrpcServerTlsConfig s"]) (simp_all add: GrpcServerTlsConfig_def server_tls_ok_def)
  next
    case True
    then show thesis
      using TlsConfigFromFiles_Inr [OF Inr]
      by (intro that(2) [of "Some ?c"]) (simp_all add: GrpcServerTlsConfig_def server_tls_ok_def Inr del: not_None_eq)
  qed
qed

lemma ConfigGrpcXdsServerTlsConfig_cases:
  obtains m where "ConfigGrpcXdsServerTlsConfig pk s = Inl (ErrorPanic m)"
  | c where "ConfigGrpcXdsServerTlsConfig pk s = Inr (s\<lparr>s_ConfigGrpcXdsTlsConfig := c\<rparr>)"
    and "xds_tls_ok (s\<lparr>s_ConfigGrpcXdsTlsConfig := c\<rparr>)"
proof (cases "TlsConfigFromFiles pk (s_ConfigGrpcXdsClientTlsCert s) (s_ConfigGrpcXdsClientTlsKey s)
    (s_ConfigGrpcXdsServerTlsCACert s) ServerCA False")
  case (Inl e)
  then obtain m where m: "e = ErrorPanic m" using TlsConfigFromFiles_panic by blast
  show thesis
  proof (cases "s_ConfigGrpcXdsServerUseTls s")
    case False
    then show thesis by (intro that(2) [of "s_ConfigGrpcXdsTlsConfig s"]) (simp_all add: ConfigGrpcXdsServerTlsConfig_def xds_tls_ok_def)
  next
    case True
    then show thesis by (intro that(1) [of m]) (simp add: ConfigGrpcXdsServerTlsConfig_def Inl m)
  qed
next
  case (Inr c)
  let ?c = "c\<lparr>ClientAuth := (if s_ConfigGrpcXdsServerTlsCACert s \<noteq> '''' then RequireAndVerifyClientCert else NoClientCert)\<rparr>"
  show thesis
  proof (cases "s_ConfigGrpcXdsServerUseTls s")
    case False
    then show thesis by (intro that(2) [of "s_ConfigGrpcXdsTlsConfig s"]) (simp_all add: ConfigGrpcXdsServerTlsConfig_def xds_tls_ok_def)
  next
    case True
    then show thesis
      using TlsConfigFromFiles_Inr [OF Inr]
      by (intro that(2) [of "Some ?c"]) (simp_all add: ConfigGrpcXdsServerTlsConfig_def xds_tls_ok_def Inr del: not_None_eq)
  qed
qed

lemma NewSettings_checked:
  "case NewSettings pk env of
     Inl p \<Rightarrow> (\<exists>m. p = ErrorPanic m)
   | Inr s \<Rightarrow>
       (\<exists>c. s_RedisTlsConfig s = Some c \<and> (InsecureSkipVerify c \<longleftrightarrow> VerifyPeerCertificate c) \<and>
         (InsecureSkipVerify c \<longleftrightarrow>
           s_RedisTlsSkipHostnameVerification s \<and> (s_RedisTls s \<or> s_RedisPerSecondTls s))) \<and>
       (\<exists>c. s_MemcacheTlsConfig s = Some c \<and> (InsecureSkipVerify c \<longleftrightarrow> VerifyPeerCertificate c) \<and>
         (InsecureSkipVerify c \<longleftrightarrow> s_MemcacheTlsSkipHostnameVerification s \<and> s_MemcacheTls s)) \<and>
       server_tls_ok s \<and> xds_tls_ok s"
proof (cases env)
  case (Inl m)
  then show ?thesis by (simp add: NewSettings_def)
next
  case (Inr s)
  show ?thesis
  proof (cases rule: RedisTlsConfig_cases [of pk "s_RedisTls s \<or> s_RedisPerSecondTls s" s])
    case (2 c)
    let ?s = "s\<lparr>s_RedisTlsConfig := Some c\<rparr>"
    show ?thesis
    proof (cases rule: MemcacheTlsConfig_cases [of pk "s_MemcacheTls ?s" ?s])
      case memcache: (2 d)
      let ?t = "?s\<lparr>s_MemcacheTlsConfig := Some d\<rparr>"
      show ?thesis
      proof (cases rule: GrpcServerTlsConfig_cases [of pk ?t])
        case server: (2 e)
        let ?u = "?t\<lparr>s_GrpcServerTlsConfig := e\<rparr>"
        show ?thesis
          by (cases rule: ConfigGrpcXdsServerTlsConfig_cases [of pk ?u])
            (use Inr 2 memcache server in \<open>simp_all add: NewSettings_def server_tls_ok_def\<close>)
      qed (use Inr 2 memcache in \<open>simp add: NewSettings_def\<close>)
    qed (use Inr 2 in \<open>simp add: NewSettings_def\<close>)
  qed (use Inr in \<open>simp add: NewSettings_def\<close>)
qed

section \<open>Properties\<close>

text \<open>
  TLS settings. Settings that were read have a TLS configuration for redis and for memcached, one
  for the gRPC server and for the xDS client exactly when they are switched on; the server demands a
  verified client certificate exactly when a client CA is configured, against that CA; host name
  verification is off only where it was switched off for redis or memcached, and there the chain is
  still verified. Reading settings fails only with an error value.
\<close>

lemma NewSettings_tls:
  "case NewSettings pk env of
     Inl p \<Rightarrow> (\<exists>m. p = ErrorPanic m)
   | Inr s \<Rightarrow>
       (\<exists>c. s_RedisTlsConfig s = Some c \<and> (InsecureSkipVerify c \<longleftrightarrow> VerifyPeerCertificate c) \<and>
         (InsecureSkipVerify c \<longleftrightarrow>
           s_RedisTlsSkipHostnameVerification s \<and> (s_RedisTls s \<or> s_RedisPerSecondTls s))) \<and>
       (\<exists>c. s_MemcacheTlsConfig s = Some c \<and> (InsecureSkipVerify c \<longleftrightarrow> VerifyPeerCertificate c) \<and>
         (InsecureSkipVerify c \<longleftrightarrow> s_MemcacheTlsSkipHostnameVerification s \<and> s_MemcacheTls s)) \<and>
       server_tls_ok s \<and> xds_tls_ok s"
  by (rule NewSettings_checked)

end
