(* ===== verification/Service.thy ===== *)
theory Service
  imports Config_Accept Limiter Settings Health
begin

text \<open>
  The service (\<open>src/service/ratelimit.go\<close>): choosing the limits of a request, asking the back end,
  building the response, turning panics into errors, and taking over new configurations.

  The state is that of the service and the health checker beside the state \<open>'s\<close> of the back end,
  which holds the clock and the log of metric calls. The back end is the argument \<open>do_limit\<close>. The
  configuration is read once per request, under the lock; a request is one step with respect to
  configuration updates. Pointers to limits are indices into the store of the configuration, which
  are followed when the back end is called.
\<close>

section \<open>State\<close>

record service =
  svc_config :: "rateLimitConfigImpl option"
  svc_stats :: ServiceStats
  customHeadersEnabled :: bool
  customHeaderLimitHeader :: string
  customHeaderRemainingHeader :: string
  customHeaderResetHeader :: string
  globalShadowMode :: bool

record 's svc_state =
  svc :: service
  health :: HealthChecker
  backend :: 's

record HeaderValue =
  hv_Key :: string
  hv_Value :: string

record RateLimitResponse =
  OverallCode :: Code
  Statuses :: "DescriptorStatus list"
  ResponseHeadersToAdd :: "HeaderValue list"

text \<open>A computation of the back end or of the clock, run as part of the service.\<close>

definition in_backend :: "('s, 'a) M \<Rightarrow> ('s svc_state, 'a) M" where
  "in_backend m = (\<lambda>st. case m (backend st) of (r, s) \<Rightarrow> (r, st\<lparr>backend := s\<rparr>))"

section \<open>Configuration updates\<close>

text \<open>
  \<open>SetConfig\<close>: the event carries a configuration or the value that loading panicked with; \<open>settings\<close>
  is what \<open>NewSettings\<close> gives at that moment.
\<close>

definition update_health :: "bool \<Rightarrow> rateLimitConfigImpl \<Rightarrow> HealthChecker \<Rightarrow> HealthChecker" where
  "update_health healthyWithAtLeastOneConfigLoad newConfig hc =
     (if healthyWithAtLeastOneConfigLoad
      then if \<not> IsEmptyDomains newConfig then snd (Ok ConfigHealthComponentName hc)
           else snd (Fail ConfigHealthComponentName hc)
      else hc)"

definition apply_settings :: "('c, 'p, 'i) Settings \<Rightarrow> service \<Rightarrow> service" where
  "apply_settings rlSettings this =
     (let this = this\<lparr>globalShadowMode := s_GlobalShadowMode rlSettings\<rparr> in
      if s_RateLimitResponseHeadersEnabled rlSettings
      then this\<lparr>customHeadersEnabled := True,
                customHeaderLimitHeader := s_HeaderRatelimitLimit rlSettings,
                customHeaderRemainingHeader := s_HeaderRatelimitRemaining rlSettings,
                customHeaderResetHeader := s_HeaderRatelimitReset rlSettings\<rparr>
      else this)"

definition SetConfig ::
  "('c, 'p, 'i) Settings res \<Rightarrow> bool \<Rightarrow> rateLimitConfigImpl res \<Rightarrow> ('x world_scheme svc_state, unit) M" where
  "SetConfig settings healthyWithAtLeastOneConfigLoad updateEvent =
     bind (gets svc) (\<lambda>this.
     case updateEvent of
       Inl err \<Rightarrow>
         (case err of
            RateLimitConfigError _ \<Rightarrow> in_backend (emit [CounterInc (ConfigLoadError (svc_stats this))])
          | _ \<Rightarrow> raise err)
     | Inr newConfig \<Rightarrow>
         bind (modify (\<lambda>st. st\<lparr>health := update_health healthyWithAtLeastOneConfigLoad newConfig (health st)\<rparr>)) (\<lambda>_.
         bind (in_backend (emit [CounterInc (ConfigLoadSuccess (svc_stats this))])) (\<lambda>_.
         bind (modify (\<lambda>st. st\<lparr>svc := (svc st)\<lparr>svc_config := Some newConfig\<rparr>\<rparr>)) (\<lambda>_.
         bind (lift_res settings) (\<lambda>rlSettings.
         modify (\<lambda>st. st\<lparr>svc := apply_settings rlSettings (svc st)\<rparr>))))))"

section \<open>Requests\<close>

definition checkServiceErr :: "bool \<Rightarrow> string \<Rightarrow> ('s, unit) M" where
  "checkServiceErr something msg = (if \<not> something then raise (ServiceError msg) else ret ())"

text \<open>
  \<open>constructLimitsToCheck\<close>, with the variables of its first loop: the configuration, the pointers,
  which descriptors are unlimited, the names that are replaced, and the metric calls.
\<close>

record limit_vars =
  lv_config :: rateLimitConfigImpl
  limitsToCheck :: "nat option list"
  isUnlimited :: "bool list"
  replacing :: "string list"
  lv_events :: "stat_event list"

definition find_limit :: "string \<Rightarrow> Descriptor \<Rightarrow> limit_vars \<Rightarrow> limit_vars" where
  "find_limit domain descriptor v =
     (case GetLimit (lv_config v) domain descriptor of
        (p, cfg, es) \<Rightarrow>
          (case p of
             None \<Rightarrow> v\<lparr>lv_config := cfg, limitsToCheck := limitsToCheck v @ [None],
                       isUnlimited := isUnlimited v @ [False], lv_events := lv_events v @ es\<rparr>
           | Some a \<Rightarrow>
               (let l = limits cfg ! a in
                v\<lparr>lv_config := cfg, replacing := replacing v @ Replaces l,
                  limitsToCheck := limitsToCheck v @ [if Unlimited l then None else Some a],
                  isUnlimited := isUnlimited v @ [Unlimited l], lv_events := lv_events v @ es\<rparr>)))"

definition drop_replaced :: "rateLimitConfigImpl \<Rightarrow> string list \<Rightarrow> nat option \<Rightarrow> nat option" where
  "drop_replaced cfg names lim =
     (case lim of
        None \<Rightarrow> None
      | Some a \<Rightarrow>
          if Name (limits cfg ! a) = '''' then lim
          else if Name (limits cfg ! a) \<in> set names then None else lim)"

definition constructLimitsToCheck ::
  "RateLimitRequest \<Rightarrow> rateLimitConfigImpl option
    \<Rightarrow> ('x world_scheme svc_state, rateLimitConfigImpl \<times> nat option list \<times> bool list) M" where
  "constructLimitsToCheck request snappedConfig =
     bind (checkServiceErr (snappedConfig \<noteq> None) ''no rate limit configuration loaded'') (\<lambda>_.
     let v = fold (find_limit (Domain request)) (Descriptors request)
       \<lparr>lv_config = the snappedConfig, limitsToCheck = [], isUnlimited = [], replacing = [], lv_events = []\<rparr> in
     bind (in_backend (emit (lv_events v))) (\<lambda>_.
     bind (modify (\<lambda>st. st\<lparr>svc := (svc st)\<lparr>svc_config := Some (lv_config v)\<rparr>\<rparr>)) (\<lambda>_.
     ret (lv_config v, map (drop_replaced (lv_config v) (replacing v)) (limitsToCheck v), isUnlimited v))))"

definition GetCurrentConfig :: "('s svc_state, rateLimitConfigImpl option \<times> bool) M" where
  "GetCurrentConfig = gets (\<lambda>st. (svc_config (svc st), globalShadowMode (svc st)))"

text \<open>The loop over the statuses of the back end, with its variables.\<close>

record response_vars =
  rv_Statuses :: "DescriptorStatus list"
  finalCode :: Code
  minLimitRemaining :: u32
  minimumDescriptor :: "DescriptorStatus option"

definition unlimited_status :: DescriptorStatus where
  "unlimited_status = \<lparr>Code = OK, CurrentLimit = None, LimitRemaining = MaxUint32, DurationUntilReset = None\<rparr>"

definition note_closest :: "bool \<Rightarrow> DescriptorStatus \<Rightarrow> response_vars \<Rightarrow> response_vars" where
  "note_closest headers descriptorStatus v =
     (if headers \<and> CurrentLimit descriptorStatus \<noteq> None \<and> LimitRemaining descriptorStatus < minLimitRemaining v
      then v\<lparr>minimumDescriptor := Some descriptorStatus, minLimitRemaining := LimitRemaining descriptorStatus\<rparr>
      else v)"

definition take_status :: "bool \<Rightarrow> bool \<times> DescriptorStatus \<Rightarrow> response_vars \<Rightarrow> response_vars" where
  "take_status headers = (\<lambda>(unlimited, descriptorStatus) v.
     let v = note_closest headers descriptorStatus v in
     if unlimited then v\<lparr>rv_Statuses := rv_Statuses v @ [unlimited_status]\<rparr>
     else let v = v\<lparr>rv_Statuses := rv_Statuses v @ [descriptorStatus]\<rparr> in
          if Code descriptorStatus = OVER_LIMIT
          then v\<lparr>finalCode := Code descriptorStatus, minimumDescriptor := Some descriptorStatus,
                 minLimitRemaining := 0\<rparr>
          else v)"

definition rateLimitLimitHeader :: "service \<Rightarrow> DescriptorStatus \<Rightarrow> ('s, HeaderValue) M" where
  "rateLimitLimitHeader this descriptor =
     bind (nonnil (CurrentLimit descriptor)) (\<lambda>l.
     ret \<lparr>hv_Key = customHeaderLimitHeader this, hv_Value = FormatNat (unat (RequestsPerUnit l))\<rparr>)"

definition rateLimitRemainingHeader :: "service \<Rightarrow> DescriptorStatus \<Rightarrow> ('s, HeaderValue) M" where
  "rateLimitRemainingHeader this descriptor =
     ret \<lparr>hv_Key = customHeaderRemainingHeader this, hv_Value = FormatNat (unat (LimitRemaining descriptor))\<rparr>"

definition rateLimitResetHeader ::
  "service \<Rightarrow> DescriptorStatus \<Rightarrow> ('x world_scheme svc_state, HeaderValue) M" where
  "rateLimitResetHeader this descriptor =
     bind (nonnil (CurrentLimit descriptor)) (\<lambda>l.
     bind (in_backend (CalculateReset (lim_Unit l))) (\<lambda>seconds.
     ret \<lparr>hv_Key = customHeaderResetHeader this, hv_Value = FormatInt seconds\<rparr>))"

definition response_headers ::
  "service \<Rightarrow> DescriptorStatus option \<Rightarrow> ('x world_scheme svc_state, HeaderValue list) M" where
  "response_headers this descriptor =
     (if customHeadersEnabled this \<and> descriptor \<noteq> None
      then bind (rateLimitLimitHeader this (the descriptor)) (\<lambda>limitHeader.
           bind (rateLimitRemainingHeader this (the descriptor)) (\<lambda>remainingHeader.
           bind (rateLimitResetHeader this (the descriptor)) (\<lambda>resetHeader.
           ret [limitHeader, remainingHeader, resetHeader])))
      else ret [])"

text \<open>The second half of \<open>shouldRateLimitWorker\<close>, from the statuses on.\<close>

definition make_response ::
  "service \<Rightarrow> bool \<Rightarrow> (bool \<times> DescriptorStatus) list \<Rightarrow> ('x world_scheme svc_state, RateLimitResponse) M" where
  "make_response this shadow xs =
     (let v = fold (take_status (customHeadersEnabled this)) xs
        \<lparr>rv_Statuses = [], finalCode = OK, minLimitRemaining = MaxUint32, minimumDescriptor = None\<rparr> in
      bind (response_headers this (minimumDescriptor v)) (\<lambda>headers.
      bind (if finalCode v = OVER_LIMIT \<and> shadow
            then bind (in_backend (emit [CounterInc (GlobalShadowMode (svc_stats this))])) (\<lambda>_. ret OK)
            else ret (finalCode v)) (\<lambda>code.
      ret \<lparr>OverallCode = code, Statuses = rv_Statuses v, ResponseHeadersToAdd = headers\<rparr>)))"

definition shouldRateLimitWorker ::
  "(RateLimitRequest \<Rightarrow> RateLimit option list \<Rightarrow> ('x world_scheme, DescriptorStatus list) M) \<Rightarrow> RateLimitRequest
    \<Rightarrow> ('x world_scheme svc_state, RateLimitResponse) M" where
  "shouldRateLimitWorker do_limit request =
     bind (checkServiceErr (Domain request \<noteq> '''') ''rate limit domain must not be empty'') (\<lambda>_.
     bind (checkServiceErr (length (Descriptors request) \<noteq> 0) ''rate limit descriptor list must not be empty'') (\<lambda>_.
     bind GetCurrentConfig (\<lambda>(snappedConfig, shadow).
     bind (constructLimitsToCheck request snappedConfig) (\<lambda>(cfg, ptrs, unlimited).
     bind (in_backend (do_limit request (map (deref cfg) ptrs))) (\<lambda>responseDescriptorStatuses.
     bind (Assert (length ptrs = length responseDescriptorStatuses)) (\<lambda>_.
     bind (gets svc) (\<lambda>this.
     make_response this shadow (zip unlimited responseDescriptorStatuses))))))))"

text \<open>
  \<open>ShouldRateLimit\<close>: a response, or an error value; panics of other types than \<open>RedisError\<close> and
  \<open>serviceError\<close> are raised again.
\<close>

definition ShouldRateLimit ::
  "(RateLimitRequest \<Rightarrow> RateLimit option list \<Rightarrow> ('x world_scheme, DescriptorStatus list) M) \<Rightarrow> RateLimitRequest
    \<Rightarrow> ('x world_scheme svc_state, string + RateLimitResponse) M" where
  "ShouldRateLimit do_limit request = (\<lambda>st.
     case shouldRateLimitWorker do_limit request st of
       (Inr response, t) \<Rightarrow> (Inr (Inr response), t)
     | (Inl err, t) \<Rightarrow>
         (case err of
            RedisError e \<Rightarrow>
              bind (in_backend (emit [CounterInc (srl_RedisError (ShouldRateLimitStats (svc_stats (svc t))))]))
                (\<lambda>_. ret (Inl e)) t
          | ServiceError e \<Rightarrow>
              bind (in_backend (emit [CounterInc (srl_ServiceError (ShouldRateLimitStats (svc_stats (svc t))))]))
                (\<lambda>_. ret (Inl e)) t
          | _ \<Rightarrow> (Inl err, t)))"

text \<open>
  \<open>NewService\<close>, and the goroutine that takes events: the settings are those read at each event.
\<close>

definition new_service :: "ServiceStats \<Rightarrow> bool \<Rightarrow> service" where
  "new_service sst shadowMode =
     \<lparr>svc_config = None, svc_stats = sst, customHeadersEnabled = False, customHeaderLimitHeader = '''',
      customHeaderRemainingHeader = '''', customHeaderResetHeader = '''', globalShadowMode = shadowMode\<rparr>"

definition take_events ::
  "bool \<Rightarrow> (('c, 'p, 'i) Settings res \<times> rateLimitConfigImpl res) list \<Rightarrow> ('x world_scheme svc_state, unit) M" where
  "take_events healthyWithAtLeastOneConfigLoad events =
     forM (\<lambda>(settings, updateEvent). SetConfig settings healthyWithAtLeastOneConfigLoad updateEvent) events"

definition NewService ::
  "ManagerImpl \<Rightarrow> bool \<Rightarrow> bool \<Rightarrow> bool \<Rightarrow> ('c, 'p, 'i) Settings res \<times> rateLimitConfigImpl res
    \<Rightarrow> (('c, 'p, 'i) Settings res \<times> rateLimitConfigImpl res) list \<Rightarrow> HealthChecker \<Rightarrow> 'x world_scheme
    \<Rightarrow> unit res \<times> 'x world_scheme svc_state" where
  "NewService sm shadowMode forceStart healthyWithAtLeastOneConfigLoad first events hc s =
     take_events healthyWithAtLeastOneConfigLoad (if \<not> forceStart then first # events else events)
       \<lparr>svc = new_service (NewServiceStats sm) shadowMode, health = hc, backend = s\<rparr>"

section \<open>Lemmas: the limits of a request\<close>

text \<open>
  The specification: the limit each descriptor asks for, the names they replace, and which are
  checked. Limits agree up to the metrics they count on, which a detailed limit shared by two
  descriptors changes.
\<close>

definition wanted ::
  "(string \<Rightarrow> Unit option) \<Rightarrow> RateLimitConfigToLoad list \<Rightarrow> ManagerImpl \<Rightarrow> string \<Rightarrow> Descriptor list
    \<Rightarrow> RateLimit option list" where
  "wanted tbl cs sm domain ds = map (limit_spec tbl cs sm domain) ds"

definition replaced_names :: "RateLimit option list \<Rightarrow> string list" where
  "replaced_names ls = concat (map (\<lambda>l. case l of None \<Rightarrow> [] | Some rl \<Rightarrow> Replaces rl) ls)"

definition unlimited :: "RateLimit option \<Rightarrow> bool" where
  "unlimited l = (case l of None \<Rightarrow> False | Some rl \<Rightarrow> Unlimited rl)"

definition checked :: "string list \<Rightarrow> RateLimit option \<Rightarrow> RateLimit option" where
  "checked names l =
     (case l of
        None \<Rightarrow> None
      | Some rl \<Rightarrow> if Unlimited rl \<or> Name rl \<noteq> '''' \<and> Name rl \<in> set names then None else Some rl)"

definition same_limit :: "RateLimit \<Rightarrow> RateLimit \<Rightarrow> bool" where
  "same_limit l m \<longleftrightarrow> m = l\<lparr>rl_Stats := rl_Stats m\<rparr>"

lemma same_limit_refl [simp]: "same_limit l l"
  by (simp add: same_limit_def)

lemma same_limit_trans: "same_limit k l \<Longrightarrow> same_limit l m \<Longrightarrow> same_limit k m"
  by (metis (no_types, lifting) RateLimit.select_convs(2) RateLimit.surjective RateLimit.update_convs(2) same_limit_def)

lemma same_limit_fields:
  assumes "same_limit l m"
  shows "Limit m = Limit l" and "Unlimited m = Unlimited l" and "ShadowMode m = ShadowMode l"
    and "Name m = Name l" and "Replaces m = Replaces l"
  using assms by (cases l; cases m; simp add: same_limit_def)+

lemma GetLimit_same_limit:
  assumes "GetLimit cfg domain descriptor = (p, cfg', ev)" and "a < length (limits cfg)"
  shows "same_limit (limits cfg ! a) (limits cfg' ! a)" and "a < length (limits cfg')"
  using GetLimit_store [OF assms] by (auto simp: same_limit_def)

text \<open>What a pointer found for a wanted limit points to; nil where the limit is unlimited.\<close>

definition points_to :: "rateLimitConfigImpl \<Rightarrow> RateLimit option \<Rightarrow> nat option \<Rightarrow> bool" where
  "points_to cfg l p =
     (case l of
        None \<Rightarrow> p = None
      | Some rl \<Rightarrow> if Unlimited rl then p = None
          else (\<exists>a. p = Some a \<and> a < length (limits cfg) \<and> same_limit rl (limits cfg ! a)))"

lemma points_to_GetLimit:
  assumes "GetLimit cfg domain descriptor = (p, cfg', ev)" and "points_to cfg l q"
  shows "points_to cfg' l q"
  using assms(2) GetLimit_same_limit [OF assms(1)]
  by (auto simp: points_to_def intro: same_limit_trans split: option.splits if_splits)

lemma find_limit_in_service:
  assumes "in_service tbl cs sm merge (lv_config v)" and "list_all2 (points_to (lv_config v)) ls (limitsToCheck v)"
  shows "let v' = find_limit domain d v; l = limit_spec tbl cs sm domain d in
    in_service tbl cs sm merge (lv_config v') \<and>
    list_all2 (points_to (lv_config v')) (ls @ [l]) (limitsToCheck v') \<and>
    isUnlimited v' = isUnlimited v @ [unlimited l] \<and> replacing v' = replacing v @ replaced_names [l]"
proof -
  obtain p cfg es where g: "GetLimit (lv_config v) domain d = (p, cfg, es)" by (metis prod_cases3)
  from GetLimit_refines [OF assms(1) g]
  have valid: "\<And>a. p = Some a \<Longrightarrow> a < length (limits cfg)" and l: "deref cfg p = limit_spec tbl cs sm domain d" by auto
  have old: "list_all2 (points_to cfg) ls (limitsToCheck v)"
    using assms(2) by (rule list_all2_mono) (rule points_to_GetLimit [OF g])
  have srv: "in_service tbl cs sm merge cfg" by (rule in_service.looked_up [OF assms(1) g])
  show ?thesis
    unfolding l [symmetric]
    by (cases p) (use g old srv valid in \<open>auto simp: find_limit_def Let_def deref_def points_to_def
        unlimited_def replaced_names_def intro!: list_all2_appendI\<close>)
qed

lemma find_limits_in_service:
  assumes "in_service tbl cs sm merge (lv_config v)" and "list_all2 (points_to (lv_config v)) ls (limitsToCheck v)"
  shows "let v' = fold (find_limit domain) ds v; ws = wanted tbl cs sm domain ds in
    in_service tbl cs sm merge (lv_config v') \<and>
    list_all2 (points_to (lv_config v')) (ls @ ws) (limitsToCheck v') \<and>
    isUnlimited v' = isUnlimited v @ map unlimited ws \<and> replacing v' = replacing v @ replaced_names ws"
  using assms
proof (induction ds arbitrary: v ls)
  case Nil
  then show ?case by (simp add: wanted_def replaced_names_def)
next
  case (Cons d ds)
  let ?l = "limit_spec tbl cs sm domain d"
  from find_limit_in_service [OF Cons.prems, of domain d]
  have one: "in_service tbl cs sm merge (lv_config (find_limit domain d v))"
    "list_all2 (points_to (lv_config (find_limit domain d v))) (ls @ [?l]) (limitsToCheck (find_limit domain d v))"
    "isUnlimited (find_limit domain d v) = isUnlimited v @ [unlimited ?l]"
    "replacing (find_limit domain d v) = replacing v @ replaced_names [?l]"
    by (auto simp: Let_def)
  from Cons.IH [OF one(1,2)] show ?case
    by (simp add: Let_def one(3,4) wanted_def replaced_names_def)
qed

text \<open>The pointers that are left after replacing, followed.\<close>

lemma drop_replaced_checked:
  assumes "points_to cfg l p"
  shows "rel_option same_limit (checked names l) (deref cfg (drop_replaced cfg names p))"
  using assms
  by (auto simp: points_to_def checked_def drop_replaced_def deref_def same_limit_fields split: option.splits if_splits)

lemma constructLimitsToCheck_apply:
  fixes st :: "'x world_scheme svc_state"
  assumes srv: "in_service tbl cs sm merge cfg" and ws: "ws = wanted tbl cs sm (Domain request) (Descriptors request)"
  obtains cfg' ptrs es where "constructLimitsToCheck request (Some cfg) st =
      (Inr (cfg', ptrs, map unlimited ws), st\<lparr>svc := (svc st)\<lparr>svc_config := Some cfg'\<rparr>,
         backend := (backend st)\<lparr>stats := stats (backend st) @ es\<rparr>\<rparr>)"
    and "in_service tbl cs sm merge cfg'"
    and "list_all2 (rel_option same_limit) (map (checked (replaced_names ws)) ws) (map (deref cfg') ptrs)"
proof -
  let ?v = "fold (find_limit (Domain request)) (Descriptors request)
    \<lparr>lv_config = cfg, limitsToCheck = [], isUnlimited = [], replacing = [], lv_events = []\<rparr>"
  have v: "in_service tbl cs sm merge (lv_config ?v)" "list_all2 (points_to (lv_config ?v)) ws (limitsToCheck ?v)"
    "isUnlimited ?v = map unlimited ws" "replacing ?v = replaced_names ws"
    using find_limits_in_service [of tbl cs sm merge "\<lparr>lv_config = cfg, limitsToCheck = [], isUnlimited = [],
        replacing = [], lv_events = []\<rparr>" "[]" "Domain request" "Descriptors request"] srv ws
    by (auto simp: Let_def)
  have "list_all2 (rel_option same_limit) (map (checked (replaced_names ws)) ws)
      (map (deref (lv_config ?v)) (map (drop_replaced (lv_config ?v) (replaced_names ws)) (limitsToCheck ?v)))"
    using v(2) by (auto simp: list_all2_conv_all_nth drop_replaced_checked)
  moreover have "constructLimitsToCheck request (Some cfg) st =
      (Inr (lv_config ?v, map (drop_replaced (lv_config ?v) (replaced_names ws)) (limitsToCheck ?v), map unlimited ws),
       st\<lparr>svc := (svc st)\<lparr>svc_config := Some (lv_config ?v)\<rparr>,
          backend := (backend st)\<lparr>stats := stats (backend st) @ lv_events ?v\<rparr>\<rparr>)"
    by (simp add: constructLimitsToCheck_def checkServiceErr_def bind_ret Let_def v(3,4))
      (simp add: in_backend_def emit_def monad_simps)
  ultimately show thesis using v(1) by (intro that) auto
qed

text \<open>Without an override of an unusable unit, the limits that are checked have a window.\<close>

definition overrides_ok :: "RateLimitRequest \<Rightarrow> bool" where
  "overrides_ok request \<longleftrightarrow> (\<forall>d \<in> set (Descriptors request). \<forall>ov. de_Limit d = Some ov \<longrightarrow> valid_unit (ov_Unit ov))"

lemma checked_limit_ok:
  assumes "files_ok tbl merge cs" and "\<forall>s u. tbl s = Some u \<longrightarrow> u = UNKNOWN \<or> valid_unit u"
    and "\<forall>ov. de_Limit d = Some ov \<longrightarrow> valid_unit (ov_Unit ov)"
  shows "limit_ok (checked names (limit_spec tbl cs sm domain d))"
proof (cases "de_Limit d")
  case None
  with limit_spec_unit [OF assms(1,2) None, of sm domain] show ?thesis
    by (auto simp: checked_def limit_ok_def split: option.splits if_splits)
next
  case (Some ov)
  with assms(3) show ?thesis
    by (auto simp: checked_def limit_ok_def limit_spec_def NewRateLimit_def)
qed

lemma limit_ok_same: "rel_option same_limit l m \<Longrightarrow> limit_ok l \<Longrightarrow> limit_ok m"
  by (cases l; cases m) (auto simp: limit_ok_def same_limit_fields)

section \<open>Lemmas: the response\<close>

definition over_limit :: "(bool \<times> DescriptorStatus) list \<Rightarrow> bool" where
  "over_limit xs = list_ex (\<lambda>(u, s). \<not> u \<and> Code s = OVER_LIMIT) xs"

definition reported :: "(bool \<times> DescriptorStatus) list \<Rightarrow> DescriptorStatus list" where
  "reported xs = map (\<lambda>(u, s). if u then unlimited_status else s) xs"

text \<open>
  The status closest to its limit: nothing remains less, and it is over its limit if any is.
\<close>

definition closest :: "(bool \<times> DescriptorStatus) list \<Rightarrow> DescriptorStatus \<Rightarrow> bool" where
  "closest xs s \<longleftrightarrow> s \<in> snd ` set xs \<and> CurrentLimit s \<noteq> None \<and>
     (\<forall>s' \<in> snd ` set xs. CurrentLimit s' \<noteq> None \<longrightarrow> LimitRemaining s \<le> LimitRemaining s') \<and>
     (over_limit xs \<longrightarrow> Code s = OVER_LIMIT)"

definition all_untouched :: "(bool \<times> DescriptorStatus) list \<Rightarrow> bool" where
  "all_untouched xs \<longleftrightarrow> (\<forall>s \<in> snd ` set xs. CurrentLimit s \<noteq> None \<longrightarrow> LimitRemaining s = MaxUint32)"

definition response_inv :: "bool \<Rightarrow> (bool \<times> DescriptorStatus) list \<Rightarrow> response_vars \<Rightarrow> bool" where
  "response_inv headers xs v \<longleftrightarrow> rv_Statuses v = reported xs \<and>
     finalCode v = (if over_limit xs then OVER_LIMIT else OK) \<and>
     (headers \<longrightarrow> (case minimumDescriptor v of
        None \<Rightarrow> minLimitRemaining v = MaxUint32 \<and> all_untouched xs \<and> \<not> over_limit xs
      | Some s \<Rightarrow> minLimitRemaining v = LimitRemaining s \<and> closest xs s))"

definition status_fine :: "DescriptorStatus \<Rightarrow> bool" where
  "status_fine s \<longleftrightarrow> (Code s = OVER_LIMIT \<longrightarrow> CurrentLimit s \<noteq> None \<and> LimitRemaining s = 0)"

lemma MaxUint32_top: "(x :: u32) \<le> MaxUint32" "x < MaxUint32 \<longleftrightarrow> x \<noteq> MaxUint32"
proof -
  have "MaxUint32 = (- 1 :: u32)" by (simp add: MaxUint32_def)
  then show le: "x \<le> MaxUint32" using word_n1_ge [of x] by simp
  show "x < MaxUint32 \<longleftrightarrow> x \<noteq> MaxUint32" using le by (auto simp: order_le_less)
qed

lemma over_limit_snoc [simp]: "over_limit (xs @ [(u, s)]) \<longleftrightarrow> over_limit xs \<or> \<not> u \<and> Code s = OVER_LIMIT"
  by (simp add: over_limit_def)

lemma closest_over_zero:
  assumes "closest xs s" and "over_limit xs" and "\<forall>s \<in> snd ` set xs. status_fine s"
  shows "LimitRemaining s = 0"
  using assms by (auto simp: closest_def status_fine_def)

text \<open>The two ways in which a status becomes the closest, and the one in which it does not.\<close>

lemma closest_new_less:
  assumes "closest xs s" and "CurrentLimit s' \<noteq> None" and "LimitRemaining s' < LimitRemaining s"
    and "\<forall>s \<in> snd ` set xs. status_fine s" and "status_fine s'"
  shows "closest (xs @ [(u, s')]) s'"
  using assms closest_over_zero [OF assms(1)]
  by (auto simp: closest_def status_fine_def intro: less_imp_le order_trans)

lemma closest_new_over:
  assumes "Code s' = OVER_LIMIT" and "status_fine s'" and "\<not> u"
  shows "closest (xs @ [(u, s')]) s'"
  using assms by (auto simp: closest_def status_fine_def)

lemma closest_keep:
  assumes "closest xs s" and "CurrentLimit s' \<noteq> None \<Longrightarrow> LimitRemaining s \<le> LimitRemaining s'"
    and "\<not> (\<not> u \<and> Code s' = OVER_LIMIT)"
  shows "closest (xs @ [(u, s')]) s"
  using assms by (auto simp: closest_def)

lemma closest_first:
  assumes "all_untouched xs" and "\<not> over_limit xs" and "CurrentLimit s' \<noteq> None" and "LimitRemaining s' < MaxUint32"
  shows "closest (xs @ [(u, s')]) s'"
  using assms by (auto simp: closest_def all_untouched_def MaxUint32_top)

lemma take_status_inv:
  assumes "response_inv h xs v" and "\<forall>s \<in> snd ` set xs. status_fine s" and "status_fine s'"
  shows "response_inv h (xs @ [(u, s')]) (take_status h (u, s') v)"
proof -
  let ?min = "minimumDescriptor (take_status h (u, s') v)" and ?rem = "minLimitRemaining (take_status h (u, s') v)"
  have rest: "rv_Statuses (take_status h (u, s') v) = reported (xs @ [(u, s')])"
    "finalCode (take_status h (u, s') v) = (if over_limit (xs @ [(u, s')]) then OVER_LIMIT else OK)"
    using assms(1) by (auto simp: response_inv_def take_status_def note_closest_def Let_def reported_def)
  have "case ?min of None \<Rightarrow> ?rem = MaxUint32 \<and> all_untouched (xs @ [(u, s')]) \<and> \<not> over_limit (xs @ [(u, s')])
      | Some s \<Rightarrow> ?rem = LimitRemaining s \<and> closest (xs @ [(u, s')]) s" if h
  proof (cases "\<not> u \<and> Code s' = OVER_LIMIT")
    case True
    then have "?min = Some s'" "?rem = 0" by (simp_all add: take_status_def Let_def)
    with True assms(3) closest_new_over [of s' u xs] show ?thesis by (simp add: status_fine_def)
  next
    case False
    then have eq: "?min = minimumDescriptor (note_closest h s' v)" "?rem = minLimitRemaining (note_closest h s' v)"
      by (auto simp: take_status_def Let_def)
    show ?thesis
    proof (cases "minimumDescriptor v")
      case None
      with assms(1) that have "minLimitRemaining v = MaxUint32" "all_untouched xs" "\<not> over_limit xs"
        by (auto simp: response_inv_def)
      with None False that closest_first [of xs s' u] show ?thesis
        unfolding eq
        by (auto simp: note_closest_def all_untouched_def MaxUint32_top)
    next
      case (Some s)
      with assms(1) that have s: "minLimitRemaining v = LimitRemaining s" "closest xs s"
        by (auto simp: response_inv_def)
      show ?thesis
      proof (cases "CurrentLimit s' \<noteq> None \<and> LimitRemaining s' < LimitRemaining s")
        case True
        with closest_new_less [OF s(2) _ _ assms(2,3), of u] that s Some show ?thesis
          unfolding eq by (simp add: note_closest_def)
      next
        case keep: False
        with closest_keep [OF s(2), of s' u] False that s Some show ?thesis
          unfolding eq by (auto simp: note_closest_def)
      qed
    qed
  qed
  with rest show ?thesis by (simp add: response_inv_def)
qed

lemma take_statuses_inv:
  assumes "\<forall>s \<in> snd ` set xs. status_fine s"
  shows "response_inv h xs (fold (take_status h) xs
    \<lparr>rv_Statuses = [], finalCode = OK, minLimitRemaining = MaxUint32, minimumDescriptor = None\<rparr>)"
  using assms
proof (induction xs rule: rev_induct)
  case Nil
  then show ?case by (simp add: response_inv_def reported_def over_limit_def all_untouched_def)
next
  case (snoc x xs)
  then show ?case by (cases x) (auto intro!: take_status_inv)
qed

text \<open>The headers that describe a status, with some reset time.\<close>

definition headers_of :: "service \<Rightarrow> DescriptorStatus \<Rightarrow> HeaderValue list \<Rightarrow> bool" where
  "headers_of this s hs \<longleftrightarrow> (\<exists>l reset. CurrentLimit s = Some l \<and> hs =
     [\<lparr>hv_Key = customHeaderLimitHeader this, hv_Value = FormatNat (unat (RequestsPerUnit l))\<rparr>,
      \<lparr>hv_Key = customHeaderRemainingHeader this, hv_Value = FormatNat (unat (LimitRemaining s))\<rparr>,
      \<lparr>hv_Key = customHeaderResetHeader this, hv_Value = FormatInt reset\<rparr>])"

text \<open>
  What a response says: the statuses, the overall code, and with headers switched on those of the
  status closest to its limit, unless no limit was used at all.
\<close>

definition response_for :: "service \<Rightarrow> (bool \<times> DescriptorStatus) list \<Rightarrow> RateLimitResponse \<Rightarrow> bool" where
  "response_for this xs r \<longleftrightarrow> Statuses r = reported xs \<and>
     OverallCode r = (if over_limit xs \<and> \<not> globalShadowMode this then OVER_LIMIT else OK) \<and>
     (if customHeadersEnabled this
      then (\<exists>s. closest xs s \<and> headers_of this s (ResponseHeadersToAdd r)) \<or>
           all_untouched xs \<and> ResponseHeadersToAdd r = []
      else ResponseHeadersToAdd r = [])"

text \<open>Only readings of the clock and calls on metrics lie between two states of the back end.\<close>

definition observed :: "'x world_scheme \<Rightarrow> 'x world_scheme \<Rightarrow> bool" where
  "observed s t \<longleftrightarrow> (\<exists>n es. t = s\<lparr>reads := n, stats := es\<rparr>)"

lemma observed_refl [simp]: "observed s s"
  unfolding observed_def by (intro exI [of _ "reads s"] exI [of _ "stats s"]) simp

lemma observed_trans: "observed s t \<Longrightarrow> observed t u \<Longrightarrow> observed s u"
  unfolding observed_def by (elim exE) (rule exI, rule exI, simp)

lemma observed_log [simp]: "observed s (s\<lparr>stats := es\<rparr>)"
  unfolding observed_def by (intro exI [of _ "reads s"] exI [of _ es]) simp

lemma observed_reading [simp]: "observed s (s\<lparr>reads := n\<rparr>)"
  unfolding observed_def by (intro exI [of _ n] exI [of _ "stats s"]) simp

lemma runs_in_backend:
  "runs E m (backend st) (\<lambda>x s. Q x (st\<lparr>backend := s\<rparr>)) \<Longrightarrow> runs E (in_backend m) st Q"
  by (auto simp: runs_def in_backend_def split: prod.splits sum.splits)

lemma response_headers_runs:
  assumes "customHeadersEnabled this \<longrightarrow> (\<forall>s. d = Some s \<longrightarrow> (\<exists>l. CurrentLimit s = Some l \<and> valid_unit (lim_Unit l)))"
  shows "runs E (response_headers this d) st (\<lambda>hs t. svc t = svc st \<and> health t = health st \<and>
    observed (backend st) (backend t) \<and>
    (if customHeadersEnabled this \<and> d \<noteq> None then headers_of this (the d) hs else hs = []))"
proof (cases "customHeadersEnabled this \<and> d \<noteq> None")
  case True
  with assms obtain s l where s: "d = Some s" "CurrentLimit s = Some l" "valid_unit (lim_Unit l)" by auto
  then obtain sec where "UnitToDivider (lim_Unit l) = Inr sec" by (auto elim: valid_unitE)
  with True s show ?thesis
    by (simp add: response_headers_def rateLimitLimitHeader_def rateLimitRemainingHeader_def
        rateLimitResetHeader_def in_backend_def CalculateReset_def UnixNow_apply runs_def monad_simps headers_of_def)
next
  case False
  then show ?thesis by (auto simp: response_headers_def runs_def prim_simps)
qed

text \<open>The statuses of usable limits give a response.\<close>

lemma make_response_runs:
  fixes st :: "'x world_scheme svc_state"
  assumes xs: "snd ` set xs = set sts" and so: "list_all2 status_ok lims sts" and ok: "list_all limit_ok lims"
  shows "runs E (make_response this (globalShadowMode this) xs) st
    (\<lambda>resp t. svc t = svc st \<and> health t = health st \<and> observed (backend st) (backend t) \<and> response_for this xs resp)"
proof -
  let ?v = "fold (take_status (customHeadersEnabled this)) xs
    \<lparr>rv_Statuses = [], finalCode = OK, minLimitRemaining = MaxUint32, minimumDescriptor = None\<rparr>"
  have each: "\<forall>s \<in> set sts. \<exists>l \<in> set lims. status_ok l s"
    using so by (auto simp: list_all2_conv_all_nth in_set_conv_nth) (metis nth_mem)
  then have "\<forall>s \<in> snd ` set xs. status_fine s"
    unfolding xs by (fastforce simp: status_ok_def status_fine_def no_limit_status_def split: option.splits)
  then have inv: "response_inv (customHeadersEnabled this) xs ?v" by (rule take_statuses_inv)
  have units: "\<exists>l. CurrentLimit s = Some l \<and> valid_unit (lim_Unit l)" if "s \<in> set sts" "CurrentLimit s \<noteq> None" for s
    using each that ok
    by (fastforce simp: status_ok_def limit_ok_def no_limit_status_def list_all_iff split: option.splits)
  have hdr: "customHeadersEnabled this \<longrightarrow>
      (\<forall>s. minimumDescriptor ?v = Some s \<longrightarrow> (\<exists>l. CurrentLimit s = Some l \<and> valid_unit (lim_Unit l)))"
    using inv units xs by (auto simp: response_inv_def closest_def)
  have code: "finalCode ?v = (if over_limit xs then OVER_LIMIT else OK)" using inv by (simp add: response_inv_def)
  show ?thesis
    unfolding make_response_def Let_def
  proof (rule runs_bind [OF response_headers_runs [OF hdr]], elim conjE)
    fix hs and w :: "'x world_scheme svc_state"
    assume w: "svc w = svc st" "health w = health st" "observed (backend st) (backend w)" and
      hs: "if customHeadersEnabled this \<and> minimumDescriptor ?v \<noteq> None
        then headers_of this (the (minimumDescriptor ?v)) hs else hs = []"
    have "response_for this xs
        \<lparr>OverallCode = if over_limit xs \<and> \<not> globalShadowMode this then OVER_LIMIT else OK,
         Statuses = rv_Statuses ?v, ResponseHeadersToAdd = hs\<rparr>"
      using inv hs by (auto simp: response_for_def response_inv_def split: option.splits if_splits)
    with w show "runs E (bind (if finalCode ?v = OVER_LIMIT \<and> globalShadowMode this
          then bind (in_backend (emit [CounterInc (GlobalShadowMode (svc_stats this))])) (\<lambda>_. ret OK)
          else ret (finalCode ?v)) (\<lambda>code.
        ret \<lparr>OverallCode = code, Statuses = rv_Statuses ?v, ResponseHeadersToAdd = hs\<rparr>)) w
      (\<lambda>resp t. svc t = svc st \<and> health t = health st \<and> observed (backend st) (backend t) \<and> response_for this xs resp)"
      by (cases "over_limit xs"; cases "globalShadowMode this")
        (auto simp: code runs_def monad_simps in_backend_def emit_def intro: observed_trans)
  qed
qed

section \<open>The service over a back end\<close>

text \<open>The steps of a request, given what its two calls do.\<close>

lemma worker_calls:
  fixes st :: "'x world_scheme svc_state"
  assumes "Domain request \<noteq> ''''" and "Descriptors request \<noteq> []"
    and con: "constructLimitsToCheck request (svc_config (svc st)) st = (Inr (cfg, ptrs, us), st')"
    and call: "in_backend (do_limit request (map (deref cfg) ptrs)) st' = (r, st'')"
  shows "shouldRateLimitWorker do_limit request st =
    (case r of
       Inl p \<Rightarrow> (Inl p, st'')
     | Inr sts \<Rightarrow> bind (Assert (length ptrs = length sts)) (\<lambda>_.
         make_response (svc st'') (globalShadowMode (svc st)) (zip us sts)) st'')"
  using assms(1,2)
  by (cases r)
    (simp_all add: shouldRateLimitWorker_def checkServiceErr_def bind_ret GetCurrentConfig_def
      bind_apply [of "gets f" for f] gets_apply bind_apply [of "constructLimitsToCheck request (svc_config (svc st))"]
      con bind_apply [of "in_backend m" for m] call Assert_def raise_apply bind_apply [of "raise p" for p])

text \<open>
  What the service needs of a back end, beside the contract: its panics are those the service turns
  into errors.
\<close>

locale recoverable_cache = rate_limit_cache do_limit backend_error
  for do_limit :: "RateLimitRequest \<Rightarrow> RateLimit option list \<Rightarrow> ('x world_scheme, DescriptorStatus list) M"
    and backend_error :: "panic \<Rightarrow> bool" +
  assumes backend_error_redis: "backend_error p \<Longrightarrow> \<exists>e. p = RedisError e"
begin

text \<open>
  The limits a request with a usable configuration asks the back end for: those that are to be checked,
  and all with a window.
\<close>

lemma worker_limits:
  fixes st :: "'x world_scheme svc_state"
  assumes srv: "in_service tbl cs sm merge cfg" and units: "\<forall>s u. tbl s = Some u \<longrightarrow> u = UNKNOWN \<or> valid_unit u"
    and ov: "overrides_ok request" and ws: "ws = wanted tbl cs sm (Domain request) (Descriptors request)"
  obtains cfg' ptrs es where "constructLimitsToCheck request (Some cfg) st =
      (Inr (cfg', ptrs, map unlimited ws), st\<lparr>svc := (svc st)\<lparr>svc_config := Some cfg'\<rparr>,
         backend := (backend st)\<lparr>stats := stats (backend st) @ es\<rparr>\<rparr>)"
    and "in_service tbl cs sm merge cfg'"
    and "list_all2 (rel_option same_limit) (map (checked (replaced_names ws)) ws) (map (deref cfg') ptrs)"
    and "length (Descriptors request) = length (map (deref cfg') ptrs)" and "list_all limit_ok (map (deref cfg') ptrs)"
proof (rule constructLimitsToCheck_apply [OF srv ws])
  fix cfg' ptrs es
  assume con: "constructLimitsToCheck request (Some cfg) st =
      (Inr (cfg', ptrs, map unlimited ws), st\<lparr>svc := (svc st)\<lparr>svc_config := Some cfg'\<rparr>,
         backend := (backend st)\<lparr>stats := stats (backend st) @ es\<rparr>\<rparr>)"
    and srv': "in_service tbl cs sm merge cfg'"
    and lims: "list_all2 (rel_option same_limit) (map (checked (replaced_names ws)) ws) (map (deref cfg') ptrs)"
  have len: "length (Descriptors request) = length (map (deref cfg') ptrs)"
    using list_all2_lengthD [OF lims] ws by (simp add: wanted_def)
  have "list_all limit_ok (map (checked (replaced_names ws)) ws)"
    unfolding ws wanted_def list_all_iff
    using checked_limit_ok [OF in_service_files_ok [OF srv] units] ov by (auto simp: overrides_ok_def)
  with lims have "list_all limit_ok (map (deref cfg') ptrs)"
    by (auto simp: list_all2_conv_all_nth list_all_length) (metis limit_ok_same)
  with con srv' lims len show thesis by (rule that)
qed

text \<open>
  A request with a usable configuration asks the back end once. If that call returns statuses, the
  request is answered; otherwise the panic of the back end is the panic of the worker.
\<close>

lemma worker_answers:
  fixes st :: "'x world_scheme svc_state"
  assumes cfg: "svc_config (svc st) = Some cfg" and srv: "in_service tbl cs sm merge cfg"
    and units: "\<forall>s u. tbl s = Some u \<longrightarrow> u = UNKNOWN \<or> valid_unit u"
    and rq: "Domain request \<noteq> ''''" "Descriptors request \<noteq> []" "overrides_ok request"
    and ws: "ws = wanted tbl cs sm (Domain request) (Descriptors request)"
  obtains (response) resp t lims sts es s where "shouldRateLimitWorker do_limit request st = (Inr resp, t)"
    and "list_all2 (rel_option same_limit) (map (checked (replaced_names ws)) ws) lims"
    and "do_limit request lims ((backend st)\<lparr>stats := stats (backend st) @ es\<rparr>) = (Inr sts, s)"
    and "observed s (backend t)" and "list_all2 status_ok lims sts"
    and "response_for (svc st) (zip (map unlimited ws) sts) resp"
    and "\<exists>cfg'. in_service tbl cs sm merge cfg' \<and> svc t = (svc st)\<lparr>svc_config := Some cfg'\<rparr>"
  | (failed) p lims es s cfg' where "backend_error p"
    and "list_all2 (rel_option same_limit) (map (checked (replaced_names ws)) ws) lims"
    and "do_limit request lims ((backend st)\<lparr>stats := stats (backend st) @ es\<rparr>) = (Inl p, s)"
    and "shouldRateLimitWorker do_limit request st =
      (Inl p, st\<lparr>svc := (svc st)\<lparr>svc_config := Some cfg'\<rparr>, backend := s\<rparr>)"
proof -
  obtain cfg' ptrs es where con: "constructLimitsToCheck request (Some cfg) st =
      (Inr (cfg', ptrs, map unlimited ws), st\<lparr>svc := (svc st)\<lparr>svc_config := Some cfg'\<rparr>,
         backend := (backend st)\<lparr>stats := stats (backend st) @ es\<rparr>\<rparr>)"
    and srv': "in_service tbl cs sm merge cfg'"
    and lims: "list_all2 (rel_option same_limit) (map (checked (replaced_names ws)) ws) (map (deref cfg') ptrs)"
    and len: "length (Descriptors request) = length (map (deref cfg') ptrs)"
    and ok: "list_all limit_ok (map (deref cfg') ptrs)"
    by (rule worker_limits [OF srv units rq(3) ws])
  let ?lims = "map (deref cfg') ptrs" and ?s = "(backend st)\<lparr>stats := stats (backend st) @ es\<rparr>"
  let ?st = "\<lambda>s. st\<lparr>svc := (svc st)\<lparr>svc_config := Some cfg'\<rparr>, backend := s\<rparr>"
  have calls: "shouldRateLimitWorker do_limit request st =
      (case r of
         Inl p \<Rightarrow> (Inl p, ?st s)
       | Inr sts \<Rightarrow> bind (Assert (length ptrs = length sts)) (\<lambda>_.
           make_response (svc (?st s)) (globalShadowMode (svc st)) (zip (map unlimited ws) sts)) (?st s))"
    if "do_limit request ?lims ?s = (r, s)" for r s
    by (rule worker_calls [OF rq(1,2) con [folded cfg]]) (use that in \<open>simp add: in_backend_def\<close>)
  show thesis
    using do_limit_runs [OF len ok, of ?s]
  proof (cases rule: runs_cases)
    case (panics p s)
    from failed [OF panics(2) lims panics(1)] calls [OF panics(1)] show thesis by simp
  next
    case (returns sts s)
    have lens: "length ptrs = length sts" "length ws = length ptrs"
      using list_all2_lengthD [OF returns(2)] list_all2_lengthD [OF lims] by simp_all
    then have xs: "snd ` set (zip (map unlimited ws) sts) = set sts" by (simp flip: set_map)
    obtain resp t where run: "make_response (svc (?st s)) (globalShadowMode (svc (?st s))) (zip (map unlimited ws) sts) (?st s) = (Inr resp, t)"
      and t: "svc t = svc (?st s)" "observed (backend (?st s)) (backend t)"
      and resp: "response_for (svc (?st s)) (zip (map unlimited ws) sts) resp"
      by (rule runs_cases [OF make_response_runs [OF xs returns(2) ok, where E = "\<lambda>_. False" and st = "?st s" and this = "svc (?st s)"]]) auto
    have "shouldRateLimitWorker do_limit request st = (Inr resp, t)"
      using calls [OF returns(1)] run lens by (simp add: Assert_def bind_ret)
    moreover have "response_for (svc (?st s)) xs r = response_for (svc st) xs r" for xs r
      by (simp add: response_for_def headers_of_def)
    ultimately show thesis
      using t srv' resp by (intro response [OF _ lims returns(1) _ returns(2)]) auto
  qed
qed

text \<open>So is the request: answered, or the error of the back end is returned as a value, and counted.\<close>

lemma ShouldRateLimit_answers:
  fixes st :: "'x world_scheme svc_state"
  assumes "svc_config (svc st) = Some cfg" and "in_service tbl cs sm merge cfg"
    and "\<forall>s u. tbl s = Some u \<longrightarrow> u = UNKNOWN \<or> valid_unit u"
    and "Domain request \<noteq> ''''" "Descriptors request \<noteq> []" "overrides_ok request"
    and "ws = wanted tbl cs sm (Domain request) (Descriptors request)"
  obtains (response) resp t lims sts es s where "ShouldRateLimit do_limit request st = (Inr (Inr resp), t)"
    and "list_all2 (rel_option same_limit) (map (checked (replaced_names ws)) ws) lims"
    and "do_limit request lims ((backend st)\<lparr>stats := stats (backend st) @ es\<rparr>) = (Inr sts, s)"
    and "observed s (backend t)" and "list_all2 status_ok lims sts"
    and "response_for (svc st) (zip (map unlimited ws) sts) resp"
    and "\<exists>cfg'. in_service tbl cs sm merge cfg' \<and> svc t = (svc st)\<lparr>svc_config := Some cfg'\<rparr>"
  | (failed) e t lims es s where "ShouldRateLimit do_limit request st = (Inr (Inl e), t)" and "backend_error (RedisError e)"
    and "list_all2 (rel_option same_limit) (map (checked (replaced_names ws)) ws) lims"
    and "do_limit request lims ((backend st)\<lparr>stats := stats (backend st) @ es\<rparr>) = (Inl (RedisError e), s)"
    and "backend t = s\<lparr>stats := stats s @ [CounterInc (srl_RedisError (ShouldRateLimitStats (svc_stats (svc st))))]\<rparr>"
proof (cases rule: worker_answers [OF assms, case_names resp fail])
  case (resp r t lims sts es s)
  then show thesis by (intro response) (simp_all add: ShouldRateLimit_def)
next
  case (fail p lims es s cfg')
  then obtain e where p: "p = RedisError e" using backend_error_redis by blast
  let ?t = "st\<lparr>svc := (svc st)\<lparr>svc_config := Some cfg'\<rparr>, backend :=
    s\<lparr>stats := stats s @ [CounterInc (srl_RedisError (ShouldRateLimitStats (svc_stats (svc st))))]\<rparr>\<rparr>"
  have "ShouldRateLimit do_limit request st = (Inr (Inl e), ?t)"
    using fail(4) p by (simp add: ShouldRateLimit_def in_backend_def emit_def monad_simps)
  then show thesis by (rule failed) (use fail p in simp_all)
qed

end

text \<open>Requests that are refused before the back end is asked: an error value, counted, no other effect.\<close>

lemma ShouldRateLimit_refuses:
  fixes st :: "'x world_scheme svc_state"
  assumes "Domain request = '''' \<or> Descriptors request = [] \<or> svc_config (svc st) = None"
  obtains e where "ShouldRateLimit do_limit request st =
      (Inr (Inl e), st\<lparr>backend := (backend st)\<lparr>stats := stats (backend st) @
         [CounterInc (srl_ServiceError (ShouldRateLimitStats (svc_stats (svc st))))]\<rparr>\<rparr>)"
    and "e = (if Domain request = '''' then ''rate limit domain must not be empty''
      else if Descriptors request = [] then ''rate limit descriptor list must not be empty''
      else ''no rate limit configuration loaded'')"
  using assms
  by (cases "Domain request = ''''"; cases "Descriptors request = []")
    (auto simp: ShouldRateLimit_def shouldRateLimitWorker_def checkServiceErr_def GetCurrentConfig_def
      constructLimitsToCheck_def in_backend_def emit_def monad_simps intro!: that)

end
