(* ===== verification/Memcached.thy ===== *)
theory Memcached
  imports Limiter Settings
begin

text \<open>
  The memcached back end (\<open>src/memcached/client.go\<close>, \<open>src/memcached/stats_collecting_client.go\<close>,
  \<open>src/memcached/cache_impl.go\<close>): \<open>DoLimit\<close> reads all counters at once, decides, and leaves the
  counting to a background task; memcached does not create a key by incrementing it, so counting is
  a sequence of up to three calls.

  The library gomemcache is outside the sources: \<open>'m\<close> is what is behind a connection, and the
  operations the sources call are the fields of the argument \<open>memcache\<close>. A client is a record of
  operations on the state, as the interface \<open>Client\<close> has them. The state adds to the limiter's
  what is behind the client and the background tasks that have not run; the wait group counts them.
\<close>

section \<open>Data\<close>

datatype mc_error = ErrCacheMiss | ErrNotStored | OtherError string

record Item =
  it_Key :: string
  it_Value :: string
  it_Expiration :: int

text \<open>\<open>map[string]*memcache.Item\<close>: the values found, by key.\<close>

type_synonym mc_values = "(string \<times> string) list"

record 'm memcache =
  mc_GetMulti :: "string list \<Rightarrow> 'm \<Rightarrow> (mc_values \<times> mc_error option) \<times> 'm"
  mc_Increment :: "string \<Rightarrow> u64 \<Rightarrow> 'm \<Rightarrow> (u64 \<times> mc_error option) \<times> 'm"
  mc_Add :: "Item \<Rightarrow> 'm \<Rightarrow> mc_error option \<times> 'm"

text \<open>The arguments of a call of \<open>increaseAsync\<close>.\<close>

record task =
  t_cacheKeys :: "CacheKey list"
  t_isOverLimitWithLocalCache :: "bool list"
  t_limits :: "RateLimit option list"
  t_hitsAddend :: u64

record ('lc, 'm) mc_state = "'lc lim_state" +
  memcached :: 'm
  pending :: "task list"

record 's Client =
  GetMulti :: "string list \<Rightarrow> ('s, mc_values \<times> mc_error option) M"
  Increment :: "string \<Rightarrow> u64 \<Rightarrow> ('s, u64 \<times> mc_error option) M"
  Add :: "Item \<Rightarrow> ('s, mc_error option) M"

record 's rateLimitMemcacheImpl =
  mi_client :: "'s Client"
  mi_expirationJitterMaxSeconds :: int
  mi_nearLimitRatio :: f32
  mi_baseRateLimiter :: BaseRateLimiter

section \<open>Clients\<close>

definition memcache_Client :: "'m memcache \<Rightarrow> ('lc, 'm, 'x) mc_state_scheme Client" where
  "memcache_Client mc =
     \<lparr>GetMulti = (\<lambda>keys s. case mc_GetMulti mc keys (memcached s) of (r, m) \<Rightarrow> (Inr r, s\<lparr>memcached := m\<rparr>)),
      Increment = (\<lambda>key delta s. case mc_Increment mc key delta (memcached s) of (r, m) \<Rightarrow> (Inr r, s\<lparr>memcached := m\<rparr>)),
      Add = (\<lambda>item s. case mc_Add mc item (memcached s) of (r, m) \<Rightarrow> (Inr r, s\<lparr>memcached := m\<rparr>))\<rparr>"

record 's statsCollectingClient =
  scc_c :: "'s Client"
  multiGetSuccess :: metric
  multiGetError :: metric
  incrementSuccess :: metric
  incrementMiss :: metric
  incrementError :: metric
  addSuccess :: metric
  addError :: metric
  addNotStored :: metric
  keysRequested :: metric
  keysFound :: metric

definition new_statsCollectingClient :: "'s Client \<Rightarrow> scope \<Rightarrow> 's statsCollectingClient" where
  "new_statsCollectingClient c sc =
     \<lparr>scc_c = c,
      multiGetSuccess = MetricWithTags sc ''multiget'' [(''code'', ''success'')],
      multiGetError = MetricWithTags sc ''multiget'' [(''code'', ''error'')],
      incrementSuccess = MetricWithTags sc ''increment'' [(''code'', ''success'')],
      incrementMiss = MetricWithTags sc ''increment'' [(''code'', ''miss'')],
      incrementError = MetricWithTags sc ''increment'' [(''code'', ''error'')],
      addSuccess = MetricWithTags sc ''add'' [(''code'', ''success'')],
      addError = MetricWithTags sc ''add'' [(''code'', ''error'')],
      addNotStored = MetricWithTags sc ''add'' [(''code'', ''not_stored'')],
      keysRequested = Metric sc ''keys_requested'',
      keysFound = Metric sc ''keys_found''\<rparr>"

definition scc_GetMulti ::
  "'x world_scheme statsCollectingClient \<Rightarrow> string list \<Rightarrow> ('x world_scheme, mc_values \<times> mc_error option) M" where
  "scc_GetMulti scc keys =
     bind (emit [CounterAdd (keysRequested scc) (of_nat (length keys))]) (\<lambda>_.
     bind (GetMulti (scc_c scc) keys) (\<lambda>(results, err).
     bind (if err \<noteq> None then emit [CounterInc (multiGetError scc)]
           else bind (emit [CounterAdd (keysFound scc) (of_nat (length results))]) (\<lambda>_.
                emit [CounterInc (multiGetSuccess scc)])) (\<lambda>_.
     ret (results, err))))"

definition scc_Increment ::
  "'x world_scheme statsCollectingClient \<Rightarrow> string \<Rightarrow> u64 \<Rightarrow> ('x world_scheme, u64 \<times> mc_error option) M" where
  "scc_Increment scc key delta =
     bind (Increment (scc_c scc) key delta) (\<lambda>(newValue, err).
     bind (emit [CounterInc (case err of
              Some ErrCacheMiss \<Rightarrow> incrementMiss scc
            | None \<Rightarrow> incrementSuccess scc
            | _ \<Rightarrow> incrementError scc)]) (\<lambda>_.
     ret (newValue, err)))"

definition scc_Add ::
  "'x world_scheme statsCollectingClient \<Rightarrow> Item \<Rightarrow> ('x world_scheme, mc_error option) M" where
  "scc_Add scc item =
     bind (Add (scc_c scc) item) (\<lambda>err.
     bind (emit [CounterInc (case err of
              Some ErrNotStored \<Rightarrow> addNotStored scc
            | None \<Rightarrow> addSuccess scc
            | _ \<Rightarrow> addError scc)]) (\<lambda>_.
     ret err))"

definition CollectStats :: "'x world_scheme Client \<Rightarrow> scope \<Rightarrow> 'x world_scheme Client" where
  "CollectStats c sc =
     (let scc = new_statsCollectingClient c sc in
      \<lparr>GetMulti = scc_GetMulti scc, Increment = scc_Increment scc, Add = scc_Add scc\<rparr>)"

section \<open>Counting in the background\<close>

text \<open>\<open>strconv.FormatUint(hitsAddend, 10)\<close> and \<open>int32(expirationSeconds)\<close>\<close>

definition FormatUint :: "u64 \<Rightarrow> string" where
  "FormatUint w = FormatNat (unat w)"

definition to_int32 :: "int \<Rightarrow> int" where
  "to_int32 e = sint (word_of_int e :: 32 word)"

text \<open>The body of the loop of \<open>increaseAsync\<close> for a key that is counted.\<close>

definition increase_key ::
  "'x world_scheme rateLimitMemcacheImpl \<Rightarrow> u64 \<Rightarrow> string \<Rightarrow> RateLimit option \<Rightarrow> ('x world_scheme, unit) M" where
  "increase_key this hitsAddend key lim =
     bind (Increment (mi_client this) key hitsAddend) (\<lambda>(_, err).
     if err = Some ErrCacheMiss
     then bind (nonnil lim) (\<lambda>l.
          bind (lift_res (UnitToDivider (lim_Unit (Limit l)))) (\<lambda>divider.
          bind (if mi_expirationJitterMaxSeconds this > 0
                then bind (Int63n (mi_expirationJitterMaxSeconds this)) (\<lambda>jitter. ret (divider + jitter))
                else ret divider) (\<lambda>expirationSeconds.
          bind (Add (mi_client this) \<lparr>it_Key = key, it_Value = FormatUint hitsAddend,
                  it_Expiration = to_int32 expirationSeconds\<rparr>) (\<lambda>err.
          if err = Some ErrNotStored
          then bind (Increment (mi_client this) key hitsAddend) (\<lambda>_. ret ())
          else ret ()))))
     else ret ())"

definition increaseAsync ::
  "'x world_scheme rateLimitMemcacheImpl \<Rightarrow> task \<Rightarrow> ('x world_scheme, unit) M" where
  "increaseAsync this t =
     forM (\<lambda>(i, cacheKey, lim).
         if ck_Key cacheKey = '''' \<or> t_isOverLimitWithLocalCache t ! i then ret ()
         else increase_key this (t_hitsAddend t) (ck_Key cacheKey) lim)
       (zip [0..<length (t_cacheKeys t)] (zip (t_cacheKeys t) (t_limits t)))"

text \<open>\<open>waitGroup.Wait()\<close>, with the tasks run in the order they were started.\<close>

definition Flush_memcached ::
  "('lc, 'm, 'x) mc_state_scheme rateLimitMemcacheImpl \<Rightarrow> (('lc, 'm, 'x) mc_state_scheme, unit) M" where
  "Flush_memcached this =
     bind (gets pending) (\<lambda>ts.
     bind (modify (\<lambda>s. s\<lparr>pending := []\<rparr>)) (\<lambda>_.
     forM (increaseAsync this) ts))"

section \<open>DoLimit\<close>

definition check_keys ::
  "'lc platform \<Rightarrow> nat \<times> CacheKey \<times> RateLimit option \<Rightarrow> bool list \<times> string list
    \<Rightarrow> (('lc, 'x) lim_state_scheme, bool list \<times> string list) M" where
  "check_keys pf = (\<lambda>(i, cacheKey, lim) (isOverLimitWithLocalCache, keysToGet).
     if ck_Key cacheKey = '''' then ret (isOverLimitWithLocalCache, keysToGet)
     else bind (IsOverLimitWithLocalCache pf (ck_Key cacheKey)) (\<lambda>found.
       if found then ret (isOverLimitWithLocalCache[i := True], keysToGet)
       else ret (isOverLimitWithLocalCache, keysToGet @ [ck_Key cacheKey])))"

text \<open>The count read for a key: zero if there is no value, or none that parses as an \<open>int32\<close>.\<close>

definition count_before :: "mc_values \<Rightarrow> string \<Rightarrow> u32" where
  "count_before memcacheValues key =
     (case map_of memcacheValues key of
        None \<Rightarrow> 0
      | Some raw \<Rightarrow> (case ParseInt raw 32 of None \<Rightarrow> 0 | Some decoded \<Rightarrow> word_of_int decoded))"

definition memcached_status ::
  "'lc platform \<Rightarrow> BaseRateLimiter \<Rightarrow> u32 \<Rightarrow> mc_values \<Rightarrow> bool list \<Rightarrow> nat \<times> CacheKey \<times> RateLimit option
    \<Rightarrow> (('lc, 'x) lim_state_scheme, DescriptorStatus) M" where
  "memcached_status pf base hitsAddend memcacheValues isOverLimitWithLocalCache = (\<lambda>(i, cacheKey, lim).
     let before = count_before memcacheValues (ck_Key cacheKey); after = before + hitsAddend;
         limitInfo = NewRateLimitInfo lim before after 0 0
     in GetResponseDescriptorStatus pf base (ck_Key cacheKey) limitInfo
          (isOverLimitWithLocalCache ! i) hitsAddend)"

definition DoLimit_memcached ::
  "'lc platform \<Rightarrow> ('lc, 'm, 'x) mc_state_scheme rateLimitMemcacheImpl \<Rightarrow> bool \<Rightarrow> RateLimitRequest
    \<Rightarrow> RateLimit option list \<Rightarrow> (('lc, 'm, 'x) mc_state_scheme, DescriptorStatus list) M" where
  "DoLimit_memcached pf this autoFlush request lims =
     (let hitsAddend = Max_u32 1 (HitsAddend request) in
      bind (GenerateCacheKeys (mi_baseRateLimiter this) request lims hitsAddend) (\<lambda>cacheKeys.
      let n = length (Descriptors request); items = zip [0..<n] (zip cacheKeys lims) in
      bind (foldM (check_keys pf) items (replicate n False, [])) (\<lambda>(isOverLimitWithLocalCache, keysToGet).
      bind (if length keysToGet > 0
            then bind (GetMulti (mi_client this) keysToGet) (\<lambda>(memcacheValues, err). ret memcacheValues)
            else ret []) (\<lambda>memcacheValues.
      bind (mapM (memcached_status pf (mi_baseRateLimiter this) hitsAddend memcacheValues
              isOverLimitWithLocalCache) items) (\<lambda>responseDescriptorStatuses.
      bind (modify (\<lambda>s. s\<lparr>pending := pending s @ [\<lparr>t_cacheKeys = cacheKeys,
              t_isOverLimitWithLocalCache = isOverLimitWithLocalCache, t_limits = lims,
              t_hitsAddend = ucast hitsAddend\<rparr>]\<rparr>)) (\<lambda>_.
      bind (if autoFlush then Flush_memcached this else ret ()) (\<lambda>_.
      ret responseDescriptorStatuses)))))))"

definition NewRateLimitCacheImpl ::
  "'s Client \<Rightarrow> int \<Rightarrow> ManagerImpl \<Rightarrow> f32 \<Rightarrow> string \<Rightarrow> 's rateLimitMemcacheImpl" where
  "NewRateLimitCacheImpl c expirationJitterMaxSeconds sm ratio keyPrefix =
     \<lparr>mi_client = c, mi_expirationJitterMaxSeconds = expirationJitterMaxSeconds,
      mi_nearLimitRatio = ratio, mi_baseRateLimiter = NewBaseRateLimit expirationJitterMaxSeconds ratio keyPrefix sm\<rparr>"

section \<open>Servers\<close>

text \<open>
  \<open>refreshServers\<close>: the servers a resolver names become those of the client's list. The
  resolver and \<open>ServerList.SetServers\<close>, which resolves addresses, are arguments.
\<close>

definition refreshServers ::
  "(string \<Rightarrow> string + string list) \<Rightarrow> (string list \<Rightarrow> string + 'sl) \<Rightarrow> string \<Rightarrow> 'sl \<Rightarrow> string option \<times> 'sl" where
  "refreshServers resolve setServers srv serverList =
     (case resolve srv of
        Inl err \<Rightarrow> (Some err, serverList)
      | Inr servers \<Rightarrow> (case setServers servers of
          Inl err \<Rightarrow> (Some err, serverList)
        | Inr sl \<Rightarrow> (None, sl)))"

text \<open>The ticks of \<open>refreshServersPeriodically\<close>: an error keeps the list and the loop going.\<close>

fun refreshServersPeriodically ::
  "(string list \<Rightarrow> string + 'sl) \<Rightarrow> string \<Rightarrow> (string \<Rightarrow> string + string list) list \<Rightarrow> 'sl \<Rightarrow> 'sl" where
  "refreshServersPeriodically setServers srv [] serverList = serverList"
| "refreshServersPeriodically setServers srv (resolve # ticks) serverList =
     refreshServersPeriodically setServers srv ticks
       (snd (refreshServers resolve setServers srv serverList))"

text \<open>
  A \<open>memcache.Client\<close> over a list of servers: with the interval at which a goroutine runs
  \<open>refreshServersPeriodically\<close> on the list, if any, the idle connections kept, and the TLS
  configuration connections are dialled with.
\<close>

record ('c, 'p, 'sl) memcache_conn =
  mc_selector :: 'sl
  mc_refresh :: "int option"
  mc_MaxIdleConns :: int
  mc_dialTls :: "('c, 'p) tls_Config option"

text \<open>\<open>memcache.NewFromSelector(ss)\<close>: two idle connections unless set otherwise, plain connections.\<close>

definition NewFromSelector :: "'sl \<Rightarrow> int option \<Rightarrow> ('c, 'p, 'sl) memcache_conn" where
  "NewFromSelector serverList refresh =
     \<lparr>mc_selector = serverList, mc_refresh = refresh, mc_MaxIdleConns = 2, mc_dialTls = None\<rparr>"

definition newMemcachedFromSrv ::
  "(string \<Rightarrow> string + string list) \<Rightarrow> (string list \<Rightarrow> string + 'sl) \<Rightarrow> 'sl \<Rightarrow> string \<Rightarrow> int
    \<Rightarrow> ('c, 'p, 'sl) memcache_conn res" where
  "newMemcachedFromSrv resolve setServers new srv d =
     (case refreshServers resolve setServers srv new of
        (Some err, _) \<Rightarrow> Inl (MemcacheError ''Unable to fetch servers from SRV'')
      | (None, serverList) \<Rightarrow> Inr (NewFromSelector serverList (if d > 0 then Some d else None)))"

text \<open>\<open>memcache.New(server...)\<close> ignores the error of \<open>SetServers\<close>: \<open>new_servers\<close> is the list it makes.\<close>

definition newMemcacheFromSettings ::
  "(string \<Rightarrow> string + string list) \<Rightarrow> (string list \<Rightarrow> string + 'sl) \<Rightarrow> (string list \<Rightarrow> 'sl) \<Rightarrow> 'sl
    \<Rightarrow> ('c, 'p, 'i) Settings \<Rightarrow> ('c, 'p, 'sl) memcache_conn res" where
  "newMemcacheFromSettings resolve setServers new_servers new s =
     (if s_MemcacheSrv s \<noteq> '''' \<and> length (s_MemcacheHostPort s) > 0
      then Inl (MemcacheError ''Both MEMCADHE_HOST_PORT and MEMCACHE_SRV are set'')
      else res_bind
        (if s_MemcacheSrv s \<noteq> ''''
         then newMemcachedFromSrv resolve setServers new (s_MemcacheSrv s) (s_MemcacheSrvRefresh s)
         else Inr (NewFromSelector (new_servers (s_MemcacheHostPort s)) None)) (\<lambda>client.
      let client = client\<lparr>mc_MaxIdleConns := s_MemcacheMaxIdleConns s\<rparr> in
      Inr (if s_MemcacheTls s then client\<lparr>mc_dialTls := s_MemcacheTlsConfig s\<rparr> else client)))"

text \<open>\<open>conn\<close> is what the client library does on such a connection.\<close>

definition NewRateLimitCacheImplFromSettings ::
  "(('c, 'p, 'sl) memcache_conn \<Rightarrow> 'm memcache) \<Rightarrow> (string \<Rightarrow> string + string list)
    \<Rightarrow> (string list \<Rightarrow> string + 'sl) \<Rightarrow> (string list \<Rightarrow> 'sl) \<Rightarrow> 'sl \<Rightarrow> ('c, 'p, 'i) Settings \<Rightarrow> scope \<Rightarrow> ManagerImpl
    \<Rightarrow> ('lc, 'm, 'x) mc_state_scheme rateLimitMemcacheImpl res" where
  "NewRateLimitCacheImplFromSettings conn resolve setServers new_servers new s scope sm =
     res_bind (newMemcacheFromSettings resolve setServers new_servers new s) (\<lambda>client.
     Inr (NewRateLimitCacheImpl (CollectStats (memcache_Client (conn client)) (Scope scope ''memcache''))
       (s_ExpirationJitterMaxSeconds s) sm (s_NearLimitRatio s) (s_CacheKeyPrefix s)))"

section \<open>Lemmas: clients\<close>

text \<open>A client whose calls do not panic.\<close>

definition client_total :: "'s Client \<Rightarrow> bool" where
  "client_total c \<longleftrightarrow>
     (\<forall>ks s. \<exists>r t. GetMulti c ks s = (Inr r, t)) \<and>
     (\<forall>k d s. \<exists>r t. Increment c k d s = (Inr r, t)) \<and>
     (\<forall>i s. \<exists>r t. Add c i s = (Inr r, t))"

lemma memcache_Client_total: "client_total (memcache_Client mc)"
  by (auto simp: client_total_def memcache_Client_def split: prod.splits)

lemma CollectStats_total:
  assumes "client_total c" shows "client_total (CollectStats c sc)"
proof -
  have g: "\<exists>r t. GetMulti (CollectStats c sc) ks s = (Inr r, t)" for ks s
  proof -
    let ?s = "s\<lparr>stats := stats s @ [CounterAdd (Metric sc ''keys_requested'') (of_nat (length ks))]\<rparr>"
    obtain vs e t where "GetMulti c ks ?s = (Inr (vs, e), t)"
      using assms unfolding client_total_def by (metis surj_pair)
    then show ?thesis
      by (cases e)
        (simp_all add: CollectStats_def Let_def scc_GetMulti_def new_statsCollectingClient_def monad_simps)
  qed
  have i: "\<exists>r t. Increment (CollectStats c sc) k d s = (Inr r, t)" for k d s
  proof -
    obtain x e t where "Increment c k d s = (Inr (x, e), t)"
      using assms unfolding client_total_def by (metis surj_pair)
    then show ?thesis
      by (simp add: CollectStats_def Let_def scc_Increment_def new_statsCollectingClient_def monad_simps)
  qed
  have a: "\<exists>r t. Add (CollectStats c sc) it s = (Inr r, t)" for it s
  proof -
    obtain e t where "Add c it s = (Inr e, t)" using assms unfolding client_total_def by metis
    then show ?thesis
      by (simp add: CollectStats_def Let_def scc_Add_def new_statsCollectingClient_def monad_simps)
  qed
  from g i a show ?thesis by (simp add: client_total_def)
qed

section \<open>Lemmas: the contract\<close>

definition memcached_items ::
  "BaseRateLimiter \<Rightarrow> RateLimitRequest \<Rightarrow> RateLimit option list \<Rightarrow> int \<Rightarrow> (nat \<times> CacheKey \<times> RateLimit option) list" where
  "memcached_items base request lims now =
     zip [0..<length (Descriptors request)]
       (zip (map (cache_key base (Domain request) now) (zip (Descriptors request) lims)) lims)"

lemma memcached_items_ok:
  assumes "list_all limit_ok lims" and "length (Descriptors request) = length lims"
  shows "\<forall>(i, key, lim) \<in> set (memcached_items base request lims now).
      i < length lims \<and> limit_ok lim \<and> (ck_Key key = '''' \<longleftrightarrow> lim = None)"
    and "map fst (memcached_items base request lims now) = [0..<length lims]"
    and "map (snd \<circ> snd) (memcached_items base request lims now) = lims"
proof -
  show "\<forall>(i, key, lim) \<in> set (memcached_items base request lims now).
      i < length lims \<and> limit_ok lim \<and> (ck_Key key = '''' \<longleftrightarrow> lim = None)"
    using assms
    by (auto simp: list_all_length memcached_items_def cache_key_empty set_zip)
  show "map fst (memcached_items base request lims now) = [0..<length lims]"
    and "map (snd \<circ> snd) (memcached_items base request lims now) = lims"
    using assms(2) by (auto simp: memcached_items_def intro!: nth_equalityI)
qed

lemma check_keys_runs: "runs E (check_keys pf item v) s (\<lambda>_ _. True)"
  by (cases item; cases v; cases "localCache s")
    (auto simp: check_keys_def runs_def monad_simps IsOverLimitWithLocalCache_def split: prod.split)

lemma memcached_status_runs:
  assumes "limit_ok lim" and "ck_Key key = '''' \<longleftrightarrow> lim = None"
  shows "runs E (memcached_status pf base hits vs fs (i, key, lim)) s (\<lambda>st t. status_ok lim st)"
proof -
  let ?before = "count_before vs (ck_Key key)"
  let ?info = "NewRateLimitInfo lim ?before (?before + hits) 0 0"
  have "runs E (GetResponseDescriptorStatus pf base (ck_Key key) ?info (fs ! i) hits) s
      (\<lambda>st t. status_ok (li_limit ?info) st)"
    by (rule GetResponseDescriptorStatus_runs) (use assms in \<open>simp_all add: NewRateLimitInfo_def\<close>)
  then show ?thesis by (simp add: memcached_status_def Let_def NewRateLimitInfo_def)
qed

lemma DoLimit_memcached_runs:
  assumes len: "length (Descriptors request) = length lims" and ok: "list_all limit_ok lims"
    and c: "client_total (mi_client this)"
  shows "runs E (DoLimit_memcached pf this False request lims) s (\<lambda>sts t. list_all2 status_ok lims sts)"
proof -
  let ?hits = "Max_u32 1 (HitsAddend request)"
  let ?base = "mi_baseRateLimiter this"
  let ?items = "memcached_items ?base request lims (now_at s (reads s))"
  let ?keys = "map (cache_key ?base (Domain request) (now_at s (reads s))) (zip (Descriptors request) lims)"
  have gen: "runs E (GenerateCacheKeys ?base request lims ?hits) s (\<lambda>keys t. keys = ?keys)"
    by (rule runs_eq [OF GenerateCacheKeys_apply [OF ok len]]) simp
  have loop: "runs E (foldM (check_keys pf) ?items v) t (\<lambda>_ _. True)" for v t
    by (rule runs_foldM) (auto intro: check_keys_runs)
  have get: "runs E (if length ks > 0 then bind (GetMulti (mi_client this) ks) (\<lambda>(vs, err). ret vs) else ret []) t
      (\<lambda>_ _. True)" for ks t
  proof -
    obtain vs e u where "GetMulti (mi_client this) ks t = (Inr (vs, e), u)"
      using c unfolding client_total_def by (metis surj_pair)
    then show ?thesis by (simp add: runs_def monad_simps)
  qed
  have sts: "runs E (mapM (memcached_status pf ?base ?hits vs fs) ?items) t
      (\<lambda>sts t. list_all2 status_ok lims sts)" for vs fs t
  proof -
    have "runs E (mapM (memcached_status pf ?base ?hits vs fs) ?items) t
        (\<lambda>sts t. list_all2 (\<lambda>item st. status_ok (snd (snd item)) st) ?items sts \<and> True)"
      by (rule runs_mapM)
        (use memcached_items_ok(1) [OF ok len] in \<open>fastforce intro!: runs_conseq [OF memcached_status_runs]\<close>)+
    then show ?thesis
      by (rule runs_conseq)
        (auto simp: list_all2_map1 [of status_ok "snd \<circ> snd" ?items, unfolded memcached_items_ok(3) [OF ok len]])
  qed
  show ?thesis
    unfolding DoLimit_memcached_def Let_def if_False
    by (rule runs_bind [OF gen], simp only: memcached_items_def [symmetric], rule runs_bind [OF loop],
        rule runs_prod, rule runs_bind [OF get], rule runs_bind [OF sts])
      (simp add: runs_def monad_simps)
qed

text \<open>The back end as the program builds it keeps the contract of \<open>RateLimitCache\<close> and never panics.\<close>

interpretation memcached: rate_limit_cache
  "DoLimit_memcached pf (NewRateLimitCacheImpl (CollectStats (memcache_Client mc) sc) jitter sm ratio keyPrefix) False"
  "\<lambda>_. False" for pf mc sc jitter sm ratio keyPrefix
  by unfold_locales
    (simp add: DoLimit_memcached_runs NewRateLimitCacheImpl_def CollectStats_total memcache_Client_total)


end
