(* ===== verification/Memcached_Async.thy ===== *)
theory Memcached_Async
  imports Memcached
begin

text \<open>
  What the memcached back end promises over a server that keeps counters: clients that collect
  statistics are transparent, decisions follow the stored counts, and concurrent background tasks
  lose no update, however their calls interleave.
\<close>

section \<open>What the client relies on\<close>

text \<open>
  Documented behaviour of memcached and gomemcache, for a server whose counters are \<open>val m\<close>. A key has
  at most 250 characters, none of them a white space or a control character; an operation on any other
  key fails and changes nothing, and \<open>GetMulti\<close> fails as a whole if one of its keys is such. Otherwise
  \<open>GetMulti\<close> returns the decimal form of the counters asked for that exist; \<open>Increment\<close> adds to an
  existing counter modulo \<open>2 ^ 64\<close> and misses otherwise; \<open>Add\<close> creates a counter, and stores nothing
  if it exists. An expiration is a number of seconds from now if it is positive and at most 30 days.
  The laws are those of a server that can be reached, while it evicts no counter; counters are those of
  the windows in use, and nothing is said about what happens after an expiration.
\<close>

definition legal_key :: "string \<Rightarrow> bool" where
  "legal_key k \<longleftrightarrow> k \<noteq> '''' \<and> length k \<le> 250 \<and> list_all (\<lambda>c. 32 < (of_char c :: nat) \<and> (of_char c :: nat) \<noteq> 127) k"

definition legal_expiration :: "int \<Rightarrow> bool" where
  "legal_expiration e \<longleftrightarrow> 0 < e \<and> e \<le> 30 * 24 * 60 * 60"

text \<open>What the three operations return, and the counters \<open>v'\<close> they leave of \<open>v\<close>.\<close>

definition gets :: "(string \<Rightarrow> u64 option) \<Rightarrow> string list \<Rightarrow> mc_values \<times> mc_error option \<Rightarrow> (string \<Rightarrow> u64 option) \<Rightarrow> bool" where
  "gets v ks r v' \<longleftrightarrow> v' = v \<and>
     (if list_all legal_key ks then snd r = None \<and> (\<forall>k \<in> set ks. map_of (fst r) k = map_option FormatUint (v k))
      else fst r = [] \<and> (\<exists>e. snd r = Some (OtherError e)))"

definition increments ::
  "(string \<Rightarrow> u64 option) \<Rightarrow> string \<Rightarrow> u64 \<Rightarrow> mc_error option \<Rightarrow> (string \<Rightarrow> u64 option) \<Rightarrow> bool" where
  "increments v k d err v' \<longleftrightarrow>
     (if legal_key k
      then err = (if v k = None then Some ErrCacheMiss else None) \<and> v' = v(k := map_option (\<lambda>n. n + d) (v k))
      else (\<exists>e. err = Some (OtherError e)) \<and> v' = v)"

definition adds :: "(string \<Rightarrow> u64 option) \<Rightarrow> string \<Rightarrow> u64 \<Rightarrow> mc_error option \<Rightarrow> (string \<Rightarrow> u64 option) \<Rightarrow> bool" where
  "adds v k w err v' \<longleftrightarrow> err = (if v k = None then None else Some ErrNotStored) \<and>
     v' = v(k := Some (case v k of None \<Rightarrow> w | Some n \<Rightarrow> n))"

definition mc_laws :: "'m memcache \<Rightarrow> ('m \<Rightarrow> string \<Rightarrow> u64 option) \<Rightarrow> bool" where
  "mc_laws mc val \<longleftrightarrow>
     (\<forall>ks m. case mc_GetMulti mc ks m of (r, m') \<Rightarrow> gets (val m) ks r (val m')) \<and>
     (\<forall>k d m. case mc_Increment mc k d m of ((_, err), m') \<Rightarrow> increments (val m) k d err (val m')) \<and>
     (\<forall>k w e m. legal_key k \<longrightarrow> legal_expiration e \<longrightarrow>
        (case mc_Add mc \<lparr>it_Key = k, it_Value = FormatUint w, it_Expiration = e\<rparr> m of (err, m') \<Rightarrow>
           adds (val m) k w err (val m')))"

text \<open>The same of a client, on the program's state; the rest of the state that decisions use stays.\<close>

definition same_rest :: "('lc, 'm, 'x) mc_state_scheme \<Rightarrow> ('lc, 'm, 'x) mc_state_scheme \<Rightarrow> bool" where
  "same_rest s t \<longleftrightarrow> now_at t = now_at s \<and> reads t = reads s \<and> localCache t = localCache s \<and>
     pending t = pending s"

definition client_ok ::
  "('lc, 'm, 'x) mc_state_scheme Client \<Rightarrow> ('m \<Rightarrow> string \<Rightarrow> u64 option) \<Rightarrow> bool" where
  "client_ok c val \<longleftrightarrow>
     (\<forall>ks s. \<exists>r t. GetMulti c ks s = (Inr r, t) \<and> same_rest s t \<and>
        gets (val (memcached s)) ks r (val (memcached t))) \<and>
     (\<forall>k d s. \<exists>x err t. Increment c k d s = (Inr (x, err), t) \<and> same_rest s t \<and>
        increments (val (memcached s)) k d err (val (memcached t))) \<and>
     (\<forall>k w e s. legal_key k \<longrightarrow> legal_expiration e \<longrightarrow>
        (\<exists>err t. Add c \<lparr>it_Key = k, it_Value = FormatUint w, it_Expiration = e\<rparr> s = (Inr err, t) \<and> same_rest s t \<and>
          adds (val (memcached s)) k w err (val (memcached t))))"

lemma client_GetMulti:
  assumes "client_ok c val"
  obtains r t where "GetMulti c ks s = (Inr r, t)" and "same_rest s t"
    and "gets (val (memcached s)) ks r (val (memcached t))"
  using assms unfolding client_ok_def by blast

lemma client_Increment:
  assumes "client_ok c val"
  obtains x err t where "Increment c k d s = (Inr (x, err), t)" and "same_rest s t"
    and "increments (val (memcached s)) k d err (val (memcached t))"
  using assms unfolding client_ok_def by blast

lemma client_Add:
  assumes "client_ok c val" and "legal_key k" and "legal_expiration e"
  obtains err t where "Add c \<lparr>it_Key = k, it_Value = FormatUint w, it_Expiration = e\<rparr> s = (Inr err, t)"
    and "same_rest s t" and "adds (val (memcached s)) k w err (val (memcached t))"
  using assms unfolding client_ok_def by blast

lemma memcache_Client_ok:
  assumes "mc_laws mc val"
  shows "client_ok (memcache_Client mc) val"
  using assms
  by (fastforce simp: client_ok_def mc_laws_def memcache_Client_def same_rest_def split: prod.splits)

lemma CollectStats_ok:
  assumes ok: "client_ok c val" shows "client_ok (CollectStats c sc) val"
proof -
  note defs = CollectStats_def Let_def new_statsCollectingClient_def monad_simps same_rest_def
  have "\<exists>r t. GetMulti (CollectStats c sc) ks s = (Inr r, t) \<and> same_rest s t \<and>
      gets (val (memcached s)) ks r (val (memcached t))" for ks s
  proof -
    let ?s = "s\<lparr>stats := stats s @ [CounterAdd (Metric sc ''keys_requested'') (of_nat (length ks))]\<rparr>"
    obtain r t where "GetMulti c ks ?s = (Inr r, t)" "same_rest ?s t" "gets (val (memcached ?s)) ks r (val (memcached t))"
      by (rule client_GetMulti [OF ok])
    then show ?thesis by (cases r; cases "snd r") (simp_all add: scc_GetMulti_def defs)
  qed
  moreover have "\<exists>x err t. Increment (CollectStats c sc) k d s = (Inr (x, err), t) \<and> same_rest s t \<and>
      increments (val (memcached s)) k d err (val (memcached t))" for k d s
  proof -
    obtain x err t where "Increment c k d s = (Inr (x, err), t)" "same_rest s t"
      "increments (val (memcached s)) k d err (val (memcached t))"
      by (rule client_Increment [OF ok])
    then show ?thesis by (simp add: scc_Increment_def defs)
  qed
  moreover have "\<exists>err t. Add (CollectStats c sc) \<lparr>it_Key = k, it_Value = FormatUint w, it_Expiration = e\<rparr> s = (Inr err, t) \<and>
      same_rest s t \<and> adds (val (memcached s)) k w err (val (memcached t))" if legal: "legal_key k" "legal_expiration e" for k w e s
  proof -
    obtain err t where "Add c \<lparr>it_Key = k, it_Value = FormatUint w, it_Expiration = e\<rparr> s = (Inr err, t)"
      "same_rest s t" "adds (val (memcached s)) k w err (val (memcached t))"
      by (rule client_Add [OF ok legal])
    then show ?thesis by (simp add: scc_Add_def defs)
  qed
  ultimately show ?thesis unfolding client_ok_def by blast
qed

text \<open>A server that is a table of counters.\<close>

definition table_server :: "(string \<Rightarrow> u64 option) memcache" where
  "table_server =
     \<lparr>mc_GetMulti = (\<lambda>ks m. (if list_all legal_key ks
          then (concat (map (\<lambda>k. case m k of None \<Rightarrow> [] | Some v \<Rightarrow> [(k, FormatUint v)]) ks), None)
          else ([], Some (OtherError ''malformed key'')), m)),
      mc_Increment = (\<lambda>k d m. if \<not> legal_key k then ((0, Some (OtherError ''malformed key'')), m) else case m k of
          None \<Rightarrow> ((0, Some ErrCacheMiss), m)
        | Some v \<Rightarrow> ((v + d, None), m(k \<mapsto> v + d))),
      mc_Add = (\<lambda>i m. if \<not> legal_key (it_Key i) then (Some (OtherError ''malformed key''), m) else case m (it_Key i) of
          None \<Rightarrow> (None, m(it_Key i \<mapsto> of_nat (nat_of_digits (it_Value i))))
        | Some v \<Rightarrow> (Some ErrNotStored, m))\<rparr>"

lemma table_GetMulti:
  "k \<in> set ks \<Longrightarrow>
   map_of (concat (map (\<lambda>k. case m k of None \<Rightarrow> [] | Some v \<Rightarrow> [(k, FormatUint v)]) ks)) k =
     map_option FormatUint (m k)"
  by (induction ks) (auto split: option.splits simp: map_of_eq_None_iff)

lemma table_server_laws: "mc_laws table_server id"
  unfolding mc_laws_def
  by (intro conjI allI impI)
    (auto simp: table_server_def table_GetMulti gets_def increments_def adds_def fun_upd_idem FormatUint_def
      nat_of_digits_FormatNat split: option.splits)

section \<open>Background tasks as processes\<close>

text \<open>
  A goroutine running \<open>increaseAsync\<close> is suspended between the calls it makes: it is about to
  increment the first of its keys, to add it after a miss, or to increment it again because another
  goroutine added it first.
\<close>

datatype pc = TryIncrement | TryAdd | TryIncrementAgain

record process =
  p_pc :: pc
  p_todo :: "(string \<times> RateLimit option) list"
  p_hits :: u64

definition next_key :: "process \<Rightarrow> process" where
  "next_key p = p\<lparr>p_pc := TryIncrement, p_todo := tl (p_todo p)\<rparr>"

text \<open>One call of a process that has a key left.\<close>

definition call_step ::
  "'x world_scheme rateLimitMemcacheImpl \<Rightarrow> process \<Rightarrow> ('x world_scheme, process) M" where
  "call_step this p =
     (case p_todo p of
        [] \<Rightarrow> ret p
      | (key, lim) # _ \<Rightarrow>
          (case p_pc p of
             TryIncrement \<Rightarrow>
               bind (Increment (mi_client this) key (p_hits p)) (\<lambda>(_, err).
               ret (if err = Some ErrCacheMiss then p\<lparr>p_pc := TryAdd\<rparr> else next_key p))
           | TryAdd \<Rightarrow>
               bind (nonnil lim) (\<lambda>l.
               bind (lift_res (UnitToDivider (lim_Unit (Limit l)))) (\<lambda>divider.
               bind (if mi_expirationJitterMaxSeconds this > 0
                     then bind (Int63n (mi_expirationJitterMaxSeconds this)) (\<lambda>jitter. ret (divider + jitter))
                     else ret divider) (\<lambda>expirationSeconds.
               bind (Add (mi_client this) \<lparr>it_Key = key, it_Value = FormatUint (p_hits p),
                       it_Expiration = to_int32 expirationSeconds\<rparr>) (\<lambda>err.
               ret (if err = Some ErrNotStored then p\<lparr>p_pc := TryIncrementAgain\<rparr> else next_key p)))))
           | TryIncrementAgain \<Rightarrow>
               bind (Increment (mi_client this) key (p_hits p)) (\<lambda>_. ret (next_key p))))"

text \<open>The process of a task, and a process run alone.\<close>

definition process_of :: "task \<Rightarrow> process" where
  "process_of t =
     \<lparr>p_pc = TryIncrement,
      p_todo = map (\<lambda>(i, key, lim). (ck_Key key, lim))
        (filter (\<lambda>(i, key, lim). \<not> (ck_Key key = '''' \<or> t_isOverLimitWithLocalCache t ! i))
          (zip [0..<length (t_cacheKeys t)] (zip (t_cacheKeys t) (t_limits t)))),
      p_hits = t_hitsAddend t\<rparr>"

fun run_process ::
  "'x world_scheme rateLimitMemcacheImpl \<Rightarrow> nat \<Rightarrow> process \<Rightarrow> ('x world_scheme, process) M" where
  "run_process this 0 p = ret p"
| "run_process this (Suc n) p = (if p_todo p = [] then ret p else bind (call_step this p) (run_process this n))"

lemma run_process_done: "p_todo p = [] \<Longrightarrow> run_process this n p = ret p"
  by (cases n) simp_all

lemma run_process_call:
  "run_process this (Suc k) \<lparr>p_pc = TryIncrement, p_todo = (key, lim) # todo, p_hits = h\<rparr> =
     bind (Increment (mi_client this) key h) (\<lambda>r.
       if snd r = Some ErrCacheMiss
       then run_process this k \<lparr>p_pc = TryAdd, p_todo = (key, lim) # todo, p_hits = h\<rparr>
       else run_process this k \<lparr>p_pc = TryIncrement, p_todo = todo, p_hits = h\<rparr>)"
  "run_process this (Suc k) \<lparr>p_pc = TryAdd, p_todo = (key, lim) # todo, p_hits = h\<rparr> =
     bind (nonnil lim) (\<lambda>l. bind (lift_res (UnitToDivider (lim_Unit (Limit l)))) (\<lambda>divider.
     bind (if mi_expirationJitterMaxSeconds this > 0
           then bind (Int63n (mi_expirationJitterMaxSeconds this)) (\<lambda>jitter. ret (divider + jitter))
           else ret divider) (\<lambda>expirationSeconds.
     bind (Add (mi_client this) \<lparr>it_Key = key, it_Value = FormatUint h,
             it_Expiration = to_int32 expirationSeconds\<rparr>) (\<lambda>err.
       if err = Some ErrNotStored
       then run_process this k \<lparr>p_pc = TryIncrementAgain, p_todo = (key, lim) # todo, p_hits = h\<rparr>
       else run_process this k \<lparr>p_pc = TryIncrement, p_todo = todo, p_hits = h\<rparr>))))"
  "run_process this (Suc k) \<lparr>p_pc = TryIncrementAgain, p_todo = (key, lim) # todo, p_hits = h\<rparr> =
     bind (Increment (mi_client this) key h)
       (\<lambda>_. run_process this k \<lparr>p_pc = TryIncrement, p_todo = todo, p_hits = h\<rparr>)"
  by (simp_all add: call_step_def next_key_def bind_assoc bind_ret split_def
      if_distrib [of "run_process this k"] cong: if_cong)

text \<open>
  Run alone with enough calls (three per key), a process does what \<open>increaseAsync\<close> does: the
  processes are a faithful split of the code into its calls.
\<close>

lemma run_process_todo:
  assumes "3 * length todo \<le> n"
  shows "run_process this n \<lparr>p_pc = TryIncrement, p_todo = todo, p_hits = h\<rparr> =
    bind (forM (\<lambda>(key, lim). increase_key this h key lim) todo)
      (\<lambda>_. ret \<lparr>p_pc = TryIncrement, p_todo = [], p_hits = h\<rparr>)"
  using assms
proof (induction todo arbitrary: n)
  case Nil
  then show ?case by (simp add: run_process_done bind_laws)
next
  case (Cons x todo)
  obtain m where n: "n = Suc (Suc (Suc m))" and m: "3 * length todo \<le> m"
    using Cons.prems by (intro that [of "n - 3"]) auto
  define R where "R = forM (\<lambda>(key, lim). increase_key this h key lim) todo"
  have IH: "run_process this k \<lparr>p_pc = TryIncrement, p_todo = todo, p_hits = h\<rparr> =
      bind R (\<lambda>_. ret \<lparr>p_pc = TryIncrement, p_todo = [], p_hits = h\<rparr>)" if "m \<le> k" for k
    unfolding R_def using Cons.IH m that by simp
  obtain key lim where x: "x = (key, lim)" by (cases x)
  have "forM (\<lambda>(key, lim). increase_key this h key lim) (x # todo) = bind (increase_key this h key lim) (\<lambda>_. R)"
    by (simp add: x R_def)
  then show ?case
    by (simp add: n x run_process_call increase_key_def bind_laws IH split_def
        del: forM.simps run_process.simps cong: if_cong)
qed

lemma forM_filter: "forM (\<lambda>x. if P x then ret () else f x) xs = forM f (filter (\<lambda>x. \<not> P x) xs)"
  by (induction xs) (auto simp: bind_ret)

lemma forM_map: "forM f (map g xs) = forM (\<lambda>x. f (g x)) xs"
  by (induction xs) auto

lemma increaseAsync_todo:
  "increaseAsync this t = forM (\<lambda>(key, lim). increase_key this (t_hitsAddend t) key lim) (p_todo (process_of t))"
proof -
  have "increaseAsync this t =
      forM (\<lambda>x. if (case x of (i, key, lim) \<Rightarrow> ck_Key key = '''' \<or> t_isOverLimitWithLocalCache t ! i) then ret ()
          else (case x of (i, key, lim) \<Rightarrow> increase_key this (t_hitsAddend t) (ck_Key key) lim))
        (zip [0..<length (t_cacheKeys t)] (zip (t_cacheKeys t) (t_limits t)))"
    unfolding increaseAsync_def by (rule arg_cong2 [of _ _ _ _ forM]) auto
  then show ?thesis
    by (simp only: forM_filter process_of_def process.simps forM_map) (simp add: split_def)
qed

lemma increaseAsync_process:
  assumes "3 * length (p_todo (process_of t)) \<le> n"
  shows "run_process this n (process_of t) =
    bind (increaseAsync this t) (\<lambda>_. ret \<lparr>p_pc = TryIncrement, p_todo = [], p_hits = t_hitsAddend t\<rparr>)"
  using run_process_todo [OF assms, of this "t_hitsAddend t"]
  by (simp add: increaseAsync_todo) (simp add: process_of_def)

section \<open>Calls on the table of counters\<close>

definition process_ok :: "process \<Rightarrow> bool" where
  "process_ok p \<longleftrightarrow> (\<forall>(key, lim) \<in> set (p_todo p). lim \<noteq> None \<and> limit_ok lim)"

definition calls_left :: "process \<Rightarrow> nat" where
  "calls_left p = 3 * length (p_todo p) -
     (case p_pc p of TryIncrement \<Rightarrow> 0 | TryAdd \<Rightarrow> 1 | TryIncrementAgain \<Rightarrow> 2)"

lemma next_key_simps [simp]:
  "p_todo (next_key p) = tl (p_todo p)" "p_pc (next_key p) = TryIncrement" "p_hits (next_key p) = p_hits p"
  by (simp_all add: next_key_def)

text \<open>Whatever the client answers, a call brings the process closer to its end.\<close>

lemma call_step_decreases:
  assumes "call_step this p s = (Inr p', t)" and "p_todo p \<noteq> []"
  shows "calls_left p' < calls_left p" and "process_ok p \<Longrightarrow> process_ok p'"
proof -
  obtain key lim rest where ps: "p_todo p = (key, lim) # rest" using assms(2) by (cases "p_todo p") auto
  with assms(1) show "calls_left p' < calls_left p" "process_ok p \<Longrightarrow> process_ok p'"
    by (cases "p_pc p"; auto simp: call_step_def calls_left_def process_ok_def bind_Inr_iff prim_simps split: if_splits)+
qed

text \<open>The expiration of a key: the unit and the jitter.\<close>

lemma expiration_runs:
  fixes s :: "'x world_scheme"
  assumes "limit_ok (Some l)"
  obtains d e n where "UnitToDivider (lim_Unit (Limit l)) = Inr d" and "0 < e" and "e \<le> d + max 0 jitter" and "d \<le> 24 * 60 * 60"
    and "(if jitter > 0 then bind (Int63n jitter) (\<lambda>j. ret (d + j)) else ret d) s = (Inr e, s\<lparr>draws := n\<rparr>)"
proof -
  obtain d where d: "UnitToDivider (lim_Unit (Limit l)) = Inr d" "0 < d" by (rule limit_ok_Some [OF assms])
  then have "d \<le> 24 * 60 * 60" by (cases "lim_Unit (Limit l)") auto
  note d = d this
  show thesis
  proof (cases "0 < jitter")
    case True
    then have "0 \<le> rand_at s (draws s) mod jitter" "rand_at s (draws s) mod jitter < jitter" by simp_all
    with d True show thesis
      by (intro that [of d "d + rand_at s (draws s) mod jitter" "Suc (draws s)"]) (auto simp: Int63n_def monad_simps)
  next
    case False
    with d show thesis by (intro that [of d d "draws s"]) (auto simp: monad_simps)
  qed
qed

lemma call_step_returns:
  fixes this :: "'x world_scheme rateLimitMemcacheImpl"
  assumes c: "client_total (mi_client this)" and p: "process_ok p"
  shows "\<exists>p' t. call_step this p s = (Inr p', t)"
proof (cases "p_todo p")
  case Nil
  then show ?thesis by (simp add: call_step_def prim_simps)
next
  case (Cons item rest)
  then obtain key l where ps: "p_todo p = (key, Some l) # rest" "limit_ok (Some l)"
    using p by (cases item) (auto simp: process_ok_def)
  have inc: "\<exists>x err t. Increment (mi_client this) k d s = (Inr (x, err), t)" for k d s
    using c unfolding client_total_def by (metis surj_pair)
  show ?thesis
  proof (cases "p_pc p")
    case TryAdd
    obtain d e n where e: "UnitToDivider (lim_Unit (Limit l)) = Inr d"
      "(if mi_expirationJitterMaxSeconds this > 0 then bind (Int63n (mi_expirationJitterMaxSeconds this)) (\<lambda>j. ret (d + j)) else ret d) s =
        (Inr e, s\<lparr>draws := n\<rparr>)"
      by (rule expiration_runs [OF ps(2), of "mi_expirationJitterMaxSeconds this" s])
    obtain err t where "Add (mi_client this) \<lparr>it_Key = key, it_Value = FormatUint (p_hits p), it_Expiration = to_int32 e\<rparr> (s\<lparr>draws := n\<rparr>) = (Inr err, t)"
      using c unfolding client_total_def by blast
    with TryAdd ps e show ?thesis by (simp add: call_step_def bind_Inr prim_simps nonnil_apply)
  qed (use inc [of key "p_hits p" s] ps in \<open>auto simp: call_step_def monad_simps\<close>)
qed

text \<open>What a call does to the counters, and what the process does next.\<close>

fun counter_call :: "process \<Rightarrow> (string \<Rightarrow> u64 option) \<Rightarrow> process \<times> (string \<Rightarrow> u64 option)" where
  "counter_call p v =
     (case p_todo p of
        [] \<Rightarrow> (p, v)
      | (key, _) # _ \<Rightarrow>
          if \<not> legal_key key then (next_key p, v)
          else
          (case (p_pc p, v key) of
             (TryIncrement, None) \<Rightarrow> (p\<lparr>p_pc := TryAdd\<rparr>, v)
           | (TryIncrement, Some n) \<Rightarrow> (next_key p, v(key \<mapsto> n + p_hits p))
           | (TryAdd, None) \<Rightarrow> (next_key p, v(key \<mapsto> p_hits p))
           | (TryAdd, Some n) \<Rightarrow> (p\<lparr>p_pc := TryIncrementAgain\<rparr>, v)
           | (TryIncrementAgain, None) \<Rightarrow> (next_key p, v)
           | (TryIncrementAgain, Some n) \<Rightarrow> (next_key p, v(key \<mapsto> n + p_hits p))))"

declare counter_call.simps [simp del]

text \<open>A process adds only a key the server can have, and increments again only a key that exists.\<close>

definition process_inv :: "(string \<Rightarrow> u64 option) \<Rightarrow> process \<Rightarrow> bool" where
  "process_inv v p \<longleftrightarrow> process_ok p \<and> (p_todo p = [] \<longrightarrow> p_pc p = TryIncrement) \<and>
     (p_pc p \<noteq> TryIncrement \<longrightarrow> legal_key (fst (hd (p_todo p)))) \<and>
     (p_pc p = TryIncrementAgain \<longrightarrow> v (fst (hd (p_todo p))) \<noteq> None)"

text \<open>The jitter keeps an expiration within 30 days.\<close>

definition jitter_ok :: "int \<Rightarrow> bool" where
  "jitter_ok jitter \<longleftrightarrow> jitter \<le> 29 * 24 * 60 * 60"

lemma to_int32_small: "0 \<le> e \<Longrightarrow> e < 2 ^ 31 \<Longrightarrow> to_int32 e = e"
  by (simp add: to_int32_def sint_sbintrunc' signed_take_bit_int_eq_self)

text \<open>The calls of the code refine these: a call that can be made returns, with this effect.\<close>

lemma call_step_counters:
  fixes s :: "('lc, 'm, 'x) mc_state_scheme"
  assumes c: "client_ok (mi_client this) val" and j: "jitter_ok (mi_expirationJitterMaxSeconds this)"
    and p: "process_inv (val (memcached s)) p" and todo: "p_todo p \<noteq> []"
  obtains p' t where "call_step this p s = (Inr p', t)"
    and "counter_call p (val (memcached s)) = (p', val (memcached t))"
proof -
  obtain key lim rest where ps: "p_todo p = (key, lim) # rest" using todo by (cases "p_todo p") auto
  obtain l where l: "lim = Some l" "limit_ok (Some l)" using p ps by (auto simp: process_inv_def process_ok_def)
  let ?v = "val (memcached s)"
  show thesis
  proof (cases "p_pc p = TryAdd")
    case False
    obtain x err t where "Increment (mi_client this) key (p_hits p) s = (Inr (x, err), t)"
      "increments ?v key (p_hits p) err (val (memcached t))" by (rule client_Increment [OF c])
    with False ps show thesis
      by (cases "p_pc p"; cases "?v key")
        (auto simp: call_step_def counter_call.simps increments_def monad_simps fun_upd_idem split: if_splits intro!: that)
  next
    case True
    then have legal: "legal_key key" using p ps by (simp add: process_inv_def)
    let ?jitter = "mi_expirationJitterMaxSeconds this"
    obtain d e n where e: "UnitToDivider (lim_Unit (Limit l)) = Inr d" "0 < e" "e \<le> d + max 0 ?jitter" "d \<le> 24 * 60 * 60"
      "(if ?jitter > 0 then bind (Int63n ?jitter) (\<lambda>j. ret (d + j)) else ret d) s = (Inr e, s\<lparr>draws := n\<rparr>)"
      by (rule expiration_runs [OF l(2), of ?jitter s])
    have exp: "to_int32 e = e" "legal_expiration e" using e(2-4) j by (simp_all add: to_int32_small legal_expiration_def jitter_ok_def)
    obtain err t where "Add (mi_client this) \<lparr>it_Key = key, it_Value = FormatUint (p_hits p), it_Expiration = e\<rparr> (s\<lparr>draws := n\<rparr>) = (Inr err, t)"
      "adds (val (memcached (s\<lparr>draws := n\<rparr>))) key (p_hits p) err (val (memcached t))"
      by (rule client_Add [OF c legal exp(2)])
    with True ps l e(1,5) exp(1) legal show thesis
      by (cases "?v key")
        (auto simp: call_step_def counter_call.simps adds_def bind_Inr prim_simps nonnil_apply fun_upd_idem intro!: that)
  qed
qed

section \<open>Interleaving\<close>

text \<open>
  Any number of background tasks, of this and of earlier requests: a step is one call of one of
  them. Calls of different tasks may come in any order.
\<close>

inductive async_step ::
  "('lc, 'm, 'x) mc_state_scheme rateLimitMemcacheImpl \<Rightarrow> ('lc, 'm, 'x) mc_state_scheme \<times> process list
    \<Rightarrow> ('lc, 'm, 'x) mc_state_scheme \<times> process list \<Rightarrow> bool" for this where
  call: "i < length ps \<Longrightarrow> p_todo (ps ! i) \<noteq> [] \<Longrightarrow> call_step this (ps ! i) s = (Inr p, t)
    \<Longrightarrow> async_step this (s, ps) (t, ps[i := p])"

inductive_cases async_stepE: "async_step this (s, ps) c"

text \<open>What a process still owes to the counter of a key.\<close>

definition owed :: "string \<Rightarrow> process \<Rightarrow> u64" where
  "owed k p = sum_list (map (\<lambda>x. if fst x = k then p_hits p else 0) (p_todo p))"

definition counter :: "(string \<Rightarrow> u64 option) \<Rightarrow> string \<Rightarrow> u64" where
  "counter v k = (case v k of None \<Rightarrow> 0 | Some n \<Rightarrow> n)"

lemmas counter_call_defs = counter_call.simps counter_def owed_def process_inv_def process_ok_def calls_left_def

lemma counter_call_conserves:
  assumes "counter_call p v = (p', w)" and "process_inv v p"
  shows "legal_key k \<Longrightarrow> counter w k + owed k p' = counter v k + owed k p"
    and "\<not> legal_key k \<Longrightarrow> w k = v k"
  using assms
  by (cases "p_todo p"; cases "p_pc p"; cases "v (fst (hd (p_todo p)))";
      auto simp: counter_call_defs split: prod.splits option.splits if_splits cong: if_cong)+

lemma counter_call_inv:
  assumes "counter_call p v = (p', w)" and "process_inv v p"
  shows "process_inv w p'" and "v k \<noteq> None \<Longrightarrow> w k \<noteq> None"
  using assms
  by (cases "p_todo p"; cases "p_pc p"; cases "v (fst (hd (p_todo p)))";
      auto simp: counter_call_defs split: prod.splits if_splits)+

text \<open>The step relation: what holds of a call holds of the configuration.\<close>

definition async_inv ::
  "('m \<Rightarrow> string \<Rightarrow> u64 option) \<Rightarrow> ('lc, 'm, 'x) mc_state_scheme \<times> process list \<Rightarrow> bool" where
  "async_inv val = (\<lambda>(s, ps). list_all (process_inv (val (memcached s))) ps)"

definition accounted ::
  "('m \<Rightarrow> string \<Rightarrow> u64 option) \<Rightarrow> string \<Rightarrow> ('lc, 'm, 'x) mc_state_scheme \<times> process list \<Rightarrow> u64" where
  "accounted val k = (\<lambda>(s, ps). counter (val (memcached s)) k + sum_list (map (owed k) ps))"

definition config_calls :: "'s \<times> process list \<Rightarrow> nat" where
  "config_calls = (\<lambda>(s, ps). sum_list (map calls_left ps))"

lemma sum_list_map_update:
  fixes f :: "'a \<Rightarrow> 'b :: comm_monoid_add"
  assumes "i < length xs"
  shows "sum_list (map f (xs[i := y])) + f (xs ! i) = sum_list (map f xs) + f y"
  using assms
proof (induction xs arbitrary: i)
  case (Cons x xs)
  then show ?case by (cases i) (simp_all add: ac_simps)
qed simp

text \<open>Whatever the client answers: a step is a call fewer, and what it makes of the tasks can go on.\<close>

lemma async_step_decreases:
  assumes "async_step this (s, ps) (t, qs)"
  shows "config_calls (t, qs) < config_calls (s, ps)" and "list_all process_ok ps \<Longrightarrow> list_all process_ok qs"
proof -
  obtain i p where i: "i < length ps" "p_todo (ps ! i) \<noteq> []" and qs: "qs = ps[i := p]"
    and call: "call_step this (ps ! i) s = (Inr p, t)"
    using assms by (rule async_stepE) blast
  note dec = call_step_decreases [OF call i(2)]
  show "config_calls (t, qs) < config_calls (s, ps)"
    using sum_list_map_update [OF i(1), of calls_left p] dec(1) by (simp add: config_calls_def qs)
  show "list_all process_ok qs" if "list_all process_ok ps"
    using that dec(2) i(1) by (auto simp: qs list_all_length nth_list_update)
qed

lemma async_step_counters:
  assumes c: "client_ok (mi_client this) val" and j: "jitter_ok (mi_expirationJitterMaxSeconds this)"
    and "async_inv val (s, ps)" and "async_step this (s, ps) (t, qs)"
  obtains i p where "i < length ps" and "qs = ps[i := p]"
    and "counter_call (ps ! i) (val (memcached s)) = (p, val (memcached t))"
    and "process_inv (val (memcached s)) (ps ! i)"
  using assms(4)
proof (rule async_stepE)
  fix i p u
  assume i: "i < length ps" "p_todo (ps ! i) \<noteq> []" "call_step this (ps ! i) s = (Inr p, u)"
    and eq: "(t, qs) = (u, ps[i := p])"
  have inv: "process_inv (val (memcached s)) (ps ! i)"
    using assms(3) i(1) by (simp add: async_inv_def list_all_length)
  obtain p' t' where "call_step this (ps ! i) s = (Inr p', t')"
    and "counter_call (ps ! i) (val (memcached s)) = (p', val (memcached t'))"
    by (rule call_step_counters [OF c j inv i(2)])
  with i eq inv show thesis by (intro that [of i p]) auto
qed

text \<open>
  A step keeps the invariant and what is accounted for each key the server can have; the counters of
  other keys never change.
\<close>

lemma async_step_keeps:
  assumes c: "client_ok (mi_client this) val" and j: "jitter_ok (mi_expirationJitterMaxSeconds this)"
    and inv: "async_inv val (s, ps)" and st: "async_step this (s, ps) (t, qs)"
  shows "async_inv val (t, qs)" and "legal_key k \<Longrightarrow> accounted val k (t, qs) = accounted val k (s, ps)"
    and "\<not> legal_key k \<Longrightarrow> val (memcached t) k = val (memcached s) k"
proof -
  obtain i p where i: "i < length ps" and qs: "qs = ps[i := p]"
    and cc: "counter_call (ps ! i) (val (memcached s)) = (p, val (memcached t))"
    and pi: "process_inv (val (memcached s)) (ps ! i)"
    by (rule async_step_counters [OF assms])
  have "process_inv (val (memcached t)) q" if "q \<in> set ps" for q
    using that inv counter_call_inv(2) [OF cc pi]
    by (auto simp: async_inv_def list_all_iff process_inv_def)
  then show "async_inv val (t, qs)"
    using counter_call_inv(1) [OF cc pi] qs
    by (auto simp: async_inv_def list_all_iff dest: set_update_subset_insert [THEN subsetD])
  show "accounted val k (t, qs) = accounted val k (s, ps)" if "legal_key k"
  proof -
    have "accounted val k (t, qs) + owed k (ps ! i) =
        counter (val (memcached t)) k + (sum_list (map (owed k) ps) + owed k p)"
      using sum_list_map_update [OF i, of "owed k" p] by (simp add: accounted_def qs ac_simps)
    also have "\<dots> = accounted val k (s, ps) + owed k (ps ! i)"
      using counter_call_conserves(1) [OF cc pi that] by (simp add: accounted_def ac_simps)
    finally show ?thesis by simp
  qed
  show "val (memcached t) k = val (memcached s) k" if "\<not> legal_key k"
    by (rule counter_call_conserves(2) [OF cc pi that])
qed

section \<open>Decisions\<close>

text \<open>What deciding keeps: the counters, the pending tasks, and the absence of a local cache.\<close>

definition decided :: "('lc, 'm, 'x) mc_state_scheme \<Rightarrow> ('lc, 'm, 'x) mc_state_scheme \<Rightarrow> bool" where
  "decided s t \<longleftrightarrow> memcached t = memcached s \<and> pending t = pending s \<and> (localCache s = None \<longrightarrow> localCache t = None)"

lemma decided_refl [simp]: "decided s s"
  by (simp add: decided_def)

lemma decided_trans: "decided s t \<Longrightarrow> decided t u \<Longrightarrow> decided s u"
  by (simp add: decided_def)

text \<open>The keys \<open>GetMulti\<close> is asked for: those of the limits, less those the local cache knows.\<close>

definition asked_keys :: "(nat \<times> CacheKey \<times> RateLimit option) list \<Rightarrow> bool list \<Rightarrow> string list" where
  "asked_keys items fs = map (\<lambda>(i, key, lim). ck_Key key) (filter (\<lambda>(i, key, lim). ck_Key key \<noteq> '''' \<and> \<not> fs ! i) items)"

definition known_over ::
  "('lc \<Rightarrow> string set) \<Rightarrow> 'lc option \<Rightarrow> (nat \<times> CacheKey \<times> RateLimit option) list \<Rightarrow> bool list \<Rightarrow> bool" where
  "known_over contents lc items fs \<longleftrightarrow>
     (\<forall>(i, key, lim) \<in> set items. fs ! i \<longrightarrow> ck_Key key \<noteq> '''' \<and> ck_Key key \<in> cached contents lc)"

definition keys_checked ::
  "('lc \<Rightarrow> string set) \<Rightarrow> (nat \<times> CacheKey \<times> RateLimit option) list \<Rightarrow> bool list \<Rightarrow> string list \<Rightarrow> ('lc, 'm, 'x) mc_state_scheme
    \<Rightarrow> bool list \<times> string list \<Rightarrow> ('lc, 'm, 'x) mc_state_scheme \<Rightarrow> bool" where
  "keys_checked contents items fs ks s x t \<longleftrightarrow> decided s t \<and> length (fst x) = length fs \<and>
     (\<forall>j. j \<notin> fst ` set items \<longrightarrow> fst x ! j = fs ! j) \<and> snd x = ks @ asked_keys items (fst x) \<and>
     known_over contents (localCache s) items (fst x) \<and> cached contents (localCache t) \<subseteq> cached contents (localCache s)"

lemma check_keys_one:
  assumes lc: "cache_sound pf contents" and "i < length fs" and "\<not> fs ! i"
  shows "runs E (check_keys pf (i, key, lim) (fs, ks)) s (keys_checked contents [(i, key, lim)] fs ks s)"
proof (cases "ck_Key key = ''''")
  case True
  with assms(2,3) show ?thesis by (simp add: check_keys_def runs_ret keys_checked_def asked_keys_def known_over_def)
next
  case False
  obtain b lc where "IsOverLimitWithLocalCache pf (ck_Key key) s = (Inr b, s\<lparr>localCache := lc\<rparr>)"
    "b \<longrightarrow> ck_Key key \<in> cached contents (localCache s)" "cached contents lc \<subseteq> cached contents (localCache s)"
    "localCache s = None \<longrightarrow> lc = None"
    using IsOverLimitWithLocalCache_sound [OF lc, of "ck_Key key" s]
    by (cases "localCache s") (auto simp: IsOverLimitWithLocalCache_def)
  with False assms(2,3) show ?thesis
    by (simp add: check_keys_def runs_def monad_simps decided_def keys_checked_def asked_keys_def known_over_def)
qed

lemma check_keys_loop:
  assumes lc: "cache_sound pf contents" and "distinct (map fst items)"
    and "\<forall>(i, key, lim) \<in> set items. i < length fs \<and> \<not> fs ! i"
  shows "runs E (foldM (check_keys pf) items (fs, ks)) s (keys_checked contents items fs ks s)"
  using assms(2,3)
proof (induction items arbitrary: fs ks s)
  case Nil
  then show ?case by (simp add: runs_ret keys_checked_def asked_keys_def known_over_def)
next
  case (Cons item items)
  obtain i key lim where item: "item = (i, key, lim)" by (cases item)
  have i: "i < length fs" "\<not> fs ! i" "i \<notin> fst ` set items" using Cons.prems item by auto
  show ?case
    unfolding foldM.simps item
  proof (rule runs_bind [OF check_keys_one [OF lc i(1,2)]])
    fix x t
    assume x: "keys_checked contents [(i, key, lim)] fs ks s x t"
    have items: "\<forall>(j, key, lim) \<in> set items. j < length (fst x) \<and> \<not> fst x ! j"
      using Cons.prems(2) x i(3) by (fastforce simp: keys_checked_def)
    have "runs E (foldM (check_keys pf) items (fst x, snd x)) t (keys_checked contents ((i, key, lim) # items) fs ks s)"
    proof (rule runs_conseq [OF Cons.IH [OF _ items]])
      fix y u
      assume y: "keys_checked contents items (fst x) (snd x) t y u"
      then have yi: "fst y ! i = fst x ! i" using i(3) by (simp add: keys_checked_def)
      have "asked_keys ((i, key, lim) # items) (fst y) = asked_keys [(i, key, lim)] (fst x) @ asked_keys items (fst y)"
        using yi by (simp add: asked_keys_def)
      moreover have "known_over contents (localCache s) ((i, key, lim) # items) (fst y)"
        using x y yi by (fastforce simp: keys_checked_def known_over_def)
      ultimately show "keys_checked contents ((i, key, lim) # items) fs ks s y u"
        using x y decided_trans by (auto simp: keys_checked_def)
    qed (use Cons.prems(1) in simp_all)
    then show "runs E (foldM (check_keys pf) items x) t (keys_checked contents ((i, key, lim) # items) fs ks s)" by simp
  qed
qed

text \<open>The count a decision is based on: counters above the \<open>int32\<close> range are not read.\<close>

definition stored_count :: "(string \<Rightarrow> u64 option) \<Rightarrow> string \<Rightarrow> u32" where
  "stored_count v k = (if unat (counter v k) < 2 ^ 31 then ucast (counter v k) else 0)"

lemma count_before_stored:
  assumes "map_of vs k = map_option FormatUint (v k)"
  shows "count_before vs k = stored_count v k"
proof (cases "v k")
  case None
  with assms show ?thesis by (simp add: count_before_def stored_count_def counter_def)
next
  case (Some n)
  have "uint n < 2147483648 \<longleftrightarrow> unat n < 2147483648"
    using of_nat_less_iff [of "unat n" 2147483648, where 'a = int] by simp
  then have "ParseInt (FormatUint n) 32 = (if unat n < 2 ^ 31 then Some (int (unat n)) else None)"
    by (simp add: FormatUint_def ParseInt_FormatNat)
  with assms Some show ?thesis
    by (simp add: count_before_def stored_count_def counter_def)
qed

text \<open>The status of a descriptor, from the counters read.\<close>

definition memcached_answer ::
  "(string \<Rightarrow> u64 option) \<Rightarrow> bool list \<Rightarrow> u32 \<Rightarrow> nat \<times> CacheKey \<times> RateLimit option \<Rightarrow> DescriptorStatus \<Rightarrow> bool" where
  "memcached_answer v fs hits = (\<lambda>(i, key, lim) st.
     case lim of
       None \<Rightarrow> st = no_limit_status
     | Some l \<Rightarrow> (\<exists>reset. st = answer (fs ! i) l (stored_count v (ck_Key key) + hits) reset))"

lemma memcached_status_answers:
  assumes ok: "limit_ok lim" "ck_Key key = '''' \<longleftrightarrow> lim = None"
    and vs: "\<not> fs ! i \<longrightarrow> lim \<noteq> None \<longrightarrow> map_of vs (ck_Key key) = map_option FormatUint (v (ck_Key key))"
  shows "runs E (memcached_status pf base hits vs fs (i, key, lim)) s
    (\<lambda>st t. memcached_answer v fs hits (i, key, lim) st \<and> decided s t)"
proof (cases lim)
  case None
  with ok show ?thesis
    by (simp add: memcached_status_def Let_def GetResponseDescriptorStatus_no_limit runs_def
        memcached_answer_def no_limit_status_def)
next
  case (Some l)
  with ok have k: "ck_Key key \<noteq> ''''" by simp
  obtain d where d: "UnitToDivider (lim_Unit (Limit l)) = Inr d" using ok(1) Some by (auto elim: limit_ok_Some)
  let ?c = "count_before vs (ck_Key key)"
  let ?info = "NewRateLimitInfo lim ?c (?c + hits) 0 0"
  have info: "li_limit ?info = Some l" "limitAfterIncrease ?info = ?c + hits"
    by (simp_all add: NewRateLimitInfo_def Some)
  show ?thesis
  proof (cases "fs ! i")
    case True
    then show ?thesis
      by (simp add: memcached_status_def Let_def runs_def decided_def memcached_answer_def Some
          GetResponseDescriptorStatus_cached [OF k d info(1) [unfolded Some], where after = "stored_count v (ck_Key key) + hits"])
        blast
  next
    case False
    then have "?c = stored_count v (ck_Key key)" using vs Some by (simp add: count_before_stored)
    then show ?thesis
      using False info(2) [unfolded Some]
        GetResponseDescriptorStatus_count [OF k d info(1) [unfolded Some], of pf base hits s]
      by (simp add: memcached_status_def Let_def runs_def decided_def memcached_answer_def Some note_over_def)
        blast
  qed
qed

lemma runs_total: "runs (\<lambda>_. False) m s Q \<Longrightarrow> \<exists>x t. m s = (Inr x, t) \<and> Q x t"
  by (cases "m s") (auto simp: runs_def split: sum.splits)

text \<open>The counters are the same, the pending tasks too.\<close>

definition same_counts ::
  "('m \<Rightarrow> string \<Rightarrow> u64 option) \<Rightarrow> ('lc, 'm, 'x) mc_state_scheme \<Rightarrow> ('lc, 'm, 'x) mc_state_scheme \<Rightarrow> bool" where
  "same_counts val s t \<longleftrightarrow> val (memcached t) = val (memcached s) \<and> pending t = pending s"

lemma decided_same_counts: "decided s t \<Longrightarrow> same_counts val s t"
  by (simp add: decided_def same_counts_def)

text \<open>
  The counters a request reads. One key the server cannot have makes \<open>GetMulti\<close> fail, the error is only
  logged, and all counters are taken to be zero.
\<close>

definition counters_read :: "(string \<Rightarrow> u64 option) \<Rightarrow> string list \<Rightarrow> string \<Rightarrow> u64 option" where
  "counters_read v ks = (if list_all legal_key ks then v else (\<lambda>_. None))"

lemma GetMulti_runs:
  assumes "client_ok c val" and "same_counts val s t"
  shows "runs E (if length ks > 0 then bind (GetMulti c ks) (\<lambda>(vs, err). ret vs) else ret []) t
    (\<lambda>vs u. (\<forall>k \<in> set ks. map_of vs k = map_option FormatUint (counters_read (val (memcached s)) ks k)) \<and> same_counts val s u)"
proof (cases "ks = []")
  case True
  with assms show ?thesis by (simp add: runs_ret)
next
  case False
  obtain r u where "GetMulti c ks t = (Inr r, u)" and "same_rest t u" and "gets (val (memcached t)) ks r (val (memcached u))"
    by (rule client_GetMulti [OF assms(1)])
  with False assms(2) show ?thesis
    by (cases r) (auto simp: runs_def monad_simps same_counts_def same_rest_def gets_def counters_read_def)
qed

lemma memcached_statuses_answer:
  assumes ok: "\<forall>(i, key, lim) \<in> set items. limit_ok lim \<and> (ck_Key key = '''' \<longleftrightarrow> lim = None)"
    and vs: "\<forall>(i, key, lim) \<in> set items. ck_Key key \<noteq> '''' \<longrightarrow> \<not> fs ! i \<longrightarrow>
      map_of vs (ck_Key key) = map_option FormatUint (v (ck_Key key))"
    and s: "same_counts val s t"
  shows "runs E (mapM (memcached_status pf base hits vs fs) items) t
    (\<lambda>sts u. list_all2 (memcached_answer v fs hits) items sts \<and> same_counts val s u)"
proof (rule runs_mapM)
  fix item u
  assume item: "item \<in> set items" and u: "same_counts val s u"
  obtain i key lim where eq: "item = (i, key, lim)" by (cases item)
  have "limit_ok lim" "ck_Key key = '''' \<longleftrightarrow> lim = None"
    and "\<not> fs ! i \<longrightarrow> lim \<noteq> None \<longrightarrow> map_of vs (ck_Key key) = map_option FormatUint (v (ck_Key key))"
    using ok vs item eq by auto
  from memcached_status_answers [where v = v and vs = vs and fs = fs, OF this, of E pf base hits u]
  show "runs E (memcached_status pf base hits vs fs item) u
      (\<lambda>st w. memcached_answer v fs hits item st \<and> same_counts val s w)"
    unfolding eq by (rule runs_conseq) (use u in \<open>auto simp: decided_def same_counts_def\<close>)
qed (rule s)

definition request_task :: "(nat \<times> CacheKey \<times> RateLimit option) list \<Rightarrow> bool list \<Rightarrow> u32 \<Rightarrow> task" where
  "request_task items fs hits =
     \<lparr>t_cacheKeys = map (fst \<circ> snd) items, t_isOverLimitWithLocalCache = fs,
      t_limits = map (snd \<circ> snd) items, t_hitsAddend = ucast hits\<rparr>"

lemma DoLimit_memcached_answers:
  fixes s :: "('lc, 'm, 'x) mc_state_scheme"
  assumes c: "client_ok (mi_client this) val"
    and len: "length (Descriptors rq) = length lims" and ok: "list_all limit_ok lims"
    and items: "items = memcached_items (mi_baseRateLimiter this) rq lims (now_at s (reads s))"
    and hits: "hits = Max_u32 1 (HitsAddend rq)" and lc: "cache_sound pf contents"
  shows "runs E (DoLimit_memcached pf this False rq lims) s (\<lambda>sts t. \<exists>fs.
    list_all2 (memcached_answer (counters_read (val (memcached s)) (asked_keys items fs)) fs hits) items sts \<and>
    val (memcached t) = val (memcached s) \<and> pending t = pending s @ [request_task items fs hits] \<and>
    length fs = length lims \<and> known_over contents (localCache s) items fs)"
proof -
  let ?base = "mi_baseRateLimiter this"
  let ?keys = "map (cache_key ?base (Domain rq) (now_at s (reads s))) (zip (Descriptors rq) lims)"
  note wf = memcached_items_ok [OF ok len, of ?base "now_at s (reads s)", folded items]
  have keys: "map (fst \<circ> snd) items = ?keys"
    using len by (auto simp: items memcached_items_def intro!: nth_equalityI)
  have gen: "runs E (GenerateCacheKeys ?base rq lims hits) s (\<lambda>keys t. keys = ?keys \<and> decided s t \<and> localCache t = localCache s)"
    by (rule runs_eq [OF GenerateCacheKeys_apply [OF ok len]]) (simp add: decided_def)
  have loop: "runs E (foldM (check_keys pf) items (replicate (length lims) False, [])) t
      (\<lambda>x u. decided s u \<and> length (fst x) = length lims \<and> known_over contents (localCache s) items (fst x) \<and>
        snd x = asked_keys items (fst x))"
    if t: "decided s t" "localCache t = localCache s" for t
    by (rule runs_conseq [OF check_keys_loop [OF lc]])
      (use wf(1,2) t in \<open>auto simp: keys_checked_def intro: decided_trans\<close>)
  have ok': "\<forall>(i, key, lim) \<in> set items. limit_ok lim \<and> (ck_Key key = '''' \<longleftrightarrow> lim = None)" using wf(1) by auto
  let ?Q = "\<lambda>sts t. \<exists>fs.
    list_all2 (memcached_answer (counters_read (val (memcached s)) (asked_keys items fs)) fs hits) items sts \<and>
    val (memcached t) = val (memcached s) \<and> pending t = pending s @ [request_task items fs hits] \<and>
    length fs = length lims \<and> known_over contents (localCache s) items fs"
  have tail: "runs E (bind (if length ks > 0 then bind (GetMulti (mi_client this) ks) (\<lambda>(vs, err). ret vs) else ret [])
      (\<lambda>vs. bind (mapM (memcached_status pf ?base hits vs fs) items) (\<lambda>sts.
      bind (modify (\<lambda>s. s\<lparr>pending := pending s @ [\<lparr>t_cacheKeys = ?keys, t_isOverLimitWithLocalCache = fs,
        t_limits = lims, t_hitsAddend = ucast hits\<rparr>]\<rparr>)) (\<lambda>_. bind (ret ()) (\<lambda>_. ret sts))))) u ?Q"
    if d: "decided s u" and fs: "length fs = length lims" "known_over contents (localCache s) items fs"
      and ks: "ks = asked_keys items fs" for u fs ks
  proof (rule runs_bind [OF GetMulti_runs [OF c decided_same_counts [OF d]]], elim conjE)
    fix vs t
    assume vs: "\<forall>k \<in> set ks. map_of vs k = map_option FormatUint (counters_read (val (memcached s)) ks k)"
      and t: "same_counts val s t"
    have "\<forall>(i, key, lim) \<in> set items. ck_Key key \<noteq> '''' \<longrightarrow> \<not> fs ! i \<longrightarrow>
      map_of vs (ck_Key key) = map_option FormatUint (counters_read (val (memcached s)) ks (ck_Key key))"
      using vs unfolding ks asked_keys_def by fastforce
    from runs_bind [OF memcached_statuses_answer [OF ok' this t]]
    show "runs E (bind (mapM (memcached_status pf ?base hits vs fs) items) (\<lambda>sts.
      bind (modify (\<lambda>s. s\<lparr>pending := pending s @ [\<lparr>t_cacheKeys = ?keys, t_isOverLimitWithLocalCache = fs,
        t_limits = lims, t_hitsAddend = ucast hits\<rparr>]\<rparr>)) (\<lambda>_. bind (ret ()) (\<lambda>_. ret sts)))) t ?Q"
      by (rule meta_mp)
        (use fs keys wf(3) ks in \<open>auto simp: runs_def monad_simps same_counts_def request_task_def\<close>)
  qed
  show ?thesis
    unfolding DoLimit_memcached_def Let_def if_False hits [symmetric]
  proof (rule runs_bind [OF gen], elim conjE)
    fix keys t assume "keys = ?keys" and t: "decided s t" "localCache t = localCache s"
    then have zip: "zip [0..<length (Descriptors rq)] (zip keys lims) = items"
      by (simp add: items memcached_items_def)
    show "runs E (bind (foldM (check_keys pf) (zip [0..<length (Descriptors rq)] (zip keys lims))
          (replicate (length (Descriptors rq)) False, []))
        (\<lambda>(fs, ks). bind (if length ks > 0 then bind (GetMulti (mi_client this) ks) (\<lambda>(vs, err). ret vs) else ret [])
          (\<lambda>vs. bind (mapM (memcached_status pf ?base hits vs fs) (zip [0..<length (Descriptors rq)] (zip keys lims)))
          (\<lambda>sts. bind (modify (\<lambda>s. s\<lparr>pending := pending s @ [\<lparr>t_cacheKeys = keys, t_isOverLimitWithLocalCache = fs,
            t_limits = lims, t_hitsAddend = ucast hits\<rparr>]\<rparr>)) (\<lambda>_. bind (ret ()) (\<lambda>_. ret sts)))))) t ?Q"
      unfolding zip unfolding len unfolding \<open>keys = ?keys\<close>
      by (rule runs_bind [OF loop [OF t]], rule runs_prod, rule tail) auto
  qed
qed

section \<open>Every schedule\<close>

lemma process_of_inv: "process_ok (process_of t) \<Longrightarrow> process_inv v (process_of t)"
  by (simp add: process_inv_def process_of_def)

lemma async_reachable:
  assumes c: "client_ok (mi_client this) val" and j: "jitter_ok (mi_expirationJitterMaxSeconds this)"
    and run: "(async_step this)\<^sup>*\<^sup>* (s, ps) (t, qs)" and inv: "async_inv val (s, ps)"
  shows "async_inv val (t, qs) \<and> (legal_key k \<longrightarrow> accounted val k (t, qs) = accounted val k (s, ps)) \<and>
    (\<not> legal_key k \<longrightarrow> val (memcached t) k = val (memcached s) k)"
  using run
proof (induction "(t, qs)" arbitrary: t qs rule: rtranclp_induct)
  case base
  then show ?case using inv by simp
next
  case (step u)
  obtain u1 us where u: "u = (u1, us)" by (cases u)
  with step.hyps(3) have IH: "async_inv val (u1, us)"
    "legal_key k \<longrightarrow> accounted val k (u1, us) = accounted val k (s, ps)"
    "\<not> legal_key k \<longrightarrow> val (memcached u1) k = val (memcached s) k" by auto
  note keeps = async_step_keeps [OF c j IH(1) step.hyps(2) [unfolded u]]
  from keeps(1) keeps(2,3) [of k] IH(2,3) show ?case by simp
qed

lemma async_bounded:
  assumes ok: "list_all process_ok ps" and run: "(async_step this ^^ n) (s, ps) (t, qs)"
  shows "n + config_calls (t, qs) \<le> config_calls (s, ps) \<and> list_all process_ok qs"
  using run
proof (induction n arbitrary: t qs)
  case 0
  then show ?case using ok by simp
next
  case (Suc n)
  then obtain u us where u: "(async_step this ^^ n) (s, ps) (u, us)" "async_step this (u, us) (t, qs)" by auto
  with Suc.IH have IH: "n + config_calls (u, us) \<le> config_calls (s, ps)" "list_all process_ok us" by auto
  from async_step_decreases [OF u(2)] IH show ?case by auto
qed

lemma async_progress:
  assumes c: "client_total (mi_client this)" and ok: "list_all process_ok ps"
    and p: "p \<in> set ps" "p_todo p \<noteq> []"
  shows "\<exists>cfg. async_step this (s, ps) cfg"
proof -
  obtain i where i: "i < length ps" "ps ! i = p" using p(1) by (auto simp: in_set_conv_nth)
  have "process_ok p" using ok p(1) by (auto simp: list_all_iff)
  then obtain p' t where "call_step this p s = (Inr p', t)"
    using call_step_returns [OF c] by blast
  with i p(2) have "async_step this (s, ps) (t, ps[i := p'])" by (intro async_step.call) auto
  then show ?thesis by blast
qed

lemma async_inv_start:
  assumes "\<forall>task \<in> set tasks. process_ok (process_of task)"
  shows "async_inv val (s, map process_of tasks)"
  using assms by (auto simp: async_inv_def list_all_iff intro: process_of_inv)

lemma NewRateLimitCacheImpl_client:
  "mc_laws mc val \<Longrightarrow>
   client_ok (mi_client (NewRateLimitCacheImpl (CollectStats (memcache_Client mc) sc) jitter sm ratio pre)) val"
  by (simp add: NewRateLimitCacheImpl_def CollectStats_ok memcache_Client_ok)

lemma NewRateLimitCacheImpl_total:
  "client_total (mi_client (NewRateLimitCacheImpl (CollectStats (memcache_Client mc) sc) jitter sm ratio pre))"
  by (simp add: NewRateLimitCacheImpl_def CollectStats_total memcache_Client_total)

lemma NewRateLimitCacheImpl_jitter [simp]:
  "mi_expirationJitterMaxSeconds (NewRateLimitCacheImpl c jitter sm ratio pre) = jitter"
  by (simp add: NewRateLimitCacheImpl_def)

lemma async_inv_ok: "async_inv val (s, ps) \<Longrightarrow> list_all process_ok ps"
  by (auto simp: async_inv_def list_all_iff process_inv_def)




section \<open>Properties\<close>

text \<open>
  C5. No update is lost. Let background tasks of any number of requests run concurrently, their calls
  to memcached interleaved in any way, on a server that keeps counters, with a jitter that keeps
  expirations within memcached's 30 days. Once none of them can make another call, the counter of
  every key memcached accepts has grown by exactly the hits the tasks had to add to it, modulo
  \<open>2 ^ 64\<close>: the dance of \<open>Increment\<close>, \<open>Add\<close> and \<open>Increment\<close> again tolerates every race to create a
  key. The hits of a key it does not accept (longer than 250 characters, or with a white space or a
  control character) are dropped: its counter never changes.
\<close>

theorem increaseAsync_no_lost_update:
  fixes s :: "('lc, 'm, 'x) mc_state_scheme"
  assumes "mc_laws mc val"
    and "this = NewRateLimitCacheImpl (CollectStats (memcache_Client mc) sc) jitter sm ratio pre"
    and "jitter_ok jitter"
    and "\<forall>task \<in> set tasks. process_ok (process_of task)"
    and "(async_step this)\<^sup>*\<^sup>* (s, map process_of tasks) (t, ps)"
    and "\<nexists>cfg. async_step this (t, ps) cfg"
  shows "counter (val (memcached t)) k = counter (val (memcached s)) k +
    (if legal_key k then sum_list (map (\<lambda>task. owed k (process_of task)) tasks) else 0)"
proof -
  have c: "client_ok (mi_client this) val" "client_total (mi_client this)"
    using assms(1,2) NewRateLimitCacheImpl_client NewRateLimitCacheImpl_total by simp_all
  have j: "jitter_ok (mi_expirationJitterMaxSeconds this)" using assms(2,3) by simp
  have inv: "async_inv val (t, ps)"
    and acc: "legal_key k \<longrightarrow> accounted val k (t, ps) = accounted val k (s, map process_of tasks)"
    and other: "\<not> legal_key k \<longrightarrow> val (memcached t) k = val (memcached s) k"
    using async_reachable [OF c(1) j assms(5) async_inv_start [OF assms(4)]] by auto
  have "\<forall>p \<in> set ps. p_todo p = []" using async_progress [OF c(2) async_inv_ok [OF inv]] assms(6) by blast
  then have "\<forall>p \<in> set ps. owed k p = 0" by (simp add: owed_def)
  then have "sum_list (map (owed k) ps) = 0" by (induction ps) auto
  with acc other show ?thesis by (simp add: accounted_def comp_def counter_def)
qed

text \<open>
  C20. Background tasks end, whatever memcached answers. Under every schedule, tasks make at most
  three calls per key together, and as long as a task has a key left some call can be made and
  returns; nothing is assumed of the server, which may fail any call.
\<close>

theorem increaseAsync_terminates:
  fixes s :: "('lc, 'm, 'x) mc_state_scheme"
  assumes "this = NewRateLimitCacheImpl (CollectStats (memcache_Client mc) sc) jitter sm ratio pre"
    and "\<forall>task \<in> set tasks. process_ok (process_of task)"
    and "(async_step this ^^ n) (s, map process_of tasks) (t, ps)"
  shows "n \<le> 3 * sum_list (map (\<lambda>task. length (p_todo (process_of task))) tasks) \<and>
    ((\<exists>p \<in> set ps. p_todo p \<noteq> []) \<longrightarrow> (\<exists>cfg. async_step this (t, ps) cfg))"
proof -
  have c: "client_total (mi_client this)" using assms(1) NewRateLimitCacheImpl_total by simp
  have ok: "list_all process_ok (map process_of tasks)" using assms(2) by (simp add: list_all_iff)
  have "config_calls (s, map process_of tasks) = 3 * sum_list (map (\<lambda>task. length (p_todo (process_of task))) tasks)"
    by (induction tasks) (auto simp: config_calls_def calls_left_def process_of_def)
  with async_bounded [OF ok assms(3)] async_progress [OF c]
  show ?thesis by fastforce
qed

definition race_task :: "u64 \<Rightarrow> task" where
  "race_task h = \<lparr>t_cacheKeys = [\<lparr>ck_Key = ''k'', PerSecond = False\<rparr>], t_isOverLimitWithLocalCache = [False],
     t_limits = [Some sample_limit], t_hitsAddend = h\<rparr>"

definition sample_memcache ::
  "(string list, string \<Rightarrow> u64 option) mc_state rateLimitMemcacheImpl" where
  "sample_memcache = NewRateLimitCacheImpl (CollectStats (memcache_Client table_server) (ScopeWithTags ''m'' []))
     0 (NewStatManager []) (F32 13421773 (-24)) ''''"

definition sample_mc_state :: "(string \<Rightarrow> u64 option) \<Rightarrow> (string list, string \<Rightarrow> u64 option) mc_state" where
  "sample_mc_state v = \<lparr>now_at = (\<lambda>_. 1234), reads = 0, rand_at = (\<lambda>_. 0), draws = 0, stats = [],
     localCache = None, memcached = v, pending = []\<rparr>"

lemma process_of_race:
  "process_of (race_task h) = \<lparr>p_pc = TryIncrement, p_todo = [(''k'', Some sample_limit)], p_hits = h\<rparr>"
  by (simp add: process_of_def race_task_def)

lemma race_ok: "\<forall>task \<in> set [race_task 3, race_task 4]. process_ok (process_of task)"
  by (simp add: process_of_race process_ok_def limit_ok_def sample_limit_def NewRateLimit_def)

text \<open>Every configuration has a schedule that runs it to its end.\<close>

lemma async_finishes:
  "\<exists>t qs. (async_step this)\<^sup>*\<^sup>* cfg (t, qs) \<and> (\<nexists>cfg'. async_step this (t, qs) cfg')"
proof (induction cfg rule: measure_induct_rule [of config_calls])
  case (less cfg)
  show ?case
  proof (cases "\<exists>cfg'. async_step this cfg cfg'")
    case True
    then obtain t qs where st: "async_step this cfg (t, qs)" by auto
    then have "config_calls (t, qs) < config_calls cfg" using async_step_decreases(1) by (cases cfg) blast
    from less.IH [OF this] obtain u us
      where "(async_step this)\<^sup>*\<^sup>* (t, qs) (u, us)" "\<nexists>cfg'. async_step this (u, us) cfg'" by auto
    with st show ?thesis by (blast intro: converse_rtranclp_into_rtranclp)
  next
    case False
    then show ?thesis by (cases cfg) blast
  qed
qed

text \<open>Two tasks that race to create a key.\<close>

lemma legal_k: "legal_key ''k''"
  by (simp add: legal_key_def)

theorem increaseAsync_no_lost_update_witness:
  "\<exists>t ps. (async_step sample_memcache)\<^sup>*\<^sup>*
      (sample_mc_state (\<lambda>_. None), map process_of [race_task 3, race_task 4]) (t, ps) \<and>
    counter (id (memcached t)) ''k'' = 7"
proof -
  let ?s = "sample_mc_state (\<lambda>_. None)"
  obtain t ps where run: "(async_step sample_memcache)\<^sup>*\<^sup>* (?s, map process_of [race_task 3, race_task 4]) (t, ps)"
    and stuck: "\<nexists>cfg. async_step sample_memcache (t, ps) cfg"
    using async_finishes [of sample_memcache "(?s, map process_of [race_task 3, race_task 4])"] by blast
  have j: "jitter_ok 0" by (simp add: jitter_ok_def)
  have "counter (id (memcached t)) ''k'' = counter (id (memcached ?s)) ''k'' +
      (if legal_key ''k'' then sum_list (map (\<lambda>task. owed ''k'' (process_of task)) [race_task 3, race_task 4]) else 0)"
    by (rule increaseAsync_no_lost_update [OF table_server_laws sample_memcache_def j race_ok run stuck])
  then have "counter (id (memcached t)) ''k'' = 7"
    by (simp add: process_of_race owed_def counter_def sample_mc_state_def legal_k)
  with run show ?thesis by blast
qed

text \<open>A server that fails every call.\<close>

definition failing_memcache :: "(string list, unit) mc_state rateLimitMemcacheImpl" where
  "failing_memcache = NewRateLimitCacheImpl (CollectStats (memcache_Client
       \<lparr>mc_GetMulti = (\<lambda>_ m. (([], Some (OtherError ''timeout'')), m)),
        mc_Increment = (\<lambda>_ _ m. ((0, Some (OtherError ''timeout'')), m)),
        mc_Add = (\<lambda>_ m. (Some (OtherError ''timeout''), m))\<rparr>) (ScopeWithTags ''m'' []))
     0 (NewStatManager []) (F32 13421773 (-24)) ''''"

definition failing_state :: "(string list, unit) mc_state" where
  "failing_state = \<lparr>now_at = (\<lambda>_. 1234), reads = 0, rand_at = (\<lambda>_. 0), draws = 0, stats = [],
     localCache = None, memcached = (), pending = []\<rparr>"

theorem increaseAsync_terminates_witness:
  "\<exists>cfg. async_step failing_memcache (failing_state, map process_of [race_task 3, race_task 4]) cfg"
proof -
  have run: "(async_step failing_memcache ^^ 0) (failing_state, map process_of [race_task 3, race_task 4])
      (failing_state, map process_of [race_task 3, race_task 4])" by simp
  from increaseAsync_terminates [OF failing_memcache_def race_ok run]
  show ?thesis by (auto simp: process_of_race)
qed


definition sample_rq :: RateLimitRequest where
  "sample_rq = \<lparr>Domain = ''d'', Descriptors = [sample_request ''a'' ''b''], HitsAddend = 4\<rparr>"

definition sample_key :: CacheKey where
  "sample_key = cache_key (mi_baseRateLimiter sample_memcache)
     ''d'' 1234 (sample_request ''a'' ''b'', Some sample_limit)"


lemma sample_limit_ok: "list_all limit_ok [Some sample_limit]"
  by (simp add: limit_ok_def sample_limit_def NewRateLimit_def)

lemma sample_key_legal: "legal_key (ck_Key sample_key)"
proof -
  have "UnitToDivider (lim_Unit (Limit sample_limit)) = Inr 60" "lim_Unit (Limit sample_limit) = MINUTE"
    by (simp_all add: sample_limit_def NewRateLimit_def)
  moreover have "FormatInt 1200 = ''1200''" by code_simp
  moreover have "window_start 60 1234 = 1200" by (simp add: window_start_def sdiv_nonneg)
  ultimately have "ck_Key sample_key = ''d_a_b_1200''"
    by (simp add: sample_key_def sample_request_def cache_key_Some key_stem_def sample_memcache_def
        NewRateLimitCacheImpl_def NewBaseRateLimit_def)
  then show ?thesis by (simp add: legal_key_def)
qed


text \<open>
  C26. The background counting is the calls of its process: run alone with three calls per key or more,
  the process of a task does what \<open>increaseAsync\<close> does, state and panics included.
\<close>

theorem increaseAsync_is_process:
  assumes "3 * length (p_todo (process_of t)) \<le> n"
  shows "run_process this n (process_of t) =
    bind (increaseAsync this t) (\<lambda>_. ret \<lparr>p_pc = TryIncrement, p_todo = [], p_hits = t_hitsAddend t\<rparr>)"
  by (rule increaseAsync_process [OF assms])

theorem increaseAsync_is_process_witness:
  "run_process sample_memcache 3 (process_of (race_task 4)) (sample_mc_state (\<lambda>_. None)) =
    bind (increaseAsync sample_memcache (race_task 4))
      (\<lambda>_. ret \<lparr>p_pc = TryIncrement, p_todo = [], p_hits = 4\<rparr>) (sample_mc_state (\<lambda>_. None))"
  using increaseAsync_is_process [of "race_task 4" 3 sample_memcache] by (simp add: process_of_race) (simp add: race_task_def)

text \<open>
  C24. A counter of \<open>2 ^ 31\<close> or more is read as zero, because it is parsed as a 32-bit signed integer
  and an error is only logged: a request for no more hits than the limit is then admitted, however far
  the counter is above the limit. (For a key memcached accepts; with any other key the request is
  admitted likewise, since nothing is read.)
\<close>

theorem DoLimit_memcached_large_counter:
  fixes s :: "('lc, 'm, 'x) mc_state_scheme"
  assumes "mc_laws mc val"
    and "this = NewRateLimitCacheImpl (CollectStats (memcache_Client mc) sc) jitter sm ratio pre"
    and "Descriptors rq = [de]" and "limit_ok (Some l)" and "localCache s = None"
    and "key = ck_Key (cache_key (mi_baseRateLimiter this) (Domain rq) (now_at s (reads s)) (de, Some l))"
    and "legal_key key" and "2 ^ 31 \<le> unat (counter (val (memcached s)) key)"
    and "Max_u32 1 (HitsAddend rq) \<le> RequestsPerUnit (Limit l)"
  shows "\<exists>st t. DoLimit_memcached pf this False rq [Some l] s = (Inr [st], t) \<and> Code st = OK"
proof -
  define h where "h = Max_u32 1 (HitsAddend rq)"
  have h: "\<not> RequestsPerUnit (Limit l) < h" unfolding h_def by (rule leD [OF assms(9)])
  let ?key = "cache_key (mi_baseRateLimiter this) (Domain rq) (now_at s (reads s)) (de, Some l)"
  have c: "client_ok (mi_client this) val" using assms(1,2) NewRateLimitCacheImpl_client by simp
  have len: "length (Descriptors rq) = length [Some l]" "list_all limit_ok [Some l]" using assms(3,4) by simp_all
  have items: "[(0, ?key, Some l)] = memcached_items (mi_baseRateLimiter this) rq [Some l] (now_at s (reads s))"
    by (simp add: memcached_items_def assms(3))
  have lc: "cache_sound pf (\<lambda>_. UNIV)" by (simp add: cache_sound_def)
  obtain sts t fs where run: "DoLimit_memcached pf this False rq [Some l] s = (Inr sts, t)"
    and a: "list_all2 (memcached_answer (counters_read (val (memcached s)) (asked_keys [(0, ?key, Some l)] fs)) fs h)
      [(0, ?key, Some l)] sts"
    and fs: "known_over (\<lambda>_. UNIV) (localCache s) [(0, ?key, Some l)] fs"
    using runs_total [OF DoLimit_memcached_answers [OF c len items h_def lc]]
    by (elim exE conjE) (rule that; assumption)
  have "counters_read v (asked_keys [(0, ?key, Some l)] fs) = v" for v
    using assms(6,7) by (simp add: counters_read_def asked_keys_def)
  moreover have "\<not> fs ! 0" using fs assms(5) by (simp add: known_over_def cached_def)
  moreover have "stored_count (val (memcached s)) (ck_Key ?key) = 0" using assms(6,8) by (simp add: stored_count_def)
  ultimately obtain st where "sts = [st]" "Code st = OK"
    using a h by (auto simp: list_all2_Cons1 memcached_answer_def answer_def exceeded_def)
  with run show ?thesis by blast
qed

theorem DoLimit_memcached_large_counter_witness:
  "\<exists>st t. DoLimit_memcached set_cache sample_memcache False sample_rq [Some sample_limit]
     (sample_mc_state (\<lambda>_. Some 2147483648)) = (Inr [st], t) \<and> Code st = OK"
proof (rule DoLimit_memcached_large_counter [OF table_server_laws sample_memcache_def])
  show "Descriptors sample_rq = [sample_request ''a'' ''b'']" by (simp add: sample_rq_def)
  show "limit_ok (Some sample_limit)" using sample_limit_ok by simp
  show "legal_key (ck_Key sample_key)" by (rule sample_key_legal)
  show "ck_Key sample_key = ck_Key (cache_key (mi_baseRateLimiter sample_memcache) (Domain sample_rq)
      (now_at (sample_mc_state (\<lambda>_. Some 2147483648)) (reads (sample_mc_state (\<lambda>_. Some 2147483648))))
      (sample_request ''a'' ''b'', Some sample_limit))"
    by (simp add: sample_key_def sample_rq_def sample_mc_state_def)
qed (simp_all add: sample_mc_state_def counter_def sample_rq_def sample_limit_def NewRateLimit_def max_def)

end
