(* ===== verification/Service_Backends.thy ===== *)
theory Service_Backends
  imports Service Redis_Contract Redis_Window Memcached_Async
begin

text \<open>
  The service over its two back ends: the interface the service relies on is kept by both, so that
  every request is answered or refused with an error value, and a refusal by the overall code has a
  reason in the configuration files. Configuration updates, and what can still go wrong.
\<close>

section \<open>The two back ends\<close>

interpretation redis_service: recoverable_cache "DoLimit pf rx this" is_RedisError for pf rx this
  by unfold_locales (auto simp: is_RedisError_def split: panic.splits)

interpretation memcached_service: recoverable_cache
  "DoLimit_memcached pf (NewRateLimitCacheImpl (CollectStats (memcache_Client mc) sc) jitter sm ratio keyPrefix) False"
  "\<lambda>_. False" for pf mc sc jitter sm ratio keyPrefix
  by unfold_locales simp

section \<open>Answers\<close>

text \<open>
  C3. The service over redis. With a configuration loaded from files, and no override with a unit that
  has no window, a request with a domain and descriptors calls \<open>DoLimit\<close> once, in the state the service was
  in (its log extended by the metrics of the lookup), for the limits that are to be checked: for
  each descriptor the limit the files prescribe, unless it is unlimited or its name is replaced by the
  limit of another descriptor. If that call returns, the request is answered, with the statuses it gave;
  unlimited descriptors are reported as such, the overall code is \<open>OVER_LIMIT\<close> exactly when some status
  is and the service is not in global shadow mode, and the headers describe the status closest to its
  limit. Otherwise that call has panicked with a redis error; this error is returned as a value and
  counted once as a redis error, with no other effect on the state the call left.
\<close>

theorem ShouldRateLimit_redis:
  fixes st :: "('lc, 'r, 'x) redis_state_scheme svc_state"
  assumes "svc_config (svc st) = Some cfg" and "in_service tbl cs sm merge cfg"
    and "\<forall>s u. tbl s = Some u \<longrightarrow> u = UNKNOWN \<or> valid_unit u"
    and "Domain request \<noteq> ''''" and "Descriptors request \<noteq> []" and "overrides_ok request"
    and "ws = wanted tbl cs sm (Domain request) (Descriptors request)"
  shows "\<exists>lims es r s. list_all2 (rel_option same_limit) (map (checked (replaced_names ws)) ws) lims \<and>
    DoLimit pf rx this request lims ((backend st)\<lparr>stats := stats (backend st) @ es\<rparr>) = (r, s) \<and>
    (case r of
       Inr sts \<Rightarrow> (\<exists>resp t. ShouldRateLimit (DoLimit pf rx this) request st = (Inr (Inr resp), t) \<and>
         observed s (backend t) \<and> list_all2 status_ok lims sts \<and>
         response_for (svc st) (zip (map unlimited ws) sts) resp)
     | Inl p \<Rightarrow> (\<exists>e t. p = RedisError e \<and> ShouldRateLimit (DoLimit pf rx this) request st = (Inr (Inl e), t) \<and>
         backend t = s\<lparr>stats := stats s @ [CounterInc (srl_RedisError (ShouldRateLimitStats (svc_stats (svc st))))]\<rparr>))"
proof (cases rule: redis_service.ShouldRateLimit_answers [OF assms, of pf rx this, case_names response failed])
  case (response resp t lims sts es s)
  then show ?thesis by (intro exI [of _ lims] exI [of _ es] exI [of _ "Inr sts"] exI [of _ s]) auto
next
  case (failed e t lims es s)
  then show ?thesis by (intro exI [of _ lims] exI [of _ es] exI [of _ "Inl (RedisError e)"] exI [of _ s]) auto
qed

definition sample_service :: "rateLimitConfigImpl option \<Rightarrow> bool \<Rightarrow> 's \<Rightarrow> 's svc_state" where
  "sample_service cfg shadow s =
     \<lparr>svc = (new_service (NewServiceStats (NewStatManager [])) shadow)\<lparr>svc_config := cfg\<rparr>,
      health = NewHealthChecker [] ''ratelimit'' False, backend = s\<rparr>"

lemma sample_overrides: "overrides_ok \<lparr>Domain = dn, Descriptors = [sample_request k v], HitsAddend = h\<rparr>"
  by (simp add: overrides_ok_def sample_request_def)

text \<open>
  C11. The service over memcached, as the program builds it: the same, and since memcached errors are
  only logged every such request is answered.
\<close>

theorem ShouldRateLimit_memcached:
  fixes st :: "('lc, 'm, 'x) mc_state_scheme svc_state"
  assumes "this = NewRateLimitCacheImpl (CollectStats (memcache_Client mc) sc) jitter sm' ratio keyPrefix"
    and "svc_config (svc st) = Some cfg" and "in_service tbl cs sm merge cfg"
    and "\<forall>s u. tbl s = Some u \<longrightarrow> u = UNKNOWN \<or> valid_unit u"
    and "Domain request \<noteq> ''''" and "Descriptors request \<noteq> []" and "overrides_ok request"
    and "ws = wanted tbl cs sm (Domain request) (Descriptors request)"
  shows "\<exists>resp t lims sts es s. ShouldRateLimit (DoLimit_memcached pf this False) request st = (Inr (Inr resp), t) \<and>
      list_all2 (rel_option same_limit) (map (checked (replaced_names ws)) ws) lims \<and>
      DoLimit_memcached pf this False request lims ((backend st)\<lparr>stats := stats (backend st) @ es\<rparr>) = (Inr sts, s) \<and>
      observed s (backend t) \<and> list_all2 status_ok lims sts \<and>
      response_for (svc st) (zip (map unlimited ws) sts) resp"
proof (cases rule: memcached_service.ShouldRateLimit_answers
    [OF assms(2-), of pf mc sc jitter sm' ratio keyPrefix, case_names response failed])
  case (response resp t lims sts es s)
  then show ?thesis unfolding assms(1) by (intro exI conjI)
next
  case (failed e t lims es s)
  then show ?thesis by simp
qed

theorem ShouldRateLimit_memcached_witness:
  "\<exists>resp t. ShouldRateLimit (DoLimit_memcached set_cache sample_memcache False)
      \<lparr>Domain = ''d'', Descriptors = [sample_request ''c'' ''v1''], HitsAddend = 1\<rparr>
      (sample_service (Some sample_config) False (sample_mc_state (\<lambda>_. None))) = (Inr (Inr resp), t)"
proof -
  let ?rq = "\<lparr>Domain = ''d'', Descriptors = [sample_request ''c'' ''v1''], HitsAddend = 1\<rparr>"
  let ?st = "sample_service (Some sample_config) False (sample_mc_state (\<lambda>_. None))"
  have cfg: "svc_config (svc ?st) = Some sample_config" by (simp add: sample_service_def)
  have units: "\<forall>s u. sample_units s = Some u \<longrightarrow> u = UNKNOWN \<or> valid_unit u" using sample_units_valid by blast
  have rq: "Domain ?rq \<noteq> ''''" "Descriptors ?rq \<noteq> []" by simp_all
  from ShouldRateLimit_memcached [OF sample_memcache_def cfg sample_in_service units rq sample_overrides refl, of set_cache]
  show ?thesis by auto
qed

text \<open>
  C4. A refusal has a reason. If the service over redis answers \<open>OVER_LIMIT\<close>, it is not in global shadow
  mode, and some descriptor of the request has, by the files or by an override, a limit that is neither
  unlimited, nor in shadow mode, nor replaced by another limit of the request; the status reported for
  the descriptor is \<open>OVER_LIMIT\<close> with that limit.
\<close>

theorem over_limit_has_reason:
  fixes st :: "('lc, 'r, 'x) redis_state_scheme svc_state"
  assumes "svc_config (svc st) = Some cfg" and "in_service tbl cs sm merge cfg"
    and "\<forall>s u. tbl s = Some u \<longrightarrow> u = UNKNOWN \<or> valid_unit u" and "overrides_ok request"
    and "ShouldRateLimit (DoLimit pf rx this) request st = (Inr (Inr resp), t)" and "OverallCode resp = OVER_LIMIT"
  shows "\<not> globalShadowMode (svc st) \<and> (\<exists>i l. i < length (Descriptors request) \<and> i < length (Statuses resp) \<and>
    limit_spec tbl cs sm (Domain request) (Descriptors request ! i) = Some l \<and> \<not> Unlimited l \<and> \<not> ShadowMode l \<and>
    (Name l = '''' \<or> (\<forall>d \<in> set (Descriptors request). \<forall>l'. limit_spec tbl cs sm (Domain request) d = Some l' \<longrightarrow>
       Name l \<notin> set (Replaces l'))) \<and>
    Code (Statuses resp ! i) = OVER_LIMIT \<and> CurrentLimit (Statuses resp ! i) = Some (Limit l))"
proof -
  let ?ws = "wanted tbl cs sm (Domain request) (Descriptors request)"
  have "\<not> (Domain request = '''' \<or> Descriptors request = [] \<or> svc_config (svc st) = None)"
    using ShouldRateLimit_refuses [of request st "DoLimit pf rx this"] assms(5) by (metis Inl_Inr_False Pair_inject sum.inject(2))
  then have rq: "Domain request \<noteq> ''''" "Descriptors request \<noteq> []" by auto
  show ?thesis
  proof (cases rule: redis_service.ShouldRateLimit_answers [OF assms(1-3) rq assms(4) refl, of pf rx this, case_names response failed])
    case (response r u lims sts es s)
    have [simp]: "r = resp" using response(1) assms(5) by simp
    have len: "length lims = length ?ws" "length sts = length ?ws"
      using list_all2_lengthD [OF response(2)] list_all2_lengthD [OF response(5)] by simp_all
    have shadow: "\<not> globalShadowMode (svc st)" and "over_limit (zip (map unlimited ?ws) sts)"
      using response(6) assms(6) by (auto simp: response_for_def split: if_splits)
    then obtain i where i: "i < length ?ws" "\<not> unlimited (?ws ! i)" "Code (sts ! i) = OVER_LIMIT"
      using len by (auto simp: over_limit_def list_ex_length)
    have st: "Statuses resp ! i = sts ! i" "i < length (Statuses resp)"
      using response(6) i len by (auto simp: response_for_def reported_def)
    have "status_ok (lims ! i) (sts ! i)" using response(5) i len by (simp add: list_all2_conv_all_nth)
    with i(3) obtain m where m: "lims ! i = Some m" "\<not> ShadowMode m" "CurrentLimit (sts ! i) = Some (Limit m)"
      by (auto simp: status_ok_def no_limit_status_def split: option.splits)
    have "rel_option same_limit (checked (replaced_names ?ws) (?ws ! i)) (lims ! i)"
      using response(2) i len by (simp add: list_all2_conv_all_nth)
    with m obtain l where l: "checked (replaced_names ?ws) (?ws ! i) = Some l" "same_limit l m"
      by (auto simp: option_rel_Some2)
    then have c: "?ws ! i = Some l" "\<not> Unlimited l" "Name l = '''' \<or> Name l \<notin> set (replaced_names ?ws)"
      by (auto simp: checked_def split: option.splits if_splits)
    have "\<not> ShadowMode l" "CurrentLimit (sts ! i) = Some (Limit l)" using m l(2) by (simp_all add: same_limit_fields)
    moreover have "Name l = '''' \<or> (\<forall>d \<in> set (Descriptors request). \<forall>l'.
        limit_spec tbl cs sm (Domain request) d = Some l' \<longrightarrow> Name l \<notin> set (Replaces l'))"
      using c(3) by (fastforce simp: replaced_names_def wanted_def)
    ultimately show ?thesis
      using shadow i c(1,2) st len by (intro conjI exI [of _ i] exI [of _ l]) (auto simp: wanted_def)
  next
    case (failed e u lims es s)
    then show ?thesis using assms(5) by simp
  qed
qed

definition busy_redis_state :: "(string list, string \<Rightarrow> nat) redis_state" where
  "busy_redis_state = sample_redis_state\<lparr>redis := (\<lambda>_. 100)\<rparr>"

abbreviation sample_over_rq :: RateLimitRequest where
  "sample_over_rq \<equiv> \<lparr>Domain = ''d'', Descriptors = [sample_request ''c'' ''v1''], HitsAddend = 1\<rparr>"

lemma sample_lookup:
  obtains cfg l where "GetLimit sample_config ''d'' (sample_request ''c'' ''v1'') = (Some 1, cfg, [])"
    and "limits cfg ! 1 = l" and "\<not> Unlimited l" and "Name l = ''''" and "Replaces l = []" and "\<not> ShadowMode l"
    and "lim_Unit (Limit l) = SECOND" and "RequestsPerUnit (Limit l) = 7"
proof -
  let ?g = "GetLimit sample_config ''d'' (sample_request ''c'' ''v1'')"
  have "?g = (Some 1, fst (snd ?g), [])" "\<not> Unlimited (limits (fst (snd ?g)) ! 1)"
    "Name (limits (fst (snd ?g)) ! 1) = ''''" "Replaces (limits (fst (snd ?g)) ! 1) = []"
    "\<not> ShadowMode (limits (fst (snd ?g)) ! 1)" "lim_Unit (Limit (limits (fst (snd ?g)) ! 1)) = SECOND"
    "RequestsPerUnit (Limit (limits (fst (snd ?g)) ! 1)) = 7"
    by code_simp+
  then show thesis by (intro that) auto
qed

lemma sample_over_limit:
  obtains resp t where "ShouldRateLimit (DoLimit set_cache counter_server sample_redis) sample_over_rq
      (sample_service (Some sample_config) False busy_redis_state) = (Inr (Inr resp), t)"
    and "OverallCode resp = OVER_LIMIT"
proof -
  obtain cfg l where g: "GetLimit sample_config ''d'' (sample_request ''c'' ''v1'') = (Some 1, cfg, [])"
    and l: "limits cfg ! 1 = l" "\<not> Unlimited l" "Name l = ''''" "Replaces l = []" "\<not> ShadowMode l"
      "lim_Unit (Limit l) = SECOND" "RequestsPerUnit (Limit l) = 7"
    by (rule sample_lookup)
  let ?do = "DoLimit set_cache counter_server sample_redis"
  let ?s = "busy_redis_state\<lparr>stats := stats busy_redis_state @ []\<rparr>"
  let ?key = "cache_key (baseRateLimiter sample_redis) ''d'' (now_at ?s (reads ?s)) (sample_request ''c'' ''v1'', Some l)"
  have stop: "\<not> stopCacheKeyIncrementWhenOverlimit sample_redis"
    by (simp add: sample_redis_def NewFixedRateLimitCacheImpl_def)
  have u: "valid_unit (lim_Unit (Limit l))" using l by simp
  have h: "1 = Max_u32 1 (HitsAddend sample_over_rq)" by simp
  have c: "count_of sample_redis id ?s k = 100" for k
    by (simp add: count_of_def usePerSecond_def busy_redis_state_def sample_redis_def NewFixedRateLimitCacheImpl_def)
  obtain found reset t where call: "?do sample_over_rq [Some l] ?s =
      (Inr [answer found l (of_nat (count_of sample_redis id ?s ?key) + 1) reset], t)"
    using DoLimit_single [OF counter_server_laws set_cache_sound stop u _ _ refl h, of "''d''" "sample_request ''c'' ''v1''" ?s] c
    by auto
  then obtain a where run: "?do sample_over_rq [Some l] ?s = (Inr [a], t)" and over: "Code a = OVER_LIMIT"
    using l c by (intro that [OF call]) (simp add: answer_def exceeded_def)
  let ?st = "sample_service (Some sample_config) False busy_redis_state"
  let ?st' = "?st\<lparr>svc := (svc ?st)\<lparr>svc_config := Some cfg\<rparr>, backend := ?s\<rparr>"
  have con: "constructLimitsToCheck sample_over_rq (Some sample_config) ?st = (Inr (cfg, [Some 1], [False]), ?st')"
    by (simp add: constructLimitsToCheck_def checkServiceErr_def bind_ret find_limit_def g l l(1) [unfolded One_nat_def]
        drop_replaced_def Let_def del: append_Nil2)
      (simp add: monad_simps in_backend_def emit_def sample_service_def)
  have do: "in_backend (?do sample_over_rq [Some l]) ?st' = (Inr [a], ?st'\<lparr>backend := t\<rparr>)"
    using run by (simp add: in_backend_def)
  have d: "deref cfg (Some (Suc 0)) = Some l" using l(1) by (simp add: deref_def)
  have "shouldRateLimitWorker ?do sample_over_rq ?st =
      (case Inr [a] of
         Inl p \<Rightarrow> (Inl p, ?st'\<lparr>backend := t\<rparr>)
       | Inr sts \<Rightarrow> bind (Assert (length [Some (1 :: nat)] = length sts)) (\<lambda>_.
           make_response (svc (?st'\<lparr>backend := t\<rparr>)) (globalShadowMode (svc ?st)) (zip [False] sts)) (?st'\<lparr>backend := t\<rparr>))"
    by (rule worker_calls [where cfg = cfg and st' = ?st']) (use con do in \<open>simp_all add: d sample_service_def\<close>)
  then have "ShouldRateLimit ?do sample_over_rq ?st = (Inr (Inr
      \<lparr>OverallCode = OVER_LIMIT, Statuses = [a], ResponseHeadersToAdd = []\<rparr>), ?st'\<lparr>backend := t\<rparr>)"
    by (simp add: ShouldRateLimit_def Assert_def make_response_def take_status_def note_closest_def
        response_headers_def over sample_service_def new_service_def monad_simps Let_def)
  then show thesis by (rule that) simp
qed

theorem ShouldRateLimit_redis_witness:
  "\<exists>resp t sts. ShouldRateLimit (DoLimit set_cache counter_server sample_redis) sample_over_rq
      (sample_service (Some sample_config) False busy_redis_state) = (Inr (Inr resp), t) \<and>
    OverallCode resp = OVER_LIMIT \<and> Statuses resp = sts \<and> list_ex (\<lambda>st. Code st = OVER_LIMIT) sts"
proof -
  let ?st = "sample_service (Some sample_config) False busy_redis_state"
  let ?ws = "wanted sample_units [sample_file] (NewStatManager []) (Domain sample_over_rq) (Descriptors sample_over_rq)"
  obtain resp t where run: "ShouldRateLimit (DoLimit set_cache counter_server sample_redis) sample_over_rq ?st = (Inr (Inr resp), t)"
    and code: "OverallCode resp = OVER_LIMIT"
    by (rule sample_over_limit)
  have cfg: "svc_config (svc ?st) = Some sample_config" by (simp add: sample_service_def)
  have units: "\<forall>s u. sample_units s = Some u \<longrightarrow> u = UNKNOWN \<or> valid_unit u" using sample_units_valid by blast
  have rq: "Domain sample_over_rq \<noteq> ''''" "Descriptors sample_over_rq \<noteq> []" by simp_all
  from ShouldRateLimit_redis [OF cfg sample_in_service units rq sample_overrides refl, of set_cache counter_server sample_redis] run
  obtain sts where "response_for (svc ?st) (zip (map unlimited ?ws) sts) resp"
    by (elim exE conjE) (rename_tac lims es r s, case_tac r, auto)
  with code have "Statuses resp = reported (zip (map unlimited ?ws) sts)" "over_limit (zip (map unlimited ?ws) sts)"
    by (auto simp: response_for_def split: if_splits)
  then have "list_ex (\<lambda>st. Code st = OVER_LIMIT) (Statuses resp)"
    by (force simp: reported_def over_limit_def list_ex_iff)
  with run code show ?thesis by blast
qed

theorem over_limit_has_reason_witness:
  "\<exists>l. limit_spec sample_units [sample_file] (NewStatManager []) ''d'' (sample_request ''c'' ''v1'') = Some l \<and>
     \<not> Unlimited l \<and> \<not> ShadowMode l"
proof -
  let ?rq = "\<lparr>Domain = ''d'', Descriptors = [sample_request ''c'' ''v1''], HitsAddend = 1\<rparr>"
  let ?st = "sample_service (Some sample_config) False busy_redis_state"
  let ?r = "ShouldRateLimit (DoLimit set_cache counter_server sample_redis) ?rq ?st"
  obtain resp t where run: "?r = (Inr (Inr resp), t)" and code: "OverallCode resp = OVER_LIMIT"
    by (rule sample_over_limit)
  have cfg: "svc_config (svc ?st) = Some sample_config" by (simp add: sample_service_def)
  have units: "\<forall>s u. sample_units s = Some u \<longrightarrow> u = UNKNOWN \<or> valid_unit u" using sample_units_valid by blast
  from over_limit_has_reason [OF cfg sample_in_service units sample_overrides run code]
  show ?thesis by auto
qed

text \<open>
  C21. Refused requests. Without a domain, without descriptors, or before any configuration is loaded,
  the request is refused with an error value that says so, whatever the back end; the error is counted
  once, and nothing else changes.
\<close>

theorem ShouldRateLimit_refused:
  fixes st :: "'x world_scheme svc_state"
  assumes "Domain request = '''' \<or> Descriptors request = [] \<or> svc_config (svc st) = None"
  shows "ShouldRateLimit do_limit request st =
    (Inr (Inl (if Domain request = '''' then ''rate limit domain must not be empty''
       else if Descriptors request = [] then ''rate limit descriptor list must not be empty''
       else ''no rate limit configuration loaded'')),
     st\<lparr>backend := (backend st)\<lparr>stats := stats (backend st) @
       [CounterInc (srl_ServiceError (ShouldRateLimitStats (svc_stats (svc st))))]\<rparr>\<rparr>)"
  by (rule ShouldRateLimit_refuses [OF assms, of do_limit]) simp

theorem ShouldRateLimit_refused_witness:
  "fst (ShouldRateLimit (DoLimit set_cache counter_server sample_redis) sample_over_rq
     (sample_service None False sample_redis_state)) = Inr (Inl ''no rate limit configuration loaded'')"
  using ShouldRateLimit_refused [of sample_over_rq "sample_service None False sample_redis_state"
      "DoLimit set_cache counter_server sample_redis"]
  by (simp add: sample_service_def)

lemma finalCode_fold: "finalCode (fold (take_status h) xs v) \<in> {finalCode v, OVER_LIMIT}"
proof (induction xs arbitrary: v)
  case (Cons x xs)
  have "finalCode (take_status h x v) \<in> {finalCode v, OVER_LIMIT}"
    by (cases x) (auto simp: take_status_def note_closest_def Let_def)
  with Cons.IH [of "take_status h x v"] show ?case by auto
qed simp

lemma make_response_shadow:
  assumes "make_response this True xs st = (Inr resp, t)"
  shows "OverallCode resp = OK"
proof -
  let ?v = "fold (take_status (customHeadersEnabled this)) xs
    \<lparr>rv_Statuses = [], finalCode = OK, minLimitRemaining = MaxUint32, minimumDescriptor = None\<rparr>"
  have "finalCode ?v = OK \<or> finalCode ?v = OVER_LIMIT"
    using finalCode_fold [of "customHeadersEnabled this" xs "\<lparr>rv_Statuses = [], finalCode = OK,
      minLimitRemaining = MaxUint32, minimumDescriptor = None\<rparr>"] by simp
  with assms show ?thesis
    by (auto simp: make_response_def Let_def bind_Inr_iff prim_simps split: if_splits)
qed

text \<open>
  C23. Global shadow mode. In global shadow mode every answer has the overall code \<open>OK\<close>, whatever the
  back end says, and also where the limit came with the request as an override.
\<close>

theorem global_shadow_mode:
  assumes "globalShadowMode (svc st)"
    and "ShouldRateLimit do_limit request st = (Inr (Inr resp), t)"
  shows "OverallCode resp = OK"
proof -
  have "shouldRateLimitWorker do_limit request st = (Inr resp, t)"
    using assms(2)
    by (auto simp: ShouldRateLimit_def in_backend_def emit_def monad_simps split: prod.splits sum.splits panic.splits)
  then obtain this xs st' where "make_response this True xs st' = (Inr resp, t)"
    using assms(1)
    by (auto simp: shouldRateLimitWorker_def checkServiceErr_def GetCurrentConfig_def bind_Inr_iff prim_simps
        split: prod.splits if_splits)
  then show ?thesis by (rule make_response_shadow)
qed

text \<open>A request with an override of one per hour, on a busy redis.\<close>

definition override_request :: "Unit \<Rightarrow> RateLimitRequest" where
  "override_request u = \<lparr>Domain = ''d'', Descriptors = [\<lparr>Entries = [\<lparr>en_Key = ''k'', en_Value = ''v''\<rparr>],
     de_Limit = Some \<lparr>ov_RequestsPerUnit = 1, ov_Unit = u\<rparr>\<rparr>], HitsAddend = 1\<rparr>"

lemma override_overrides_ok: "valid_unit u \<Longrightarrow> overrides_ok (override_request u)"
  by (simp add: overrides_ok_def override_request_def)

theorem global_shadow_mode_witness:
  "\<exists>resp t. ShouldRateLimit (DoLimit_memcached set_cache sample_memcache False) (override_request HOUR)
      (sample_service (Some sample_config) True (sample_mc_state (\<lambda>_. Some 100))) = (Inr (Inr resp), t) \<and>
    OverallCode resp = OK"
proof -
  let ?st = "sample_service (Some sample_config) True (sample_mc_state (\<lambda>_. Some 100))"
  have cfg: "svc_config (svc ?st) = Some sample_config" by (simp add: sample_service_def)
  have units: "\<forall>s u. sample_units s = Some u \<longrightarrow> u = UNKNOWN \<or> valid_unit u" using sample_units_valid by blast
  have rq: "Domain (override_request HOUR) \<noteq> ''''" "Descriptors (override_request HOUR) \<noteq> []"
    by (simp_all add: override_request_def)
  have shadow: "globalShadowMode (svc ?st)" by (simp add: sample_service_def new_service_def)
  show ?thesis
  proof (cases rule: memcached_service.ShouldRateLimit_answers
      [OF cfg sample_in_service units rq override_overrides_ok [of HOUR] refl, of set_cache table_server
        "ScopeWithTags ''m'' []" 0 "NewStatManager []" "F32 13421773 (-24)" "''''", folded sample_memcache_def,
        case_names valid response failed])
    case (response resp t lims sts es s)
    with global_shadow_mode [OF shadow response(1)] show ?thesis by (intro exI conjI)
  qed simp_all
qed

text \<open>A domain with a configuration.\<close>

lemma GetLimit_override:
  assumes "map_of (domains cfg) domain = Some d" and "de_Limit descriptor = Some ov"
  obtains cfg' a where "GetLimit cfg domain descriptor = (Some a, cfg', [])"
    and "limits cfg' ! a = NewRateLimit (ov_RequestsPerUnit ov) (ov_Unit ov)
      (NewStats (statsManager cfg) (descriptorKey domain descriptor)) False False '''' [] False"
  using assms by (intro that) (auto simp: GetLimit_def)

lemma GenerateCacheKeys_panics:
  assumes "Descriptors request = [d]" and "\<not> valid_unit (lim_Unit (Limit l))"
  shows "\<exists>t. GenerateCacheKeys this request [Some l] hits s = (Inl (StringPanic ''should not get here''), t)"
  using assms
  by (auto simp: GenerateCacheKeys_def Assert_def GenerateCacheKey_def UnitToDivider_invalid monad_simps
      UnixNow_apply)

text \<open>
  C22. An override can bring the service down. A request for a known domain whose single descriptor
  carries an override without a unit, or with one the service does not know, makes \<open>ShouldRateLimit\<close>
  panic with a string, which it does not recover from, over either back end.
\<close>

theorem override_unknown_unit_panics:
  fixes st :: "('lc, 'r, 'x) redis_state_scheme svc_state" and mst :: "('lc, 'm, 'x) mc_state_scheme svc_state"
  assumes "Domain request \<noteq> ''''" and "Descriptors request = [d]" and "de_Limit d = Some ov"
    and "\<not> valid_unit (ov_Unit ov)" and "map_of (domains cfg) (Domain request) = Some tree"
    and "svc_config (svc st) = Some cfg" and "svc_config (svc mst) = Some cfg"
  shows "\<exists>t mt. ShouldRateLimit (DoLimit pf rx this) request st = (Inl (StringPanic ''should not get here''), t) \<and>
    ShouldRateLimit (DoLimit_memcached pf mthis flush) request mst = (Inl (StringPanic ''should not get here''), mt)"
proof -
  obtain cfg' a where g: "GetLimit cfg (Domain request) d = (Some a, cfg', [])"
    and l: "limits cfg' ! a = NewRateLimit (ov_RequestsPerUnit ov) (ov_Unit ov)
      (NewStats (statsManager cfg) (descriptorKey (Domain request) d)) False False '''' [] False"
    by (rule GetLimit_override [OF assms(5,3)])
  let ?l = "limits cfg' ! a"
  have bad: "\<not> valid_unit (lim_Unit (Limit ?l))" using assms(4) by (simp add: l NewRateLimit_def)
  have con: "\<exists>s'. constructLimitsToCheck request (Some cfg) s = (Inr (cfg', [Some a], [False]), s')"
    for s :: "'y world_scheme svc_state"
    using assms(2) g l
    by (simp add: constructLimitsToCheck_def checkServiceErr_def bind_ret find_limit_def Let_def drop_replaced_def
        NewRateLimit_def) (simp add: in_backend_def emit_def monad_simps)
  have panics: "\<exists>t. ShouldRateLimit do_limit request s = (Inl (StringPanic ''should not get here''), t)"
    if call: "\<And>u. \<exists>u'. do_limit request [Some ?l] u = (Inl (StringPanic ''should not get here''), u')"
      and cfg: "svc_config (svc s) = Some cfg"
    for do_limit and s :: "'y world_scheme svc_state"
  proof -
    obtain s' where s': "constructLimitsToCheck request (svc_config (svc s)) s = (Inr (cfg', [Some a], [False]), s')"
      using con cfg by metis
    obtain u where u: "do_limit request [Some ?l] (backend s') = (Inl (StringPanic ''should not get here''), u)"
      using call by blast
    have "in_backend (do_limit request (map (deref cfg') [Some a])) s' =
        (Inl (StringPanic ''should not get here''), s'\<lparr>backend := u\<rparr>)"
      using u by (simp add: in_backend_def deref_def)
    with worker_calls [where do_limit = do_limit, OF assms(1) _ s' this] assms(2) show ?thesis by (simp add: ShouldRateLimit_def)
  qed
  have r: "\<exists>u'. DoLimit pf rx this request [Some ?l] u = (Inl (StringPanic ''should not get here''), u')"
    for u :: "('lc, 'r, 'x) redis_state_scheme"
    using GenerateCacheKeys_panics [OF assms(2) bad, of "baseRateLimiter this" "Max_u32 1 (HitsAddend request)" u]
    by (elim exE) (simp add: DoLimit_def Let_def bind_apply [of "GenerateCacheKeys _ _ _ _"])
  have m: "\<exists>u'. DoLimit_memcached pf mthis flush request [Some ?l] u = (Inl (StringPanic ''should not get here''), u')"
    for u :: "('lc, 'm, 'x) mc_state_scheme"
    using GenerateCacheKeys_panics [OF assms(2) bad, of "mi_baseRateLimiter mthis" "Max_u32 1 (HitsAddend request)" u]
    by (elim exE) (simp add: DoLimit_memcached_def Let_def bind_apply [of "GenerateCacheKeys _ _ _ _"])
  from panics [of "DoLimit pf rx this", OF r assms(6)] panics [of "DoLimit_memcached pf mthis flush", OF m assms(7)]
  show ?thesis by auto
qed

theorem override_unknown_unit_panics_witness:
  "\<exists>t mt. ShouldRateLimit (DoLimit set_cache counter_server sample_redis) (override_request UNKNOWN)
      (sample_service (Some sample_config) False sample_redis_state) = (Inl (StringPanic ''should not get here''), t) \<and>
    ShouldRateLimit (DoLimit_memcached set_cache sample_memcache False) (override_request UNKNOWN)
      (sample_service (Some sample_config) False (sample_mc_state (\<lambda>_. None))) =
        (Inl (StringPanic ''should not get here''), mt)"
proof -
  have "\<not> Option.is_none (map_of (domains sample_config) ''d'')" by code_simp
  then obtain tree where "map_of (domains sample_config) (Domain (override_request UNKNOWN)) = Some tree"
    by (auto simp: override_request_def Option.is_none_def)
  from override_unknown_unit_panics [OF _ _ _ _ this, of "hd (Descriptors (override_request UNKNOWN))"
      "\<lparr>ov_RequestsPerUnit = 1, ov_Unit = UNKNOWN\<rparr>"
      "sample_service (Some sample_config) False sample_redis_state"
      "sample_service (Some sample_config) False (sample_mc_state (\<lambda>_. None))"
      set_cache counter_server sample_redis sample_memcache False]
  show ?thesis by (simp add: override_request_def sample_service_def)
qed

end
