(* ===== verification/Service_Window.thy ===== *)
theory Service_Window
  imports Service_Backends
begin

text \<open>
  From the configuration files to the answers: a window of requests for one descriptor, answered by the
  service over redis. What the theory \<open>Redis_Window\<close> shows of \<open>DoLimit\<close> holds of \<open>ShouldRateLimit\<close> with
  the limit the files prescribe.
\<close>

section \<open>Lemmas\<close>

text \<open>A limit the loader accepts does not replace itself; an override replaces nothing.\<close>

lemma limit_spec_keeps_itself:
  assumes "files_ok tbl merge cs" and spec: "limit_spec tbl cs sm domain descriptor = Some l"
  shows "Name l \<notin> set (Replaces l)"
proof (cases "de_Limit descriptor")
  case None
  with spec obtain k y rl where y: "yaml_lookup (domain @ ''.'') (yaml_of cs domain) (Entries descriptor) = Some (k, y)"
    and rl: "yaml_limit tbl sm k y = Some rl" and l: "detail sm (detailed_key domain (Entries descriptor)) rl = l"
    by (auto simp: limit_spec_def bind_eq_Some_conv split: if_splits)
  have "yaml_ok tbl y" by (rule yaml_lookup_ok [OF yaml_of_ok [OF assms(1)] y])
  with rl have "Name rl \<notin> set (Replaces rl)"
    by (cases y) (auto simp: yaml_limit_def rate_limit_ok_def NewRateLimit_def)
  with l show ?thesis by auto
next
  case (Some ov)
  with spec show ?thesis by (auto simp: limit_spec_def NewRateLimit_def split: if_splits)
qed

text \<open>A request whose back end answers is answered, with what the back end said.\<close>

lemma ShouldRateLimit_answered:
  fixes st :: "'x world_scheme svc_state"
  assumes rq: "Domain request \<noteq> ''''" "Descriptors request \<noteq> []"
    and con: "constructLimitsToCheck request (svc_config (svc st)) st = (Inr (cfg, ptrs, us), st')"
    and shadow: "globalShadowMode (svc st') = globalShadowMode (svc st)"
    and call: "do_limit request lims (backend st') = (Inr sts, s)" and lims: "lims = map (deref cfg) ptrs"
    and len: "length us = length ptrs"
    and so: "list_all2 status_ok lims sts" and ok: "list_all limit_ok lims"
  shows "\<exists>resp t. ShouldRateLimit do_limit request st = (Inr (Inr resp), t) \<and> svc t = svc st' \<and>
    observed s (backend t) \<and> response_for (svc st') (zip us sts) resp"
proof -
  let ?st = "st'\<lparr>backend := s\<rparr>"
  have n: "length ptrs = length sts" using list_all2_lengthD [OF so] lims by simp
  then have xs: "snd ` set (zip us sts) = set sts" using len by (simp flip: set_map)
  have "in_backend (do_limit request (map (deref cfg) ptrs)) st' = (Inr sts, ?st)"
    using call lims by (simp add: in_backend_def)
  from worker_calls [where do_limit = do_limit, OF rq con this] n
  have w: "shouldRateLimitWorker do_limit request st = make_response (svc ?st) (globalShadowMode (svc ?st)) (zip us sts) ?st"
    by (simp add: Assert_def bind_ret shadow)
  from make_response_runs [OF xs so ok, of "\<lambda>_. False" "svc ?st" ?st] show ?thesis
  proof (cases rule: runs_cases)
    case (returns resp t)
    then show ?thesis by (intro exI [of _ resp] exI [of _ t]) (simp add: ShouldRateLimit_def w)
  qed simp
qed

lemma window_inv_observed:
  "observed s t \<Longrightarrow> window_inv contents this cnt l key n t = window_inv contents this cnt l key n s"
  by (auto simp: observed_def window_inv_def count_of_def)

lemma window_inv_same:
  "same_limit l m \<Longrightarrow> window_inv contents this cnt m key n s = window_inv contents this cnt l key n s"
  by (simp add: window_inv_def same_limit_fields)

lemma observed_now_at: "observed s t \<Longrightarrow> now_at t = now_at s"
  by (auto simp: observed_def)

text \<open>The hypotheses on the service and the descriptor, which every request leaves in force.\<close>

definition enforcing ::
  "(string \<Rightarrow> Unit option) \<Rightarrow> RateLimitConfigToLoad list \<Rightarrow> ManagerImpl \<Rightarrow> bool \<Rightarrow> string \<Rightarrow> Descriptor \<Rightarrow> RateLimit
    \<Rightarrow> 's svc_state \<Rightarrow> bool" where
  "enforcing tbl cs sm merge dn de l st \<longleftrightarrow>
     \<not> globalShadowMode (svc st) \<and> (\<exists>cfg. svc_config (svc st) = Some cfg \<and> in_service tbl cs sm merge cfg) \<and>
     dn \<noteq> '''' \<and> limit_spec tbl cs sm dn de = Some l \<and> \<not> Unlimited l \<and> \<not> ShadowMode l"

lemma service_window_step:
  fixes st :: "('lc, 'r, 'x) redis_state_scheme svc_state"
  assumes laws: "redis_laws rx cnt" and sound: "cache_sound pf contents"
    and stop: "\<not> stopCacheKeyIncrementWhenOverlimit this"
    and st: "enforcing tbl cs sm merge dn de l st" and unit: "UnitToDivider (lim_Unit (Limit l)) = Inr d"
    and rq: "Domain rq = dn" "Descriptors rq = [de]"
    and key: "key = cache_key (baseRateLimiter this) dn now (de, Some l)"
    and win: "\<forall>i. window_start d (now_at (backend st) i) = window_start d now"
    and inv: "window_inv contents this cnt l key sofar (backend st)" and bound: "sofar + unat (hits_of rq) < 2 ^ 32"
  shows "\<exists>resp t. ShouldRateLimit (DoLimit pf rx this) rq st = (Inr (Inr resp), t) \<and>
    OverallCode resp = (if unat (RequestsPerUnit (Limit l)) < sofar + unat (hits_of rq) then OVER_LIMIT else OK) \<and>
    enforcing tbl cs sm merge dn de l t \<and> now_at (backend t) = now_at (backend st) \<and>
    window_inv contents this cnt l key (sofar + unat (hits_of rq)) (backend t)"
proof -
  obtain cfg where cfg: "svc_config (svc st) = Some cfg" "in_service tbl cs sm merge cfg"
    using st by (auto simp: enforcing_def)
  have l: "limit_spec tbl cs sm dn de = Some l" "\<not> Unlimited l" "\<not> ShadowMode l" "\<not> globalShadowMode (svc st)" "dn \<noteq> ''''"
    using st by (auto simp: enforcing_def)
  let ?ws = "wanted tbl cs sm (Domain rq) (Descriptors rq)"
  have ws: "?ws = [Some l]" "replaced_names ?ws = Replaces l" "map unlimited ?ws = [False]"
    using l(1,2) by (simp_all add: wanted_def rq replaced_names_def unlimited_def)
  have "Name l \<notin> set (Replaces l)" by (rule limit_spec_keeps_itself [OF in_service_files_ok [OF cfg(2)] l(1)])
  then have ch: "map (checked (replaced_names ?ws)) ?ws = [Some l]"
    by (simp add: ws(1) replaced_names_def checked_def l(2))
  obtain cfg' ptrs es where con: "constructLimitsToCheck rq (Some cfg) st =
      (Inr (cfg', ptrs, [False]), st\<lparr>svc := (svc st)\<lparr>svc_config := Some cfg'\<rparr>,
         backend := (backend st)\<lparr>stats := stats (backend st) @ es\<rparr>\<rparr>)" (is "_ = (_, ?st)")
    and cfg': "in_service tbl cs sm merge cfg'"
    and lims: "list_all2 (rel_option same_limit) [Some l] (map (deref cfg') ptrs)"
    by (rule constructLimitsToCheck_apply [OF cfg(2) refl, where request = rq and st = st]) (simp only: ws(3) ch that)
  obtain m where m: "map (deref cfg') ptrs = [Some m]" "same_limit l m"
    using lims by (auto simp: list_all2_Cons1 option_rel_Some1)
  have um: "UnitToDivider (lim_Unit (Limit m)) = Inr d" using unit m(2) by (simp add: same_limit_fields)
  then have valid: "valid_unit (lim_Unit (Limit m))" by (auto simp: UnitToDivider_valid)
  have k: "key = cache_key (baseRateLimiter this) dn (now_at (backend ?st) (reads (backend ?st))) (de, Some m)"
    using key win by (simp add: cache_key_Some [OF unit] cache_key_Some [OF um] same_limit_fields [OF m(2)])
  have inv': "window_inv contents this cnt m key sofar (backend ?st)"
    using inv by (simp add: window_inv_same [OF m(2)] window_inv_observed [OF observed_log])
  obtain a s where call: "DoLimit pf rx this rq [Some m] (backend ?st) = (Inr [a], s)"
    and code: "Code a = OVER_LIMIT \<longleftrightarrow> unat (RequestsPerUnit (Limit m)) < sofar + unat (hits_of rq) \<and> \<not> ShadowMode m"
    and after: "window_inv contents this cnt m key (sofar + unat (hits_of rq)) s" "now_at s = now_at (backend ?st)"
    using window_step [OF laws sound stop valid rq k inv' bound] by (elim exE conjE) (rule that)
  have ok: "list_all limit_ok [Some m]" using valid by (simp add: limit_ok_def)
  have so: "list_all2 status_ok [Some m] [a]"
    by (rule runsD [OF redis.do_limit_runs [OF _ ok] call]) (simp add: rq)
  have "\<exists>resp t. ShouldRateLimit (DoLimit pf rx this) rq st = (Inr (Inr resp), t) \<and> svc t = svc ?st \<and>
      observed s (backend t) \<and> response_for (svc ?st) (zip [False] [a]) resp"
    by (rule ShouldRateLimit_answered [where ptrs = ptrs and cfg = cfg' and lims = "[Some m]"])
      (use rq l(5) con call m(1) so ok cfg(1) in \<open>auto dest: arg_cong [of _ _ length]\<close>)
  then obtain resp t where t: "ShouldRateLimit (DoLimit pf rx this) rq st = (Inr (Inr resp), t)" "svc t = svc ?st"
    "observed s (backend t)" "response_for (svc ?st) [(False, a)] resp" by auto
  have "OverallCode resp = (if unat (RequestsPerUnit (Limit l)) < sofar + unat (hits_of rq) then OVER_LIMIT else OK)"
    using t(4) code l(3,4) by (simp add: response_for_def over_limit_def same_limit_fields [OF m(2)])
  moreover have "enforcing tbl cs sm merge dn de l t" using st t(2) cfg' by (simp add: enforcing_def)
  moreover have "now_at (backend t) = now_at (backend st)" using after(2) observed_now_at [OF t(3)] by simp
  moreover have "window_inv contents this cnt l key (sofar + unat (hits_of rq)) (backend t)"
    using after(1) by (simp add: window_inv_observed [OF t(3)] window_inv_same [OF m(2)])
  ultimately show ?thesis using t(1) by blast
qed

lemma service_window_run:
  fixes st :: "('lc, 'r, 'x) redis_state_scheme svc_state"
  assumes laws: "redis_laws rx cnt" and sound: "cache_sound pf contents"
    and stop: "\<not> stopCacheKeyIncrementWhenOverlimit this" and unit: "UnitToDivider (lim_Unit (Limit l)) = Inr d"
    and key: "key = cache_key (baseRateLimiter this) dn now (de, Some l)"
    and "enforcing tbl cs sm merge dn de l st"
    and "\<forall>rq \<in> set rqs. Domain rq = dn \<and> Descriptors rq = [de]"
    and "\<forall>i. window_start d (now_at (backend st) i) = window_start d now"
    and "window_inv contents this cnt l key sofar (backend st)" and "sofar + asked rqs < 2 ^ 32"
  shows "\<exists>resps t. mapM (ShouldRateLimit (DoLimit pf rx this)) rqs st = (Inr (map Inr resps), t) \<and>
    map OverallCode resps = decisions l sofar rqs"
  using assms(6-)
proof (induction rqs arbitrary: st sofar)
  case Nil
  then show ?case by (simp add: prim_simps decisions_def)
next
  case (Cons rq rqs)
  have rq: "Domain rq = dn" "Descriptors rq = [de]" "\<forall>rq \<in> set rqs. Domain rq = dn \<and> Descriptors rq = [de]"
    using Cons.prems(2) by auto
  have b: "sofar + unat (hits_of rq) < 2 ^ 32" "sofar + unat (hits_of rq) + asked rqs < 2 ^ 32"
    using Cons.prems(5) by (simp_all add: asked_def)
  obtain resp t where one: "ShouldRateLimit (DoLimit pf rx this) rq st = (Inr (Inr resp), t)"
    "OverallCode resp = (if unat (RequestsPerUnit (Limit l)) < sofar + unat (hits_of rq) then OVER_LIMIT else OK)"
    "enforcing tbl cs sm merge dn de l t" "now_at (backend t) = now_at (backend st)"
    "window_inv contents this cnt l key (sofar + unat (hits_of rq)) (backend t)"
    using service_window_step [OF laws sound stop Cons.prems(1) unit rq(1,2) key Cons.prems(3,4) b(1)]
    by (elim exE conjE) (rule that)
  obtain resps u where rest: "mapM (ShouldRateLimit (DoLimit pf rx this)) rqs t = (Inr (map Inr resps), u)"
    "map OverallCode resps = decisions l (sofar + unat (hits_of rq)) rqs"
    using Cons.IH [OF one(3) rq(3) _ one(5) b(2)] Cons.prems(3) one(4) by auto
  have "mapM (ShouldRateLimit (DoLimit pf rx this)) (rq # rqs) st = (Inr (map Inr (resp # resps)), u)"
    using one(1) rest(1) by (simp add: monad_simps)
  with one(2) rest(2) show ?case by (intro exI [of _ "resp # resps"] exI [of _ u]) (simp add: decisions_Cons)
qed

section \<open>Properties\<close>

text \<open>
  C1. Limits are enforced. Let the service work with a configuration loaded from files, not in global
  shadow mode, let the files (or an override in the request) give a descriptor a limit that is neither
  unlimited nor in shadow mode, and let a sequence of requests for the descriptor follow while the clock
  stays in one window of the limit, starting with a counter of zero and a local cache without the key,
  and asking for fewer than \<open>2 ^ 32\<close> hits together. Then every request is answered, and the \<open>n\<close>-th is
  answered \<open>OK\<close> exactly when the hits asked for by the first \<open>n\<close> requests, its own included, are within
  the limit of the files.
\<close>

theorem service_enforces_limit:
  fixes st :: "('lc, 'r, 'x) redis_state_scheme svc_state"
  assumes "redis_laws rx cnt" and "cache_sound pf contents" and "\<not> stopCacheKeyIncrementWhenOverlimit this"
    and "svc_config (svc st) = Some cfg" and "in_service tbl cs sm merge cfg" and "\<not> globalShadowMode (svc st)"
    and "limit_spec tbl cs sm dn de = Some l" and "\<not> Unlimited l" and "\<not> ShadowMode l"
    and "UnitToDivider (lim_Unit (Limit l)) = Inr d" and "dn \<noteq> ''''"
    and "\<forall>rq \<in> set rqs. Domain rq = dn \<and> Descriptors rq = [de]"
    and "key = cache_key (baseRateLimiter this) dn now (de, Some l)"
    and "\<forall>i. window_start d (now_at (backend st) i) = window_start d now"
    and "count_of this cnt (backend st) key = 0" and "ck_Key key \<notin> cached contents (localCache (backend st))"
    and "asked rqs < 2 ^ 32"
  shows "\<exists>resps t. mapM (ShouldRateLimit (DoLimit pf rx this)) rqs st = (Inr (map Inr resps), t) \<and>
    length resps = length rqs \<and>
    (\<forall>n < length rqs. OverallCode (resps ! n) =
       (if asked (take (Suc n) rqs) \<le> unat (RequestsPerUnit (Limit l)) then OK else OVER_LIMIT))"
proof -
  have st: "enforcing tbl cs sm merge dn de l st" using assms(4-9,11) by (simp add: enforcing_def)
  have inv: "window_inv contents this cnt l key 0 (backend st)" using assms(15,16) by (simp add: window_inv_def)
  obtain resps t where run: "mapM (ShouldRateLimit (DoLimit pf rx this)) rqs st = (Inr (map Inr resps), t)"
    "map OverallCode resps = decisions l 0 rqs"
    using service_window_run [OF assms(1-3,10,13) st assms(12,14) inv] assms(17) by auto
  have len: "length resps = length rqs" using arg_cong [OF run(2), of length] by (simp add: decisions_def)
  have "OverallCode (resps ! n) = decisions l 0 rqs ! n" if "n < length rqs" for n
    using that len by (simp flip: run(2))
  then show ?thesis using run(1) len by (intro exI [of _ resps] exI [of _ t]) (auto simp: decisions_def)
qed

theorem service_enforces_limit_witness:
  "\<exists>resps t. mapM (ShouldRateLimit (DoLimit set_cache counter_server sample_redis))
      (replicate 3 \<lparr>Domain = ''d'', Descriptors = [sample_request ''c'' ''v1''], HitsAddend = 3\<rparr>)
      (sample_service (Some sample_config) False sample_redis_state) = (Inr (map Inr resps), t) \<and>
    OverallCode (resps ! 1) = OK \<and> OverallCode (resps ! 2) = OVER_LIMIT"
proof -
  let ?rq = "\<lparr>Domain = ''d'', Descriptors = [sample_request ''c'' ''v1''], HitsAddend = 3\<rparr>"
  let ?st = "sample_service (Some sample_config) False sample_redis_state"
  obtain l where l: "limit_spec sample_units [sample_file] (NewStatManager []) ''d'' (sample_request ''c'' ''v1'') = Some l"
    "\<not> Unlimited l" "\<not> ShadowMode l" "UnitToDivider (lim_Unit (Limit l)) = Inr 1" "RequestsPerUnit (Limit l) = 7"
  proof -
    let ?l = "limit_spec sample_units [sample_file] (NewStatManager []) ''d'' (sample_request ''c'' ''v1'')"
    have "?l \<noteq> None" "\<not> Unlimited (the ?l)" "\<not> ShadowMode (the ?l)" "UnitToDivider (lim_Unit (Limit (the ?l))) = Inr 1"
      "RequestsPerUnit (Limit (the ?l)) = 7" by code_simp+
    then show thesis by (intro that [of "the ?l"]) auto
  qed
  have h: "unat (hits_of ?rq) = 3" by (simp add: hits_of_def max_def)
  have asked: "asked (replicate n ?rq) = 3 * n" for n by (induction n) (simp_all add: asked_def h)
  have "\<exists>resps t. mapM (ShouldRateLimit (DoLimit set_cache counter_server sample_redis)) (replicate 3 ?rq) ?st =
      (Inr (map Inr resps), t) \<and> length resps = length (replicate 3 ?rq) \<and>
    (\<forall>n < length (replicate 3 ?rq). OverallCode (resps ! n) =
       (if asked (take (Suc n) (replicate 3 ?rq)) \<le> unat (RequestsPerUnit (Limit l)) then OK else OVER_LIMIT))"
    by (rule service_enforces_limit [OF counter_server_laws set_cache_sound _ _ sample_in_service _ l(1-4), where now = 1234])
      (simp_all add: sample_service_def new_service_def sample_redis_state_def sample_redis_def
        NewFixedRateLimitCacheImpl_def count_of_def cached_def asked)
  then obtain resps t where run: "mapM (ShouldRateLimit (DoLimit set_cache counter_server sample_redis)) (replicate 3 ?rq) ?st =
      (Inr (map Inr resps), t)"
    and codes: "\<And>n. n < 3 \<Longrightarrow> OverallCode (resps ! n) =
       (if asked (take (Suc n) (replicate 3 ?rq)) \<le> 7 then OK else OVER_LIMIT)"
    using l(5) by auto
  have "OverallCode (resps ! 1) = OK" "OverallCode (resps ! 2) = OVER_LIMIT"
    using codes [of 1] codes [of 2] by (simp_all only: take_replicate asked) simp_all
  with run show ?thesis by (intro exI conjI)
qed

end
