(* ===== verification/Service_Updates.thy ===== *)
theory Service_Updates
  imports Service
begin

text \<open>
  Configuration updates of the service (\<open>SetConfig\<close>, \<open>NewService\<close> in \<open>src/service/ratelimit.go\<close>): a
  service that has taken any sequence of events works with the last configuration that loaded, and
  the health checker knows whether it has domains.
\<close>

section \<open>The reference\<close>

type_synonym ('c, 'p, 'i) update = "('c, 'p, 'i) Settings res \<times> rateLimitConfigImpl res"

text \<open>An event that does not bring the process down: settings that can be read, and a configuration or its error.\<close>

definition regular :: "('c, 'p, 'i) update \<Rightarrow> bool" where
  "regular ev = (case ev of (settings, u) \<Rightarrow>
     (\<exists>s. settings = Inr s) \<and> (case u of Inr cfg \<Rightarrow> True | Inl e \<Rightarrow> (\<exists>m. e = RateLimitConfigError m)))"

definition good_updates :: "('c, 'p, 'i) update list \<Rightarrow> (('c, 'p, 'i) Settings \<times> rateLimitConfigImpl) list" where
  "good_updates evs = map (\<lambda>(settings, u). (projr settings, projr u)) (filter (\<lambda>(settings, u). \<not> isl u) evs)"

definition last_config :: "rateLimitConfigImpl option \<Rightarrow> ('c, 'p, 'i) update list \<Rightarrow> rateLimitConfigImpl option" where
  "last_config cfg evs = (if good_updates evs = [] then cfg else Some (snd (last (good_updates evs))))"

definition last_shadow :: "bool \<Rightarrow> ('c, 'p, 'i) update list \<Rightarrow> bool" where
  "last_shadow b evs = (if good_updates evs = [] then b else s_GlobalShadowMode (fst (last (good_updates evs))))"

definition headers_on :: "bool \<Rightarrow> ('c, 'p, 'i) update list \<Rightarrow> bool" where
  "headers_on b evs = (b \<or> (\<exists>(s, cfg) \<in> set (good_updates evs). s_RateLimitResponseHeadersEnabled s))"

section \<open>Lemmas\<close>

lemma apply_settings_simps [simp]:
  "svc_config (apply_settings s this) = svc_config this" "svc_stats (apply_settings s this) = svc_stats this"
  "globalShadowMode (apply_settings s this) = s_GlobalShadowMode s"
  "customHeadersEnabled (apply_settings s this) \<longleftrightarrow> customHeadersEnabled this \<or> s_RateLimitResponseHeadersEnabled s"
  by (simp_all add: apply_settings_def Let_def)

text \<open>The two kinds of events.\<close>

lemma SetConfig_error:
  "SetConfig settings h (Inl (RateLimitConfigError m)) st =
     (Inr (), st\<lparr>backend := (backend st)\<lparr>stats := stats (backend st) @ [CounterInc (ConfigLoadError (svc_stats (svc st)))]\<rparr>\<rparr>)"
  by (simp add: SetConfig_def in_backend_def emit_def monad_simps)

lemma SetConfig_loaded:
  "SetConfig (Inr s) h (Inr cfg) st =
     (Inr (), st\<lparr>svc := apply_settings s ((svc st)\<lparr>svc_config := Some cfg\<rparr>), health := update_health h cfg (health st),
       backend := (backend st)\<lparr>stats := stats (backend st) @ [CounterInc (ConfigLoadSuccess (svc_stats (svc st)))]\<rparr>\<rparr>)"
  by (simp add: SetConfig_def in_backend_def emit_def monad_simps)

text \<open>The health operations the events stand for.\<close>

definition health_ops :: "bool \<Rightarrow> ('c, 'p, 'i) update list \<Rightarrow> health_op list" where
  "health_ops h evs = (if h then map (\<lambda>(s, cfg). if \<not> IsEmptyDomains cfg then OpOk ''config'' else OpFail ''config'')
     (good_updates evs) else [])"

lemma update_health_op:
  "update_health h cfg hc =
     fold apply_op (if h then [if \<not> IsEmptyDomains cfg then OpOk ''config'' else OpFail ''config''] else []) hc"
  by (simp add: update_health_def ConfigHealthComponentName_def)

lemma take_events_result:
  fixes st :: "'x world_scheme svc_state"
  assumes "list_all regular evs"
  shows "\<exists>t es. take_events h evs st = (Inr (), t) \<and>
    svc_config (svc t) = last_config (svc_config (svc st)) evs \<and>
    globalShadowMode (svc t) = last_shadow (globalShadowMode (svc st)) evs \<and>
    customHeadersEnabled (svc t) = headers_on (customHeadersEnabled (svc st)) evs \<and>
    svc_stats (svc t) = svc_stats (svc st) \<and> health t = fold apply_op (health_ops h evs) (health st) \<and>
    stats (backend t) = stats (backend st) @
      map (\<lambda>(s, u). CounterInc (if isl u then ConfigLoadError (svc_stats (svc st)) else ConfigLoadSuccess (svc_stats (svc st)))) evs"
  using assms
proof (induction evs arbitrary: st)
  case Nil
  then show ?case
    by (simp add: take_events_def prim_simps last_config_def last_shadow_def headers_on_def good_updates_def health_ops_def)
next
  case (Cons ev evs)
  obtain r u where ev: "ev = (r, u)" by (cases ev)
  obtain t1 where one: "SetConfig r h u st = (Inr (), t1)"
    and t1: "svc_config (svc t1) = last_config (svc_config (svc st)) [ev]"
      "globalShadowMode (svc t1) = last_shadow (globalShadowMode (svc st)) [ev]"
      "customHeadersEnabled (svc t1) = headers_on (customHeadersEnabled (svc st)) [ev]"
      "svc_stats (svc t1) = svc_stats (svc st)" "health t1 = fold apply_op (health_ops h [ev]) (health st)"
      "stats (backend t1) = stats (backend st) @
         [CounterInc (if isl u then ConfigLoadError (svc_stats (svc st)) else ConfigLoadSuccess (svc_stats (svc st)))]"
  proof (cases u)
    case (Inl e)
    with Cons.prems ev obtain m where "e = RateLimitConfigError m" by (auto simp: regular_def)
    with Inl show thesis
      by (intro that [of "st\<lparr>backend := (backend st)\<lparr>stats := stats (backend st) @
          [CounterInc (ConfigLoadError (svc_stats (svc st)))]\<rparr>\<rparr>"])
        (simp_all add: SetConfig_error ev last_config_def last_shadow_def headers_on_def health_ops_def good_updates_def)
  next
    case (Inr cfg)
    with Cons.prems ev obtain s where "r = Inr s" by (auto simp: regular_def)
    with Inr show thesis
      by (intro that [of "st\<lparr>svc := apply_settings s ((svc st)\<lparr>svc_config := Some cfg\<rparr>),
          health := update_health h cfg (health st), backend := (backend st)\<lparr>stats := stats (backend st) @
          [CounterInc (ConfigLoadSuccess (svc_stats (svc st)))]\<rparr>\<rparr>"])
        (simp_all add: SetConfig_loaded ev last_config_def last_shadow_def headers_on_def health_ops_def good_updates_def
          update_health_op)
  qed
  have tl: "list_all regular evs" using Cons.prems by simp
  have comp: "last_config (last_config c [ev]) evs = last_config c (ev # evs)"
    "last_shadow (last_shadow b [ev]) evs = last_shadow b (ev # evs)"
    "headers_on (headers_on b [ev]) evs = headers_on b (ev # evs)"
    "health_ops h (ev # evs) = health_ops h [ev] @ health_ops h evs" for c b
    by (auto simp: last_config_def last_shadow_def headers_on_def health_ops_def good_updates_def)
  from Cons.IH [OF tl, of t1] one t1 comp show ?case
    by (auto simp: take_events_def ev bind_apply)
qed

section \<open>Properties\<close>

text \<open>
  C10. Updates. A service that starts and takes any sequence of regular events (configurations that
  loaded or failed to) has the last configuration that loaded, or none; failures keep the one in use.
  The shadow mode is the one of the settings at that moment, response headers stay on once they were
  on, every event is counted once, and if health demands a configuration, the service is healthy
  exactly when the configuration in use has a domain.
\<close>

theorem NewService_takes_last_good:
  fixes s :: "'x world_scheme" and events :: "('c, 'p, 'i) update list"
  assumes "evs = (if \<not> forceStart then first # events else events)" and "list_all regular evs"
    and "NewService sm shadow forceStart needConfig first events (NewHealthChecker g name needConfig) s = (r, t)"
  shows "r = Inr () \<and> svc_config (svc t) = last_config None evs \<and>
    globalShadowMode (svc t) = last_shadow shadow evs \<and> customHeadersEnabled (svc t) = headers_on False evs \<and>
    length (stats (backend t)) = length (stats s) + length evs \<and>
    (fst (ServeHTTP (health t)) = 200 \<longleftrightarrow>
      (needConfig \<longrightarrow> (\<exists>cfg. last_config None evs = Some cfg \<and> \<not> IsEmptyDomains cfg)))"
proof -
  let ?ini = "\<lparr>svc = new_service (NewServiceStats sm) shadow, health = NewHealthChecker g name needConfig, backend = s\<rparr>"
  have ini: "svc_config (svc ?ini) = None" "globalShadowMode (svc ?ini) = shadow" "customHeadersEnabled (svc ?ini) = False"
    by (simp_all add: new_service_def)
  have run: "take_events needConfig evs ?ini = (r, t)" using assms(1,3) by (simp add: NewService_def)
  have t: "r = Inr ()" "svc_config (svc t) = last_config None evs" "globalShadowMode (svc t) = last_shadow shadow evs"
      "customHeadersEnabled (svc t) = headers_on False evs"
      "health t = fold apply_op (health_ops needConfig evs) (NewHealthChecker g name needConfig)"
      "length (stats (backend t)) = length (stats s) + length evs"
    using take_events_result [OF assms(2), of needConfig ?ini] run ini by auto
  have other: "component_health True (health_ops needConfig evs) c" if "c \<noteq> ''config''" for c
    using that by (auto simp: component_health_def health_ops_def Let_def filter_empty_conv)
  have cfg: "component_health False (health_ops True evs) ''config'' \<longleftrightarrow>
      (\<exists>cfg. last_config None evs = Some cfg \<and> \<not> IsEmptyDomains cfg)"
  proof -
    have "filter (\<lambda>x. op_component x = ''config'') (health_ops True evs) = health_ops True evs"
      by (auto simp: health_ops_def filter_id_conv)
    then show ?thesis
      by (auto simp: component_health_def Let_def health_ops_def last_config_def last_map split: prod.splits)
  qed
  have "fst (ServeHTTP (health t)) = 200 \<longleftrightarrow>
      (needConfig \<longrightarrow> component_health False (health_ops needConfig evs) ''config'')"
    using health_reports [of "health_ops needConfig evs" g name needConfig] other t(5) by (simp add: Let_def)
  with t cfg show ?thesis by auto
qed

theorem NewService_takes_last_good_witness:
  "\<exists>t. NewService (NewStatManager []) False False True
      (Inr (default_Settings :: (unit, unit, unit) Settings), Inr sample_config)
      [(Inr default_Settings, Inl (RateLimitConfigError ''bad''))]
      (NewHealthChecker [] ''ratelimit'' True) sample_world = (Inr (), t) \<and>
    svc_config (svc t) = Some sample_config \<and> fst (ServeHTTP (health t)) = 200"
proof -
  let ?first = "(Inr (default_Settings :: (unit, unit, unit) Settings), Inr sample_config)"
  let ?evs = "[(Inr default_Settings, Inl (RateLimitConfigError ''bad''))] :: (unit, unit, unit) update list"
  let ?r = "NewService (NewStatManager []) False False True ?first ?evs (NewHealthChecker [] ''ratelimit'' True) sample_world"
  have ok: "list_all regular (?first # ?evs)" by (simp add: regular_def)
  have good: "last_config None (?first # ?evs) = Some sample_config" by (simp add: last_config_def good_updates_def)
  have "\<not> IsEmptyDomains sample_config" by code_simp
  with NewService_takes_last_good [of "?first # ?evs" False ?first ?evs "NewStatManager []" False True "[]"
      "''ratelimit''" sample_world "fst ?r" "snd ?r"] ok good
  have "fst ?r = Inr ()" "svc_config (svc (snd ?r)) = Some sample_config" "fst (ServeHTTP (health (snd ?r))) = 200"
    by auto
  then show ?thesis by (intro exI [of _ "snd ?r"]) (auto simp: prod_eq_iff)
qed

end
