(* ===== verification/Config_Xds.thy ===== *)
theory Config_Xds
  imports Config_Accept
begin

text \<open>
  The second source of configurations and the printed form of a loaded one: the conversion of
  configurations received over xDS into the YAML data model (\<open>src/config/config_xds.go\<close>), and
  \<open>Dump\<close> (\<open>src/config/config_impl.go\<close>).

  The messages of \<open>ratelimit.config.ratelimit.v3\<close> are generated code outside the sources: their
  fields are those the conversion reads, and a unit is the number of its enumeration, whose name
  \<open>Unit.String()\<close> is an argument.
\<close>

section \<open>Messages\<close>

record RateLimitPolicyPb =
  pp_Unit :: int
  pp_RequestsPerUnit :: u32
  pp_Unlimited :: bool
  pp_Name :: string
  pp_Replaces :: "string list"

datatype RateLimitDescriptorPb =
  RateLimitDescriptorPb (dp_Key: string) (dp_Value: string) (dp_RateLimit: "RateLimitPolicyPb option")
    (dp_Descriptors: "RateLimitDescriptorPb list") (dp_ShadowMode: bool) (dp_DetailedMetric: bool)

record RateLimitConfigPb =
  cp_Name :: string
  cp_Domain :: string
  cp_Descriptors :: "RateLimitDescriptorPb list"

section \<open>Conversion\<close>

text \<open>A \<open>yamlReplaces\<close> and a \<open>RateLimitReplace\<close> are their names.\<close>

definition rateLimitReplacesPbToYaml :: "string list \<Rightarrow> string list" where
  "rateLimitReplacesPbToYaml pb = map (\<lambda>r. r) pb"

definition rateLimitPolicyPbToYaml :: "(int \<Rightarrow> string) \<Rightarrow> RateLimitPolicyPb option \<Rightarrow> YamlRateLimit option" where
  "rateLimitPolicyPbToYaml unit_String pb =
     (case pb of None \<Rightarrow> None
      | Some p \<Rightarrow> Some \<lparr>yl_RequestsPerUnit = pp_RequestsPerUnit p, yl_Unit = unit_String (pp_Unit p),
          yl_Unlimited = pp_Unlimited p, yl_Name = pp_Name p,
          yl_Replaces = rateLimitReplacesPbToYaml (pp_Replaces p)\<rparr>)"

fun rateLimitDescriptorPbToYaml :: "(int \<Rightarrow> string) \<Rightarrow> RateLimitDescriptorPb \<Rightarrow> YamlDescriptor" where
  "rateLimitDescriptorPbToYaml unit_String (RateLimitDescriptorPb key value rl subs shadow detailed) =
     YamlDescriptor key value (rateLimitPolicyPbToYaml unit_String rl)
       (map (rateLimitDescriptorPbToYaml unit_String) subs) shadow detailed"

definition rateLimitDescriptorsPbToYaml :: "(int \<Rightarrow> string) \<Rightarrow> RateLimitDescriptorPb list \<Rightarrow> YamlDescriptor list" where
  "rateLimitDescriptorsPbToYaml unit_String pb = map (rateLimitDescriptorPbToYaml unit_String) pb"

definition ConfigXdsProtoToYaml :: "(int \<Rightarrow> string) \<Rightarrow> RateLimitConfigPb \<Rightarrow> YamlRoot" where
  "ConfigXdsProtoToYaml unit_String xdsProto =
     \<lparr>yr_Domain = cp_Domain xdsProto,
      yr_Descriptors = rateLimitDescriptorsPbToYaml unit_String (cp_Descriptors xdsProto)\<rparr>"

section \<open>Dump\<close>

text \<open>The map of children is printed in the order of its association list, one of those Go may use.\<close>

definition dump_limit :: "(Unit \<Rightarrow> string) \<Rightarrow> RateLimit \<Rightarrow> string" where
  "dump_limit Unit_String l =
     FullKey l @ '': unit='' @ Unit_String (lim_Unit (Limit l)) @ '' requests_per_unit=''
       @ FormatNat (unat (RequestsPerUnit (Limit l))) @ '', shadow_mode: ''
       @ (if ShadowMode l then ''true'' else ''false'') @ ''\<newline>''"

fun dump :: "(Unit \<Rightarrow> string) \<Rightarrow> RateLimit list \<Rightarrow> rateLimitDescriptor \<Rightarrow> string" where
  "dump Unit_String h (RateLimitDescriptor ds lim w) =
     (case lim of None \<Rightarrow> '''' | Some a \<Rightarrow> dump_limit Unit_String (h ! a))
       @ concat (map (\<lambda>(k, d). dump Unit_String h d) ds)"

definition Dump :: "(Unit \<Rightarrow> string) \<Rightarrow> rateLimitConfigImpl \<Rightarrow> string" where
  "Dump Unit_String this = concat (map (\<lambda>(k, d). dump Unit_String (limits this) d) (domains this))"

section \<open>A file and its xDS form\<close>

text \<open>
  The messages that carry a configuration file: \<open>number\<close> gives a unit name its number in the
  enumeration of the messages.
\<close>

fun descriptor_to_xds :: "(string \<Rightarrow> int) \<Rightarrow> YamlDescriptor \<Rightarrow> RateLimitDescriptorPb" where
  "descriptor_to_xds number (YamlDescriptor key value rl subs shadow detailed) =
     RateLimitDescriptorPb key value
       (map_option (\<lambda>r. \<lparr>pp_Unit = number (yl_Unit r), pp_RequestsPerUnit = yl_RequestsPerUnit r,
          pp_Unlimited = yl_Unlimited r, pp_Name = yl_Name r, pp_Replaces = yl_Replaces r\<rparr>) rl)
       (map (descriptor_to_xds number) subs) shadow detailed"

definition to_xds :: "(string \<Rightarrow> int) \<Rightarrow> RateLimitConfigToLoad \<Rightarrow> RateLimitConfigPb" where
  "to_xds number c = \<lparr>cp_Name = cl_Name c, cp_Domain = yr_Domain (cl_ConfigYaml c),
     cp_Descriptors = map (descriptor_to_xds number) (yr_Descriptors (cl_ConfigYaml c))\<rparr>"

definition from_xds :: "(int \<Rightarrow> string) \<Rightarrow> RateLimitConfigPb \<Rightarrow> RateLimitConfigToLoad" where
  "from_xds unit_String pb = \<lparr>cl_Name = cp_Name pb, cl_ConfigYaml = ConfigXdsProtoToYaml unit_String pb\<rparr>"

text \<open>The unit a YAML text denotes, unknown texts being \<open>UNKNOWN\<close>.\<close>

definition unit_of :: "(string \<Rightarrow> Unit option) \<Rightarrow> string \<Rightarrow> Unit" where
  "unit_of tbl s = (case tbl (ToUpper s) of None \<Rightarrow> UNKNOWN | Some u \<Rightarrow> u)"

text \<open>The way through the messages spells the units anew and changes nothing else.\<close>

fun respell :: "(string \<Rightarrow> string) \<Rightarrow> YamlDescriptor \<Rightarrow> YamlDescriptor" where
  "respell f (YamlDescriptor key value rl subs shadow detailed) =
     YamlDescriptor key value (map_option (\<lambda>r. r\<lparr>yl_Unit := f (yl_Unit r)\<rparr>) rl) (map (respell f) subs) shadow detailed"

lemma through_xds:
  "rateLimitDescriptorPbToYaml us (descriptor_to_xds number y) = respell (us \<circ> number) y"
  by (induction y) (auto simp: rateLimitPolicyPbToYaml_def rateLimitReplacesPbToYaml_def split: option.splits)

lemma file_through_xds:
  "from_xds us (to_xds number c) = c\<lparr>cl_ConfigYaml := (cl_ConfigYaml c)\<lparr>yr_Descriptors :=
     map (respell (us \<circ> number)) (yr_Descriptors (cl_ConfigYaml c))\<rparr>\<rparr>"
  by (simp add: from_xds_def to_xds_def ConfigXdsProtoToYaml_def rateLimitDescriptorsPbToYaml_def through_xds)

text \<open>Two loads agree when both fail or both give the same.\<close>

definition agree :: "'a res \<Rightarrow> 'a res \<Rightarrow> bool" where
  "agree r r' = (r = r' \<or> isl r \<and> isl r')"

lemma agree_simps [simp]:
  "agree r r" "agree (Inl p) (Inl q)" "agree (Inr x) r \<longleftrightarrow> r = Inr x" "agree (Inl p) r \<longleftrightarrow> isl r"
  "agree r (Inr x) \<longleftrightarrow> r = Inr x" "agree r (Inl p) \<longleftrightarrow> isl r"
  by (auto simp: agree_def)

lemma agree_case: "agree r r' \<Longrightarrow> agree (case r of Inl p \<Rightarrow> Inl p | Inr x \<Rightarrow> g x) (case r' of Inl p \<Rightarrow> Inl p | Inr x \<Rightarrow> g x)"
  by (auto simp: agree_def split: sum.splits)

lemma loadRateLimit_respell:
  assumes "\<And>s. unit_of tbl (f s) = unit_of tbl s"
  shows "agree (loadRateLimit tbl sm cname key (map_option (\<lambda>r. r\<lparr>yl_Unit := f (yl_Unit r)\<rparr>) rl) sh dm h)
    (loadRateLimit tbl sm cname key rl sh dm h)"
proof (cases rl)
  case None
  then show ?thesis by simp
next
  case (Some r)
  have "unit_of tbl (f (yl_Unit r)) = unit_of tbl (yl_Unit r)" by (rule assms)
  then show ?thesis
    unfolding Some loadRateLimit_def Let_def unit_of_def
    by (auto split: option.splits sum.splits)
qed

lemma loadDescriptors_respell:
  assumes "\<And>s. unit_of tbl (f s) = unit_of tbl s"
  shows "agree (loadDescriptors tbl sm cname parent this (map (respell f) ys) h)
    (loadDescriptors tbl sm cname parent this ys h)"
  using assms
proof (induction tbl sm cname parent this ys h rule: loadDescriptors.induct)
  case (1 tbl sm cname parent this h)
  then show ?case by simp
next
  case (2 tbl sm cname parent this k v rl subs sh dm ds h)
  show ?case
  proof (cases "k = '''' \<or> map_of (descriptors this) (finalKey k v) \<noteq> None")
    case True
    then show ?thesis by auto
  next
    case False
    then have kn: "\<not> k = ''''" "\<not> map_of (descriptors this) (finalKey k v) \<noteq> None" by auto
    note one = loadRateLimit_respell [where f = f, OF "2.prems", of sm cname "parent @ finalKey k v" rl sh dm h]
    show ?thesis
    proof (cases "loadRateLimit tbl sm cname (parent @ finalKey k v) rl sh dm h")
      case (Inl p)
      then show ?thesis using one by (auto split: sum.splits)
    next
      case (Inr ph)
      obtain p h1 where ph: "ph = (p, h1)" by (cases ph)
      note sub = "2.IH"(1) [OF kn Inr ph [symmetric] "2.prems"]
      show ?thesis
      proof (cases "loadDescriptors tbl sm cname (parent @ finalKey k v @ ''.'') (RateLimitDescriptor [] p []) subs h1")
        case inl2: (Inl q)
        then show ?thesis using one kn Inr ph sub by (auto split: sum.splits)
      next
        case inr2: (Inr nh)
        obtain nd h2 where nh: "nh = (nd, h2)" by (cases nh)
        from "2.IH"(2) [OF kn Inr ph [symmetric] inr2 nh [symmetric] "2.prems"] one kn Inr ph sub inr2 nh
        show ?thesis by simp
      qed
    qed
  qed
qed

lemma loadConfig_respell:
  assumes "\<And>s. unit_of tbl (us (number s)) = unit_of tbl s"
  shows "agree (loadConfig tbl this (from_xds us (to_xds number c))) (loadConfig tbl this c)"
proof -
  have l: "agree (loadDescriptors tbl sm cname parent d (map (respell (us \<circ> number)) ys) h)
      (loadDescriptors tbl sm cname parent d ys h)" for sm cname parent d ys h
    by (rule loadDescriptors_respell) (simp add: assms)
  let ?c = "from_xds us (to_xds number c)"
  have f: "cl_Name ?c = cl_Name c" "yr_Domain (cl_ConfigYaml ?c) = yr_Domain (cl_ConfigYaml c)"
    "yr_Descriptors (cl_ConfigYaml ?c) = map (respell (us \<circ> number)) (yr_Descriptors (cl_ConfigYaml c))"
    by (simp_all add: file_through_xds)
  show ?thesis
    unfolding loadConfig_def Let_def f
    by (simp add: agree_case [OF l] split: option.split)
qed

lemma loadConfigs_respell:
  assumes "\<And>s. unit_of tbl (us (number s)) = unit_of tbl s"
  shows "agree (loadConfigs tbl this (map (from_xds us \<circ> to_xds number) cs)) (loadConfigs tbl this cs)"
proof (induction cs arbitrary: this)
  case Nil
  then show ?case by simp
next
  case (Cons c cs)
  have "agree (loadConfig tbl this (from_xds us (to_xds number c))) (loadConfig tbl this c)"
    by (rule loadConfig_respell) (rule assms)
  then show ?case using Cons.IH by (auto split: sum.splits)
qed

section \<open>Dump prints the files\<close>

fun yaml_dump :: "(string \<Rightarrow> Unit option) \<Rightarrow> ManagerImpl \<Rightarrow> (Unit \<Rightarrow> string) \<Rightarrow> string \<Rightarrow> YamlDescriptor \<Rightarrow> string" where
  "yaml_dump tbl sm us parent (YamlDescriptor k v rl subs sh dm) =
     (case yaml_limit tbl sm (parent @ finalKey k v) (YamlDescriptor k v rl subs sh dm) of
        None \<Rightarrow> '''' | Some l \<Rightarrow> dump_limit us l)
       @ concat (map (yaml_dump tbl sm us (parent @ finalKey k v @ ''.'')) subs)"

lemma dump_cell: "cell_ok rl c \<Longrightarrow> dump_limit us c = dump_limit us rl"
  by (cases c; cases rl) (auto simp: cell_ok_def dump_limit_def split: if_splits)

lemma dump_mirrors:
  "mirrors tbl sm h parent y d \<Longrightarrow> dump us h d = yaml_dump tbl sm us parent y"
  "mirrors_all tbl sm h parent ys ds \<Longrightarrow>
     concat (map (\<lambda>(k, d). dump us h d) ds) = concat (map (yaml_dump tbl sm us parent) ys)"
proof (induction tbl sm h parent y d and tbl sm h parent ys ds rule: mirrors_mirrors_all.induct)
  case (1 tbl sm h parent k v rl subs sh dm d)
  then show ?case
    by (cases d) (auto simp: limit_mirrors_def dump_cell split: option.splits)
qed auto

text \<open>The roots of a loaded configuration have no limit of their own, and each domain has one root.\<close>

definition roots_ok :: "rateLimitConfigImpl \<Rightarrow> bool" where
  "roots_ok cfg = (distinct (map fst (domains cfg)) \<and> list_all (\<lambda>(k, d). limit d = None) (domains cfg))"

lemma loadDescriptors_root:
  "loadDescriptors tbl sm cname parent this ys h = Inr (d, h') \<Longrightarrow> limit d = limit this"
  by (induction tbl sm cname parent this ys h rule: loadDescriptors.induct) (auto split: if_splits sum.splits)

lemma store_elem: "x \<in> set (store k v m) \<Longrightarrow> x = (k, v) \<or> x \<in> set m"
  by (induction m) (auto split: if_splits)

lemma keys_store: "map fst (store k v m) = (if k \<in> fst ` set m then map fst m else map fst m @ [k])"
proof (induction m)
  case (Cons e m)
  then show ?case by (cases e) auto
qed simp

lemma loadConfig_roots:
  assumes "loadConfig tbl this c = Inr t" and ok: "roots_ok this"
  shows "roots_ok t"
proof -
  obtain d d' h where d: "d = (case map_of (domains this) (yr_Domain (cl_ConfigYaml c)) of
            Some d0 \<Rightarrow> d0 | None \<Rightarrow> RateLimitDescriptor [] None [])"
    and ld: "loadDescriptors tbl (statsManager this) (cl_Name c) (yr_Domain (cl_ConfigYaml c) @ ''.'') d
       (yr_Descriptors (cl_ConfigYaml c)) (limits this) = Inr (d', h)"
    and t: "t = this\<lparr>domains := store (yr_Domain (cl_ConfigYaml c)) d' (domains this), limits := h\<rparr>"
    using assms(1) by (rule loadConfig_cases)
  have "limit d = None"
    using d ok by (auto simp: roots_ok_def list_all_iff split: option.splits dest: map_of_SomeD)
  then have "limit d' = None" using loadDescriptors_root [OF ld] by simp
  with ok show ?thesis by (auto simp: t roots_ok_def keys_store list_all_iff dest!: store_elem)
qed

lemma loadConfigs_roots: "loadConfigs tbl this cs = Inr t \<Longrightarrow> roots_ok this \<Longrightarrow> roots_ok t"
  by (induction cs arbitrary: this) (auto split: sum.splits dest: loadConfig_roots)

lemma in_service_roots: "in_service tbl cs sm merge cfg \<Longrightarrow> roots_ok cfg"
proof (induction rule: in_service.induct)
  case (loaded cfg)
  then show ?case unfolding NewRateLimitConfigImpl_def by (rule loadConfigs_roots) (simp add: roots_ok_def)
next
  case (looked_up cfg domain descriptor p cfg' ev)
  then show ?case using GetLimit_frame [OF looked_up(2)] by (simp add: roots_ok_def)
qed

text \<open>
  What \<open>/rlconfig\<close> shows is what the files say: one line for each limit of each domain, at any time in
  the life of the configuration.
\<close>

lemma Dump_shows_files:
  assumes "in_service tbl cs sm merge cfg"
  shows "Dump us cfg = concat (map (\<lambda>dn. concat (map (yaml_dump tbl sm us (dn @ ''.'')) (yaml_of cs dn)))
      (map fst (domains cfg)))"
    and "set (map fst (domains cfg)) = file_domain ` set cs" and "distinct (map fst (domains cfg))"
proof -
  have mir: "config_mirrors tbl cs cfg" and sm: "statsManager cfg = sm"
    using in_service_mirrors [OF assms] by auto
  have roots: "roots_ok cfg" by (rule in_service_roots [OF assms])
  then show dist: "distinct (map fst (domains cfg))" by (simp add: roots_ok_def)
  have "dump us (limits cfg) d = concat (map (yaml_dump tbl sm us (dn @ ''.'')) (yaml_of cs dn))"
    if "(dn, d) \<in> set (domains cfg)" for dn d
  proof -
    have "map_of (domains cfg) dn = Some d" using dist that by simp
    then have "mirrors_all tbl sm (limits cfg) (dn @ ''.'') (yaml_of cs dn) (descriptors d)"
      using mir [unfolded config_mirrors_def, rule_format, of dn] sm by (simp add: mirrors_level_def)
    moreover have "limit d = None" using roots that by (auto simp: roots_ok_def list_all_iff)
    ultimately show ?thesis using dump_mirrors(2) by (cases d) simp
  qed
  then show "Dump us cfg = concat (map (\<lambda>dn. concat (map (yaml_dump tbl sm us (dn @ ''.'')) (yaml_of cs dn)))
      (map fst (domains cfg)))"
    by (auto simp: Dump_def intro!: arg_cong [of _ _ concat])
  show "set (map fst (domains cfg)) = file_domain ` set cs"
  proof (rule set_eqI)
    fix dn
    have "dn \<in> set (map fst (domains cfg)) \<longleftrightarrow> map_of (domains cfg) dn \<noteq> None" by (simp add: map_of_eq_None_iff)
    then show "dn \<in> set (map fst (domains cfg)) \<longleftrightarrow> dn \<in> file_domain ` set cs"
      using mir [unfolded config_mirrors_def, rule_format, of dn]
      by (cases "map_of (domains cfg) dn") (auto simp: file_domain_def [abs_def])
  qed
qed

section \<open>Properties\<close>

text \<open>
  C31. A configuration file and its xDS form are the same configuration. If the names of the units in
  the messages denote the units the YAML names, then the messages that carry a list of files load
  exactly when the files do, and to the same configuration.
\<close>

theorem xds_same_as_files:
  assumes "\<And>s. unit_of tbl (us (number s)) = unit_of tbl s"
  shows "NewRateLimitConfigImpl tbl (map (from_xds us) (map (to_xds number) cs)) sm merge = Inr cfg \<longleftrightarrow>
    NewRateLimitConfigImpl tbl cs sm merge = Inr cfg"
  using loadConfigs_respell [where us = us and number = number, OF assms]
  unfolding NewRateLimitConfigImpl_def map_map
  by (metis agree_simps(3,5))

definition sample_names :: "int \<Rightarrow> string" where
  "sample_names n = (if n = 1 then ''SECOND'' else if n = 2 then ''MINUTE'' else if n = 3 then ''HOUR''
     else if n = 4 then ''DAY'' else ''UNKNOWN'')"

definition sample_number :: "string \<Rightarrow> int" where
  "sample_number s = (let u = ToUpper s in if u = ''SECOND'' then 1 else if u = ''MINUTE'' then 2
     else if u = ''HOUR'' then 3 else if u = ''DAY'' then 4 else 0)"

theorem xds_same_as_files_witness:
  "NewRateLimitConfigImpl sample_units (map (from_xds sample_names) (map (to_xds sample_number) [sample_file]))
     (NewStatManager []) False = Inr sample_config"
proof -
  have up: "ToUpper ''SECOND'' = ''SECOND''" "ToUpper ''MINUTE'' = ''MINUTE''" "ToUpper ''HOUR'' = ''HOUR''"
    "ToUpper ''DAY'' = ''DAY''" "ToUpper ''UNKNOWN'' = ''UNKNOWN''"
    by code_simp+
  have "unit_of sample_units (sample_names (sample_number s)) = unit_of sample_units s" for s
    by (simp add: unit_of_def sample_names_def sample_number_def Let_def sample_units_def up)
  from xds_same_as_files [where us = sample_names and number = sample_number, OF this] sample_loads
  show ?thesis by blast
qed

end
