(* ===== verification/Providers.thy ===== *)
theory Providers
  imports Config_Xds Settings
begin

text \<open>
  The configuration providers and the certificate provider (\<open>src/provider/\<close>): what they read, what
  they send to the service and to the management server, and which certificate the server shows.
  The connection of the xDS provider, with its goroutines and channels, is in the theory
  \<open>Xds_Connection\<close>.

  Outside the sources: goruntime (the directory watcher: its snapshots and the result of its
  constructor are arguments), the xDS client library (the calls made on it are a log), protobuf and
  YAML decoding. \<open>rlSettings\<close> is what \<open>NewSettings\<close> gives at the moment of the call.
\<close>

section \<open>Package path/filepath\<close>

definition clean_step :: "bool \<Rightarrow> string \<Rightarrow> string list \<Rightarrow> string list" where
  "clean_step rooted c acc =
     (if c = '''' \<or> c = ''.'' then acc
      else if c = ''..'' then
        (case acc of [] \<Rightarrow> if rooted then [] else [c] | x # xs \<Rightarrow> if x = ''..'' then c # acc else xs)
      else c # acc)"

definition filepath_Clean :: "string \<Rightarrow> string" where
  "filepath_Clean p =
     (let rooted = (p \<noteq> [] \<and> hd p = CHR ''/'');
          body = Join (rev (fold (clean_step rooted) (Split p ''/'') [])) ''/''
      in if rooted then ''/'' @ body else if body = [] then ''.'' else body)"

definition filepath_Join :: "string list \<Rightarrow> string" where
  "filepath_Join elems =
     (let es = dropWhile (\<lambda>e. e = '''') elems in if es = [] then '''' else filepath_Clean (Join es ''/''))"

definition filepath_Dir :: "string \<Rightarrow> string" where
  "filepath_Dir p = filepath_Clean (rev (dropWhile (\<lambda>c. c \<noteq> CHR ''/'') (rev p)))"

definition filepath_Base :: "string \<Rightarrow> string" where
  "filepath_Base p =
     (if p = [] then ''.''
      else let q = rev (takeWhile (\<lambda>c. c \<noteq> CHR ''/'') (dropWhile (\<lambda>c. c = CHR ''/'') (rev p)))
           in if q = [] then ''/'' else q)"

section \<open>Recovering from panics\<close>

text \<open>\<open>defer recover\<close>: every panic but the end of the process is handled.\<close>

definition with_recover :: "('s, unit) M \<Rightarrow> (panic \<Rightarrow> ('s, unit) M) \<Rightarrow> ('s, unit) M" where
  "with_recover body handler = (\<lambda>s. case body s of
       (Inr x, t) \<Rightarrow> (Inr x, t)
     | (Inl e, t) \<Rightarrow> (case e of FatalExit _ \<Rightarrow> (Inl e, t) | _ \<Rightarrow> handler e t))"

section \<open>Events and calls\<close>

text \<open>\<open>ConfigUpdateEventImpl\<close> is a configuration or an error; the calls on the xDS client.\<close>

datatype ads_call = Ack | Nack string

record provider_log =
  configUpdateEvents :: "rateLimitConfigImpl res list"
  adsCalls :: "ads_call list"

definition send_event :: "rateLimitConfigImpl res \<Rightarrow> (provider_log, unit) M" where
  "send_event ev = modify (\<lambda>st. st\<lparr>configUpdateEvents := configUpdateEvents st @ [ev]\<rparr>)"

definition ads_do :: "ads_call \<Rightarrow> (provider_log, unit) M" where
  "ads_do c = modify (\<lambda>st. st\<lparr>adsCalls := adsCalls st @ [c]\<rparr>)"

section \<open>The file provider\<close>

text \<open>
  A snapshot is the list of its keys with their contents. \<open>toYaml\<close> is \<open>ConfigFileContentToYaml\<close>
  with the YAML decoder it calls.
\<close>

fun snapshot_files ::
  "(string \<Rightarrow> string \<Rightarrow> YamlRoot res) \<Rightarrow> bool \<Rightarrow> string \<Rightarrow> (string \<times> string) list \<Rightarrow> RateLimitConfigToLoad list res" where
  "snapshot_files toYaml runtimeWatchRoot appDirectory [] = Inr []"
| "snapshot_files toYaml runtimeWatchRoot appDirectory ((key, content) # rest) =
     (if runtimeWatchRoot \<and> \<not> HasPrefix key (appDirectory @ ''.'')
      then snapshot_files toYaml runtimeWatchRoot appDirectory rest
      else res_bind (toYaml key content) (\<lambda>configYaml.
           res_bind (snapshot_files toYaml runtimeWatchRoot appDirectory rest) (\<lambda>files.
           Inr (\<lparr>cl_Name = key, cl_ConfigYaml = configYaml\<rparr> # files))))"

definition load_snapshot ::
  "(string \<Rightarrow> Unit option) \<Rightarrow> (string \<Rightarrow> string \<Rightarrow> YamlRoot res) \<Rightarrow> ('c, 'p, 'i) Settings \<Rightarrow> ManagerImpl
    \<Rightarrow> ('c, 'p, 'i) Settings res \<Rightarrow> (string \<times> string) list \<Rightarrow> rateLimitConfigImpl res" where
  "load_snapshot tbl toYaml settings sm rlSettings snapshot =
     res_bind (snapshot_files toYaml (s_RuntimeWatchRoot settings) (s_RuntimeAppDirectory settings) snapshot) (\<lambda>files.
     res_bind rlSettings (\<lambda>s.
     NewRateLimitConfigImpl tbl files sm (s_MergeDomainConfigurations s)))"

definition sendEvent ::
  "(string \<Rightarrow> Unit option) \<Rightarrow> (string \<Rightarrow> string \<Rightarrow> YamlRoot res) \<Rightarrow> ('c, 'p, 'i) Settings \<Rightarrow> ManagerImpl
    \<Rightarrow> ('c, 'p, 'i) Settings res \<Rightarrow> (string \<times> string) list \<Rightarrow> (provider_log, unit) M" where
  "sendEvent tbl toYaml settings sm rlSettings snapshot =
     with_recover
       (bind (lift_res (load_snapshot tbl toYaml settings sm rlSettings snapshot)) (\<lambda>newConfig.
        send_event (Inr newConfig)))
       (\<lambda>e. send_event (Inl e))"

text \<open>\<open>watch\<close>: one event at the start and one for each runtime update.\<close>

definition watch_files ::
  "(string \<Rightarrow> Unit option) \<Rightarrow> (string \<Rightarrow> string \<Rightarrow> YamlRoot res) \<Rightarrow> ('c, 'p, 'i) Settings \<Rightarrow> ManagerImpl
    \<Rightarrow> (('c, 'p, 'i) Settings res \<times> (string \<times> string) list) list \<Rightarrow> (provider_log, unit) M" where
  "watch_files tbl toYaml settings sm updates =
     forM (\<lambda>(rlSettings, snapshot). sendEvent tbl toYaml settings sm rlSettings snapshot) updates"

text \<open>The arguments of \<open>loader.New2\<close>.\<close>

datatype FileSystemOp = Write | Create | Chmod | Remove

datatype refresher = SymlinkRefresher string | DirectoryRefresher "FileSystemOp list option"

datatype loader_opt = IgnoreDotFiles | AllowDotFiles

record loader_args =
  la_runtimePath :: string
  la_runtimeSubdirectory :: string
  la_scope :: scope
  la_refresher :: refresher
  la_opts :: "loader_opt list"

definition setupRuntime_file :: "(loader_args \<Rightarrow> string + 'rt) \<Rightarrow> ('c, 'p, 'i) Settings \<Rightarrow> 'rt res" where
  "setupRuntime_file New2 s =
     (let loaderOpts = [if s_RuntimeIgnoreDotFiles s then IgnoreDotFiles else AllowDotFiles];
          scope = ScopeWithTags ''runtime'' (s_ExtraTags s);
          args = (if s_RuntimeWatchRoot s
                  then \<lparr>la_runtimePath = s_RuntimePath s, la_runtimeSubdirectory = s_RuntimeSubdirectory s,
                        la_scope = scope, la_refresher = SymlinkRefresher (s_RuntimePath s), la_opts = loaderOpts\<rparr>
                  else \<lparr>la_runtimePath = filepath_Join [s_RuntimePath s, s_RuntimeSubdirectory s],
                        la_runtimeSubdirectory = s_RuntimeAppDirectory s, la_scope = scope,
                        la_refresher = DirectoryRefresher (Some [Remove, Write, Create, Chmod]), la_opts = loaderOpts\<rparr>)
      in case New2 args of Inl err \<Rightarrow> Inl (ErrorPanic err) | Inr runtime \<Rightarrow> Inr runtime)"

text \<open>\<open>NewFileProvider\<close>: the runtime it watches; the goroutine it starts is \<open>watch_files\<close>.\<close>

definition NewFileProvider :: "(loader_args \<Rightarrow> string + 'rt) \<Rightarrow> ('c, 'p, 'i) Settings \<Rightarrow> 'rt res" where
  "NewFileProvider New2 s = setupRuntime_file New2 s"

section \<open>The xDS provider\<close>

text \<open>Decoding and converting the resources of a response, up to the first that fails.\<close>

fun decode_resources ::
  "(int \<Rightarrow> string) \<Rightarrow> ('any \<Rightarrow> string + RateLimitConfigPb) \<Rightarrow> 'any list \<Rightarrow> string + RateLimitConfigToLoad list" where
  "decode_resources us UnmarshalTo [] = Inr []"
| "decode_resources us UnmarshalTo (r # rs) =
     (case UnmarshalTo r of
        Inl err \<Rightarrow> Inl err
      | Inr confPb \<Rightarrow>
          (case decode_resources us UnmarshalTo rs of
             Inl err \<Rightarrow> Inl err
           | Inr conf \<Rightarrow> Inr (\<lparr>cl_Name = cp_Name confPb, cl_ConfigYaml = ConfigXdsProtoToYaml us confPb\<rparr> # conf)))"

text \<open>\<open>Sprint\<close> is \<open>fmt.Sprint\<close> on a recovered value.\<close>

definition sendConfigs ::
  "(string \<Rightarrow> Unit option) \<Rightarrow> (int \<Rightarrow> string) \<Rightarrow> (panic \<Rightarrow> string) \<Rightarrow> ('any \<Rightarrow> string + RateLimitConfigPb) \<Rightarrow> ManagerImpl
    \<Rightarrow> ('c, 'p, 'i) Settings res \<Rightarrow> 'any list \<Rightarrow> (provider_log, unit) M" where
  "sendConfigs tbl us Sprint UnmarshalTo sm rlSettings resources =
     with_recover
       (case decode_resources us UnmarshalTo resources of
          Inl err \<Rightarrow> ads_do (Nack err)
        | Inr conf \<Rightarrow>
            bind (lift_res rlSettings) (\<lambda>s.
            bind (lift_res (NewRateLimitConfigImpl tbl conf sm (s_MergeDomainConfigurations s))) (\<lambda>rlsConf.
            bind (send_event (Inr rlsConf)) (\<lambda>_.
            ads_do Ack))))
       (\<lambda>e. bind (send_event (Inl e)) (\<lambda>_. ads_do (Nack (Sprint e))))"

text \<open>
  \<open>getClientNode\<close>: the identifier and the metadata of the node, a map from keys to string values.
  \<open>SplitN(entry, "=", 2)\<close> cuts at the first \<open>=\<close>.
\<close>

definition node_metadata :: "string \<Rightarrow> (string \<times> string) list" where
  "node_metadata s =
     fold (\<lambda>entry m. case Cut entry ''='' of None \<Rightarrow> m | Some (k, v) \<Rightarrow> store k v m) (Split s '','') []"

definition getClientNode :: "('c, 'p, 'i) Settings \<Rightarrow> string \<times> (string \<times> string) list" where
  "getClientNode s = (s_ConfigGrpcXdsNodeId s, node_metadata (s_ConfigGrpcXdsNodeMetadata s))"

text \<open>
  \<open>getGrpcTransportCredentials\<close>: \<open>None\<close> is \<open>insecure.NewCredentials()\<close>, otherwise the TLS configuration
  with the server name to verify, empty for the name dialled.
\<close>

definition getGrpcTransportCredentials ::
  "('c, 'p, 'i) Settings \<Rightarrow> (('c, 'p) tls_Config option \<times> string) option res" where
  "getGrpcTransportCredentials s =
     (if \<not> s_ConfigGrpcXdsServerUseTls s then Inr None
      else if s_ConfigGrpcXdsServerTlsSAN s \<noteq> '''' then
        (case s_ConfigGrpcXdsTlsConfig s of
           None \<Rightarrow> Inl NilPanic
         | Some c \<Rightarrow> Inr (Some (Some c, s_ConfigGrpcXdsServerTlsSAN s)))
      else Inr (Some (s_ConfigGrpcXdsTlsConfig s, '''')))"

text \<open>
  \<open>getGrpcConnection\<close>: what \<open>grpc.Dial\<close> is given. It waits until the connection stands (\<open>WithBlock\<close>), and
  streams are retried with a linear back-off of the interval of the settings and a jitter of one half.
\<close>

record ('c, 'p) dial_args =
  da_target :: string
  da_credentials :: "(('c, 'p) tls_Config option \<times> string) option"
  da_block :: bool
  da_backoff :: int
  da_jitter :: f64

definition getGrpcConnection ::
  "(('c, 'p) dial_args \<Rightarrow> string + 'conn) \<Rightarrow> ('c, 'p, 'i) Settings \<Rightarrow> (string + 'conn) res" where
  "getGrpcConnection Dial s =
     res_bind (getGrpcTransportCredentials s) (\<lambda>creds.
     Inr (Dial \<lparr>da_target = s_ConfigGrpcXdsServerUrl s, da_credentials = creds, da_block = True,
       da_backoff = s_ConfigGrpcXdsServerConnectRetryInterval s, da_jitter = F64 1 (-1)\<rparr>))"

section \<open>The certificate provider\<close>

record 'c CertProvider =
  cert :: "'c option"
  certDirectory :: string
  cert_file :: string
  key_file :: string

definition GetCertificate :: "'c CertProvider \<Rightarrow> 'c option" where
  "GetCertificate p = cert p"

text \<open>\<open>loaded\<close> is the result of \<open>tls.LoadX509KeyPair\<close> at the moment of the call.\<close>

definition reloadCert :: "string + 'c \<Rightarrow> 'c CertProvider \<Rightarrow> 'c CertProvider res" where
  "reloadCert loaded p =
     (case loaded of
        Inl err \<Rightarrow>
          if cert p = None then Inl (FatalExit ''CertProvider failed to load any certificate, exiting.'')
          else Inr p
      | Inr tlsKeyPair \<Rightarrow> Inr (p\<lparr>cert := Some tlsKeyPair\<rparr>))"

fun watch_cert :: "(string + 'c) list \<Rightarrow> 'c CertProvider \<Rightarrow> 'c CertProvider res" where
  "watch_cert [] p = Inr p"
| "watch_cert (l # ls) p = res_bind (reloadCert l p) (watch_cert ls)"

definition setupRuntime_cert :: "(loader_args \<Rightarrow> string + 'rt) \<Rightarrow> ('c, 'p, 'i) Settings \<Rightarrow> string \<Rightarrow> 'rt res" where
  "setupRuntime_cert New2 s directory =
     (case New2 \<lparr>la_runtimePath = filepath_Dir directory, la_runtimeSubdirectory = filepath_Base directory,
             la_scope = ScopeWithTags ''certs'' (s_ExtraTags s), la_refresher = DirectoryRefresher None,
             la_opts = [IgnoreDotFiles]\<rparr> of
        Inl err \<Rightarrow> Inl (FatalExit (''Failed to set up goruntime loader: '' @ err))
      | Inr runtime \<Rightarrow> Inr runtime)"

definition NewCertProvider ::
  "(loader_args \<Rightarrow> string + 'rt) \<Rightarrow> ('c, 'p, 'i) Settings \<Rightarrow> string + 'c \<Rightarrow> string \<Rightarrow> string \<Rightarrow> 'c CertProvider res" where
  "NewCertProvider New2 s loaded certFile keyFile =
     (if filepath_Dir certFile \<noteq> filepath_Dir keyFile
      then Inl (FatalExit ''certFile and keyFile must be in the same directory'')
      else res_bind (setupRuntime_cert New2 s (filepath_Dir certFile)) (\<lambda>_.
           reloadCert loaded
             \<lparr>cert = None, certDirectory = filepath_Dir certFile, cert_file = certFile, key_file = keyFile\<rparr>))"

section \<open>Lemmas: the xDS provider\<close>

lemma decode_resources_cases:
  "(if list_ex (\<lambda>r. isl (UnmarshalTo r)) rs then isl (decode_resources us UnmarshalTo rs)
    else decode_resources us UnmarshalTo rs = Inr (map (\<lambda>r. from_xds us (projr (UnmarshalTo r))) rs))"
proof (induction rs)
  case (Cons r rs)
  then show ?case
    by (cases "UnmarshalTo r"; cases "decode_resources us UnmarshalTo rs") (auto simp: from_xds_def split: if_splits)
qed simp

text \<open>A panic that is not the end of the process is handled.\<close>

lemma with_recover_simps:
  "body s = (Inr x, t) \<Longrightarrow> with_recover body handler s = (Inr x, t)"
  "body s = (Inl (RateLimitConfigError m), t) \<Longrightarrow> with_recover body handler s = handler (RateLimitConfigError m) t"
  "body s = (Inl (ErrorPanic m), t) \<Longrightarrow> with_recover body handler s = handler (ErrorPanic m) t"
  by (simp_all add: with_recover_def)

lemma load_error: "NewRateLimitConfigImpl tbl cs sm merge = Inl e \<Longrightarrow> \<exists>m. e = RateLimitConfigError m"
  using loadConfigs_error by (fastforce simp: NewRateLimitConfigImpl_def newRateLimitConfigError_def)

text \<open>With TLS in the settings the management server is never dialled in the clear; without it there is no panic.\<close>

lemma getGrpcConnection_credentials:
  "case getGrpcConnection Dial s of
     Inr r \<Rightarrow> \<exists>args. r = Dial args \<and> da_target args = s_ConfigGrpcXdsServerUrl s \<and>
       (da_credentials args = None \<longleftrightarrow> \<not> s_ConfigGrpcXdsServerUseTls s)
   | Inl p \<Rightarrow> p = NilPanic \<and> s_ConfigGrpcXdsServerUseTls s \<and> s_ConfigGrpcXdsTlsConfig s = None"
  by (auto simp: getGrpcConnection_def getGrpcTransportCredentials_def res_bind_def split: option.splits sum.splits)

section \<open>Lemmas: the file provider\<close>

text \<open>The keys of a snapshot that are configuration files.\<close>

definition config_keys :: "bool \<Rightarrow> string \<Rightarrow> (string \<times> string) list \<Rightarrow> (string \<times> string) list" where
  "config_keys watchRoot appDirectory snapshot =
     filter (\<lambda>(k, c). \<not> watchRoot \<or> prefix (appDirectory @ ''.'') k) snapshot"

lemma snapshot_files_error:
  "snapshot_files toYaml watchRoot dir snapshot = Inl e \<Longrightarrow>
   \<exists>(k, c) \<in> set (config_keys watchRoot dir snapshot). toYaml k c = Inl e"
  by (induction snapshot)
    (auto simp: config_keys_def HasPrefix_def res_bind_def split: if_splits sum.splits)

lemma snapshot_files_Inr:
  "snapshot_files toYaml watchRoot dir snapshot = Inr files \<longleftrightarrow>
   map (\<lambda>(k, c). toYaml k c) (config_keys watchRoot dir snapshot) = map (Inr \<circ> cl_ConfigYaml) files \<and>
   map fst (config_keys watchRoot dir snapshot) = map cl_Name files"
proof (induction snapshot arbitrary: files)
  case Nil
  then show ?case by (auto simp: config_keys_def)
next
  case (Cons kc snapshot)
  obtain k c where kc: "kc = (k, c)" by (cases kc)
  show ?case
  proof (cases "watchRoot \<and> \<not> prefix (dir @ ''.'') k")
    case True
    then show ?thesis using Cons.IH by (simp add: kc config_keys_def HasPrefix_def)
  next
    case False
    then have "snapshot_files toYaml watchRoot dir (kc # snapshot) = Inr files \<longleftrightarrow>
        (\<exists>y fs. toYaml k c = Inr y \<and> snapshot_files toYaml watchRoot dir snapshot = Inr fs \<and>
          files = \<lparr>cl_Name = k, cl_ConfigYaml = y\<rparr> # fs)"
      by (auto simp: kc HasPrefix_def res_bind_Inr)
    also have "\<dots> \<longleftrightarrow> (\<exists>f fs. files = f # fs \<and> toYaml k c = Inr (cl_ConfigYaml f) \<and> k = cl_Name f \<and>
          snapshot_files toYaml watchRoot dir snapshot = Inr fs)"
      by (cases files) (simp, rename_tac f fs, case_tac f, auto)
    also have "\<dots> \<longleftrightarrow> map (\<lambda>(k, c). toYaml k c) (config_keys watchRoot dir (kc # snapshot)) = map (Inr \<circ> cl_ConfigYaml) files \<and>
        map fst (config_keys watchRoot dir (kc # snapshot)) = map cl_Name files"
    proof -
      have "config_keys watchRoot dir (kc # snapshot) = (k, c) # config_keys watchRoot dir snapshot"
        using False by (simp add: kc config_keys_def)
      then show ?thesis by (cases files) (simp_all add: Cons.IH conj_ac comp_def)
    qed
    finally show ?thesis .
  qed
qed

lemma validate_error:
  "validateYamlKeys fmt_v name m = Inl p \<Longrightarrow> \<exists>t. p = RateLimitConfigError t"
  "validateYamlValue fmt_v name v = Inl p \<Longrightarrow> \<exists>t. p = RateLimitConfigError t"
  "validateYamlElems fmt_v name es = Inl p \<Longrightarrow> \<exists>t. p = RateLimitConfigError t"
proof (induction fmt_v name m and fmt_v name v and fmt_v name es
    rule: validateYamlKeys_validateYamlValue_validateYamlElems.induct)
  case (2 fmt_v f k v rest)
  then show ?case by (cases k) (auto simp: newRateLimitConfigError_def split: sum.splits if_splits)
next
  case (11 fmt_v f e es)
  then show ?case by (cases e) (auto simp: newRateLimitConfigError_def split: sum.splits)
qed (auto simp: newRateLimitConfigError_def)

lemma ConfigFileContentToYaml_error:
  "ConfigFileContentToYaml fmt_v unmarshal_any unmarshal_root name content = Inl e \<Longrightarrow> \<exists>m. e = RateLimitConfigError m"
  by (auto simp: ConfigFileContentToYaml_def newRateLimitConfigError_def split: sum.splits dest: validate_error)


text \<open>A decoder of files that fails with configuration errors only, as \<open>ConfigFileContentToYaml\<close> does.\<close>

definition config_errors :: "(string \<Rightarrow> string \<Rightarrow> YamlRoot res) \<Rightarrow> bool" where
  "config_errors toYaml = (\<forall>k c e. toYaml k c = Inl e \<longrightarrow> (\<exists>m. e = RateLimitConfigError m))"

lemma config_errors_files: "config_errors (ConfigFileContentToYaml fmt_v unmarshal_any unmarshal_root)"
  using ConfigFileContentToYaml_error by (auto simp: config_errors_def)

text \<open>What a load gives, and that its failure is a configuration error when the settings can be read.\<close>

lemma load_snapshot_error:
  assumes "load_snapshot tbl toYaml settings sm (Inr s) snapshot = Inl e"
    and "config_errors toYaml"
  shows "\<exists>m. e = RateLimitConfigError m"
proof (cases "snapshot_files toYaml (s_RuntimeWatchRoot settings) (s_RuntimeAppDirectory settings) snapshot")
  case (Inl p)
  with assms(1) have "p = e" by (simp add: load_snapshot_def)
  with snapshot_files_error [OF Inl] assms(2) show ?thesis unfolding config_errors_def by blast
next
  case (Inr files)
  with assms(1) show ?thesis by (intro load_error) (simp add: load_snapshot_def)
qed

lemma sendEvent_result:
  assumes "\<And>m. load_snapshot tbl toYaml settings sm rlSettings snapshot \<noteq> Inl (FatalExit m)"
  shows "sendEvent tbl toYaml settings sm rlSettings snapshot st =
    (Inr (), st\<lparr>configUpdateEvents := configUpdateEvents st @ [load_snapshot tbl toYaml settings sm rlSettings snapshot]\<rparr>)"
  using assms
  by (auto simp: sendEvent_def with_recover_def send_event_def monad_simps split: sum.splits panic.splits)

lemma watch_files_result:
  assumes "config_errors toYaml"
  shows "watch_files tbl toYaml settings sm (map (\<lambda>(s, snapshot). (Inr s, snapshot)) updates) st =
    (Inr (), st\<lparr>configUpdateEvents := configUpdateEvents st @
       map (\<lambda>(s, snapshot). load_snapshot tbl toYaml settings sm (Inr s) snapshot) updates\<rparr>)"
proof (induction updates arbitrary: st)
  case Nil
  then show ?case by (simp add: watch_files_def monad_simps)
next
  case (Cons u updates)
  obtain s snapshot where u: "u = (s, snapshot)" by (cases u)
  have "sendEvent tbl toYaml settings sm (Inr s) snapshot st = (Inr (), st\<lparr>configUpdateEvents :=
      configUpdateEvents st @ [load_snapshot tbl toYaml settings sm (Inr s) snapshot]\<rparr>)"
    using load_snapshot_error [OF _ assms] by (intro sendEvent_result) fastforce
  with Cons.IH [unfolded watch_files_def] show ?case by (simp add: watch_files_def u bind_apply)
qed

section \<open>Lemmas: the certificate provider\<close>

definition good_certs :: "(string + 'c) list \<Rightarrow> 'c list" where
  "good_certs ls = map projr (filter (\<lambda>l. \<not> isl l) ls)"

lemma watch_cert_serves:
  "cert p = Some c \<Longrightarrow> \<exists>q. watch_cert ls p = Inr q \<and> cert q = Some (last (c # good_certs ls))"
proof (induction ls arbitrary: p c)
  case Nil
  then show ?case by (simp add: good_certs_def)
next
  case (Cons l ls)
  show ?case
  proof (cases l)
    case (Inl err)
    then show ?thesis using Cons by (simp add: reloadCert_def good_certs_def)
  next
    case (Inr d)
    then show ?thesis using Cons.IH [of "p\<lparr>cert := Some d\<rparr>" d] by (simp add: reloadCert_def good_certs_def)
  qed
qed

section \<open>Properties\<close>

text \<open>
  C17. Every response of the management server is answered. Resources that cannot be decoded are
  refused and change nothing. Otherwise, if the settings can be read, the configuration the resources
  describe is handed to the service and acknowledged exactly when the loader accepts it; if not, the
  service is told the configuration error and the response is refused.
\<close>

theorem sendConfigs_answers:
  fixes s :: "('c, 'p, 'i) Settings"
  shows "let run = sendConfigs tbl us Sprint UnmarshalTo sm (Inr s) resources;
      conf = map (\<lambda>r. from_xds us (projr (UnmarshalTo r))) resources in
    if list_ex (\<lambda>r. isl (UnmarshalTo r)) resources
    then \<exists>err. run st = (Inr (), st\<lparr>adsCalls := adsCalls st @ [Nack err]\<rparr>)
    else if files_ok tbl (s_MergeDomainConfigurations s) conf
    then \<exists>cfg. NewRateLimitConfigImpl tbl conf sm (s_MergeDomainConfigurations s) = Inr cfg \<and>
      run st = (Inr (), st\<lparr>configUpdateEvents := configUpdateEvents st @ [Inr cfg], adsCalls := adsCalls st @ [Ack]\<rparr>)
    else \<exists>m. run st = (Inr (), st\<lparr>configUpdateEvents := configUpdateEvents st @ [Inl (RateLimitConfigError m)],
      adsCalls := adsCalls st @ [Nack (Sprint (RateLimitConfigError m))]\<rparr>)"
proof (cases "list_ex (\<lambda>r. isl (UnmarshalTo r)) resources")
  case True
  with decode_resources_cases [of UnmarshalTo resources us]
  obtain err where "decode_resources us UnmarshalTo resources = Inl err" by (auto simp: isl_def)
  with True show ?thesis
    by (auto simp: Let_def sendConfigs_def with_recover_def ads_do_def monad_simps)
next
  case False
  let ?conf = "map (\<lambda>r. from_xds us (projr (UnmarshalTo r))) resources"
  from False decode_resources_cases [of UnmarshalTo resources us]
  have dec: "decode_resources us UnmarshalTo resources = Inr ?conf" by simp
  let ?load = "NewRateLimitConfigImpl tbl ?conf sm (s_MergeDomainConfigurations s)"
  show ?thesis
  proof (cases ?load)
    case (Inl e)
    then obtain m where "e = RateLimitConfigError m" using load_error by blast
    moreover have "\<not> files_ok tbl (s_MergeDomainConfigurations s) ?conf"
      using Inl load_accepts [of tbl ?conf sm "s_MergeDomainConfigurations s"] by simp
    ultimately show ?thesis
      using False dec Inl
      by (auto simp: Let_def sendConfigs_def with_recover_def send_event_def ads_do_def monad_simps)
  next
    case (Inr cfg)
    moreover have "files_ok tbl (s_MergeDomainConfigurations s) ?conf"
      using Inr load_accepts [of tbl ?conf sm "s_MergeDomainConfigurations s"] by auto
    ultimately show ?thesis
      using False dec
      by (simp add: Let_def sendConfigs_def with_recover_def send_event_def ads_do_def monad_simps)
  qed
qed

text \<open>
  C35. The server always has a certificate. A provider that could be made shows, after any sequence of
  reloads, the key pair of the last reload that succeeded, the one at the start included; a reload that
  fails neither ends the process nor withdraws the certificate.
\<close>

theorem CertProvider_serves_last_good:
  assumes "NewCertProvider New2 s loaded certFile keyFile = Inr p"
  shows "\<exists>q. watch_cert reloads p = Inr q \<and>
    good_certs (loaded # reloads) \<noteq> [] \<and> GetCertificate q = Some (last (good_certs (loaded # reloads)))"
proof -
  obtain c where c: "loaded = Inr c" and "cert p = Some c"
    using assms
    by (auto simp: NewCertProvider_def reloadCert_def res_bind_Inr split: if_splits sum.splits)
  with watch_cert_serves [of p c reloads] show ?thesis
    by (simp add: GetCertificate_def good_certs_def)
qed

theorem CertProvider_serves_last_good_witness:
  "\<exists>p q. NewCertProvider (\<lambda>_. Inr ()) (default_Settings :: (nat, unit, unit) Settings) (Inr 1) ''/certs/tls.crt'' ''/certs/tls.key'' = Inr p \<and>
    watch_cert [Inr 2, Inl ''no such file''] p = Inr q \<and> GetCertificate q = Some (2 :: nat)"
proof -
  let ?new = "NewCertProvider (\<lambda>_. Inr ()) (default_Settings :: (nat, unit, unit) Settings) (Inr (1 :: nat)) ''/certs/tls.crt'' ''/certs/tls.key''"
  have dir: "filepath_Dir ''/certs/tls.crt'' = filepath_Dir ''/certs/tls.key''" by code_simp
  have "\<exists>p. ?new = Inr p"
    by (simp add: NewCertProvider_def setupRuntime_cert_def reloadCert_def dir)
  then obtain p where p: "?new = Inr p" by blast
  from CertProvider_serves_last_good [OF p, of "[Inr 2, Inl ''no such file'']"] p show ?thesis
    by (auto simp: good_certs_def)
qed

end
