(* ===== verification/Provider_Service.thy ===== *)
theory Provider_Service
  imports Providers Service_Updates
begin

text \<open>
  The file provider and the service together: the configuration the service works with after any
  sequence of runtime updates, and what happens when the settings cannot be read during one.
\<close>

section \<open>The reference\<close>

text \<open>An update is the settings in force and the snapshot; it is valid if its configuration loads.\<close>

type_synonym ('c, 'p, 'i) file_update = "('c, 'p, 'i) Settings \<times> (string \<times> string) list"

definition valid_configs ::
  "(string \<Rightarrow> Unit option) \<Rightarrow> (string \<Rightarrow> string \<Rightarrow> YamlRoot res) \<Rightarrow> ('c, 'p, 'i) Settings \<Rightarrow> ManagerImpl
    \<Rightarrow> ('c, 'p, 'i) file_update list \<Rightarrow> rateLimitConfigImpl list" where
  "valid_configs tbl toYaml settings sm updates =
     concat (map (\<lambda>(s, snapshot). case load_snapshot tbl toYaml settings sm (Inr s) snapshot of
        Inl _ \<Rightarrow> [] | Inr cfg \<Rightarrow> [cfg]) updates)"

definition last_option :: "'a list \<Rightarrow> 'a option" where
  "last_option xs = (if xs = [] then None else Some (last xs))"

section \<open>Lemmas\<close>

lemma good_updates_zip:
  "length ss = length rs \<Longrightarrow>
   map snd (good_updates (zip (map Inr ss) rs)) = concat (map (\<lambda>r. case r of Inl _ \<Rightarrow> [] | Inr cfg \<Rightarrow> [cfg]) rs)"
  by (induction ss rs rule: list_induct2) (auto simp: good_updates_def split: sum.splits)

lemma last_config_snd: "last_config None evs = last_option (map snd (good_updates evs))"
  by (auto simp: last_config_def last_option_def last_map)

lemma valid_configs_loads:
  "valid_configs tbl toYaml settings sm updates =
   concat (map (\<lambda>r. case r of Inl _ \<Rightarrow> [] | Inr cfg \<Rightarrow> [cfg])
     (map (\<lambda>(s, snapshot). load_snapshot tbl toYaml settings sm (Inr s) snapshot) updates))"
  by (simp add: valid_configs_def comp_def split_def)

text \<open>A valid configuration serves the files of one of the snapshots.\<close>

lemma valid_configs_in_service:
  assumes "cfg \<in> set (valid_configs tbl toYaml settings sm updates)"
  shows "\<exists>(s, snapshot) \<in> set updates. \<exists>files.
    map (\<lambda>(k, c). toYaml k c) (config_keys (s_RuntimeWatchRoot settings) (s_RuntimeAppDirectory settings) snapshot) =
      map (Inr \<circ> cl_ConfigYaml) files \<and>
    in_service tbl files sm (s_MergeDomainConfigurations s) cfg"
proof -
  from assms obtain s snapshot where u: "(s, snapshot) \<in> set updates"
    and "load_snapshot tbl toYaml settings sm (Inr s) snapshot = Inr cfg"
    by (auto simp: valid_configs_def split: sum.splits)
  then obtain files where
    "snapshot_files toYaml (s_RuntimeWatchRoot settings) (s_RuntimeAppDirectory settings) snapshot = Inr files"
    "NewRateLimitConfigImpl tbl files sm (s_MergeDomainConfigurations s) = Inr cfg"
    by (auto simp: load_snapshot_def res_bind_Inr)
  with u show ?thesis by (auto simp: snapshot_files_Inr intro!: bexI [of _ "(s, snapshot)"] in_service.loaded)
qed

lemma regular_events:
  assumes "config_errors toYaml"
  shows "list_all regular (zip (map Inr ss) (map (\<lambda>(s, snapshot). load_snapshot tbl toYaml settings sm (Inr s) snapshot) updates))"
proof -
  have "regular (Inr s', load_snapshot tbl toYaml settings sm (Inr s) snapshot)" for s' s snapshot
    using load_snapshot_error [OF _ assms]
    by (cases "load_snapshot tbl toYaml settings sm (Inr s) snapshot") (auto simp: regular_def)
  then show ?thesis by (auto simp: list_all_iff elim!: in_set_zipE)
qed

lemma NewSettings_error: "NewSettings pk env = Inl e \<Longrightarrow> \<exists>m. e = ErrorPanic m"
  using NewSettings_checked [of pk env] by simp

lemma forM_append: "forM f (xs @ ys) = bind (forM f xs) (\<lambda>_. forM f ys)"
  by (induction xs) (simp_all add: bind_laws)

lemma take_events_regular: "list_all regular evs \<Longrightarrow> \<exists>t. take_events h evs st = (Inr (), t)"
  using take_events_result [of evs h st] by auto

section \<open>Properties\<close>

text \<open>
  C16. The service follows the files. After any sequence of runtime updates that the provider has seen
  (the first at the start), each read with settings of its moment, the service works with the
  configuration of the last update whose configuration files all parse and load, or with none if there
  was no such update; no update makes the service fail. The configuration in use answers lookups for
  the files of that update.
\<close>

theorem service_follows_files:
  fixes updates :: "('c, 'p, 'i) file_update list" and w :: "'x world_scheme"
  assumes toYaml: "toYaml = ConfigFileContentToYaml fmt_v unmarshal_any unmarshal_root"
    and watch: "watch_files tbl toYaml settings sm (map (\<lambda>(s, snapshot). (Inr s, snapshot)) updates)
      \<lparr>configUpdateEvents = [], adsCalls = []\<rparr> = (u, log)"
    and len: "length ss = length updates"
    and events: "(if \<not> forceStart then first # events else events) = zip (map Inr ss) (configUpdateEvents log)"
    and run: "NewService sm shadow forceStart needConfig first events hc w = (r, t)"
  shows "r = Inr () \<and>
    svc_config (svc t) = last_option (valid_configs tbl toYaml settings sm updates) \<and>
    (\<forall>cfg. svc_config (svc t) = Some cfg \<longrightarrow> (\<exists>(s, snapshot) \<in> set updates. \<exists>files.
      map (\<lambda>(k, c). toYaml k c) (config_keys (s_RuntimeWatchRoot settings) (s_RuntimeAppDirectory settings) snapshot) =
        map (Inr \<circ> cl_ConfigYaml) files \<and>
      in_service tbl files sm (s_MergeDomainConfigurations s) cfg))"
proof -
  have err: "config_errors toYaml" unfolding toYaml by (rule config_errors_files)
  let ?loads = "map (\<lambda>(s, snapshot). load_snapshot tbl toYaml settings sm (Inr s) snapshot) updates"
  let ?evs = "zip (map Inr ss) ?loads"
  have log: "configUpdateEvents log = ?loads" using watch by (auto simp: watch_files_result [OF err])
  have reg: "list_all regular ?evs" by (rule regular_events [OF err])
  have go: "take_events needConfig ?evs
      \<lparr>svc = new_service (NewServiceStats sm) shadow, health = hc, backend = w\<rparr> = (r, t)"
    using run events by (simp add: NewService_def log)
  have rt: "r = Inr ()" "svc_config (svc t) = last_config None ?evs"
    using take_events_result [OF reg, of needConfig
        "\<lparr>svc = new_service (NewServiceStats sm) shadow, health = hc, backend = w\<rparr>"] go
    by (auto simp: new_service_def)
  have cfg: "svc_config (svc t) = last_option (valid_configs tbl toYaml settings sm updates)"
    using rt(2) len by (simp add: last_config_snd good_updates_zip valid_configs_loads)
  moreover have "cfg \<in> set (valid_configs tbl toYaml settings sm updates)" if "svc_config (svc t) = Some cfg" for cfg
    using that calculation by (auto simp: last_option_def split: if_splits)
  ultimately show ?thesis using rt(1) valid_configs_in_service by blast
qed

text \<open>
  A file that is one word long, \<open>good\<close> for a configuration of the domain \<open>d\<close> and anything else for a
  document that cannot be parsed.
\<close>

definition sample_decode :: "string \<Rightarrow> string + YamlRoot" where
  "sample_decode content = (if content = ''good'' then Inr (cl_ConfigYaml sample_file) else Inl ''bad'')"

definition sample_toYaml :: "string \<Rightarrow> string \<Rightarrow> YamlRoot res" where
  "sample_toYaml = ConfigFileContentToYaml (\<lambda>_. '''') (\<lambda>_. Inr []) sample_decode"

definition sample_updates :: "(unit, unit, unit) file_update list" where
  "sample_updates = [(default_Settings, [(''config.f'', ''good''), (''other'', ''bad'')]),
     (default_Settings, [(''config.f'', ''bad'')])]"

lemma default_files:
  "s_RuntimeWatchRoot default_Settings = True" "s_RuntimeAppDirectory default_Settings = ''config''"
  "s_MergeDomainConfigurations default_Settings = False"
  by (simp_all add: default_Settings_def)

lemma sample_valid:
  "valid_configs sample_units sample_toYaml (default_Settings :: (unit, unit, unit) Settings) (NewStatManager []) sample_updates =
     [projr (NewRateLimitConfigImpl sample_units [sample_file\<lparr>cl_Name := ''config.f''\<rparr>] (NewStatManager []) False)]"
proof -
  have good: "snapshot_files sample_toYaml True ''config'' [(''config.f'', ''good''), (''other'', ''bad'')] =
      Inr [sample_file\<lparr>cl_Name := ''config.f''\<rparr>]"
    by code_simp
  have "isl (snapshot_files sample_toYaml True ''config'' [(''config.f'', ''bad'')])" by code_simp
  then obtain e where bad: "snapshot_files sample_toYaml True ''config'' [(''config.f'', ''bad'')] = Inl e"
    by (auto simp: isl_def)
  have "\<not> isl (NewRateLimitConfigImpl sample_units [sample_file\<lparr>cl_Name := ''config.f''\<rparr>] (NewStatManager []) False)"
    by code_simp
  then obtain cfg where "NewRateLimitConfigImpl sample_units [sample_file\<lparr>cl_Name := ''config.f''\<rparr>] (NewStatManager []) False = Inr cfg"
    by (auto simp: isl_def) (metis sum.exhaust_sel)
  with good bad show ?thesis
    by (simp add: valid_configs_def sample_updates_def load_snapshot_def default_files)
qed

theorem service_follows_files_witness:
  "\<exists>t cfg. NewService (NewStatManager []) False False False
      (Inr (default_Settings :: (unit, unit, unit) Settings),
       load_snapshot sample_units sample_toYaml default_Settings (NewStatManager [])
         (Inr (default_Settings :: (unit, unit, unit) Settings)) (snd (sample_updates ! 0)))
      [(Inr default_Settings, load_snapshot sample_units sample_toYaml default_Settings (NewStatManager [])
         (Inr (default_Settings :: (unit, unit, unit) Settings)) (snd (sample_updates ! 1)))]
      (NewHealthChecker [] ''ratelimit'' False) sample_world = (Inr (), t) \<and>
    svc_config (svc t) = Some cfg"
proof -
  let ?S = "default_Settings :: (unit, unit, unit) Settings"
  let ?load = "\<lambda>n. load_snapshot sample_units sample_toYaml ?S (NewStatManager []) (Inr ?S) (snd (sample_updates ! n))"
  let ?r = "NewService (NewStatManager []) False False False (Inr ?S, ?load 0) [(Inr ?S, ?load 1)]
    (NewHealthChecker [] ''ratelimit'' False) sample_world"
  let ?log = "\<lparr>configUpdateEvents = [?load 0, ?load 1], adsCalls = []\<rparr>"
  have err: "config_errors sample_toYaml" unfolding sample_toYaml_def by (rule config_errors_files)
  have w: "watch_files sample_units sample_toYaml ?S (NewStatManager []) (map (\<lambda>(s, snapshot). (Inr s, snapshot)) sample_updates)
      \<lparr>configUpdateEvents = [], adsCalls = []\<rparr> = (Inr (), ?log)"
    by (simp add: watch_files_result [OF err]) (simp add: sample_updates_def)
  have "fst ?r = Inr () \<and> svc_config (svc (snd ?r)) =
      last_option (valid_configs sample_units sample_toYaml ?S (NewStatManager []) sample_updates)"
    using service_follows_files [OF sample_toYaml_def w, of "[?S, ?S]" False "(Inr ?S, ?load 0)" "[(Inr ?S, ?load 1)]"
        False False "NewHealthChecker [] ''ratelimit'' False" sample_world "fst ?r" "snd ?r"]
    by (simp add: sample_updates_def)
  then show ?thesis
    by (intro exI [of _ "snd ?r"]) (auto simp: sample_valid last_option_def prod_eq_iff)
qed

text \<open>
  C36. Settings that cannot be read during a reload end the service. If the configuration files are in
  order but \<open>NewSettings\<close> fails (it reads the TLS files anew), the provider recovers from the panic and
  sends it as an event, and the service, which knows configuration errors only, panics with it.
\<close>

theorem unreadable_settings_end_service:
  fixes updates :: "('c, 'p, 'i) file_update list" and w :: "'x world_scheme"
  assumes toYaml: "toYaml = ConfigFileContentToYaml fmt_v unmarshal_any unmarshal_root"
    and fails: "NewSettings pk env = Inl e"
    and files: "snapshot_files toYaml (s_RuntimeWatchRoot settings) (s_RuntimeAppDirectory settings) snapshot = Inr fs"
    and watch: "watch_files tbl toYaml settings sm
      (map (\<lambda>(s, snapshot). (Inr s, snapshot)) updates @ [(NewSettings pk env, snapshot)])
      \<lparr>configUpdateEvents = [], adsCalls = []\<rparr> = (u, log)"
    and len: "length ss = length updates"
    and events: "(if \<not> forceStart then first # events else events) = zip (map Inr ss @ [s']) (configUpdateEvents log)"
    and run: "NewService sm shadow forceStart needConfig first events hc w = (r, t)"
  shows "u = Inr () \<and> (\<exists>m. e = ErrorPanic m \<and> r = Inl (ErrorPanic m))"
proof -
  have err: "config_errors toYaml" unfolding toYaml by (rule config_errors_files)
  obtain m where m: "e = ErrorPanic m" using NewSettings_error [OF fails] by blast
  let ?loads = "map (\<lambda>(s, snapshot). load_snapshot tbl toYaml settings sm (Inr s) snapshot) updates"
  let ?evs = "zip (map Inr ss) ?loads"
  let ?st = "\<lparr>svc = new_service (NewServiceStats sm) shadow, health = hc, backend = w\<rparr>"
  have last: "load_snapshot tbl toYaml settings sm (NewSettings pk env) snapshot = Inl (ErrorPanic m)"
    by (simp add: load_snapshot_def files fails m)
  have first: "watch_files tbl toYaml settings sm (map (\<lambda>(s, snapshot). (Inr s, snapshot)) updates)
      \<lparr>configUpdateEvents = [], adsCalls = []\<rparr> = (Inr (), \<lparr>configUpdateEvents = ?loads, adsCalls = []\<rparr>)"
    by (simp add: watch_files_result [OF err])
  have "sendEvent tbl toYaml settings sm (NewSettings pk env) snapshot \<lparr>configUpdateEvents = ?loads, adsCalls = []\<rparr> =
      (Inr (), \<lparr>configUpdateEvents = ?loads @ [Inl (ErrorPanic m)], adsCalls = []\<rparr>)"
    by (simp add: sendEvent_result last)
  with watch first have log: "u = Inr ()" "configUpdateEvents log = ?loads @ [Inl (ErrorPanic m)]"
    by (auto simp: watch_files_def forM_append bind_apply prim_simps)
  have reg: "list_all regular ?evs" by (rule regular_events [OF err])
  obtain t1 where t1: "take_events needConfig ?evs ?st = (Inr (), t1)"
    using take_events_regular [OF reg] by blast
  have "take_events needConfig (?evs @ [(s', Inl (ErrorPanic m))]) ?st = (r, t)"
    using run events len by (simp add: NewService_def log)
  then have "r = Inl (ErrorPanic m)"
    using t1 by (auto simp: take_events_def forM_append bind_apply SetConfig_def monad_simps)
  with log m show ?thesis by simp
qed

theorem unreadable_settings_end_service_witness:
  "\<exists>t. NewService (NewStatManager []) False False False
      (Inr (default_Settings :: (unit, unit, unit) Settings), Inl (ErrorPanic ''no such file''))
      [] (NewHealthChecker [] ''ratelimit'' False) sample_world = (Inl (ErrorPanic ''no such file''), t)"
proof -
  let ?S = "default_Settings :: (unit, unit, unit) Settings"
  let ?pk = "undefined :: (unit, unit) pki" and ?env = "Inl ''no such file'' :: string + (unit, unit, unit) Settings"
  let ?r = "NewService (NewStatManager []) False False False (Inr ?S, Inl (ErrorPanic ''no such file''))
    [] (NewHealthChecker [] ''ratelimit'' False) sample_world"
  have fails: "NewSettings ?pk ?env = Inl (ErrorPanic ''no such file'')" by (simp add: NewSettings_def)
  have files: "snapshot_files sample_toYaml (s_RuntimeWatchRoot ?S) (s_RuntimeAppDirectory ?S) [] = Inr []" by simp
  have w: "watch_files sample_units sample_toYaml ?S (NewStatManager [])
      (map (\<lambda>(s, snapshot). (Inr s, snapshot)) [] @ [(NewSettings ?pk ?env, [])]) \<lparr>configUpdateEvents = [], adsCalls = []\<rparr> =
      (Inr (), \<lparr>configUpdateEvents = [Inl (ErrorPanic ''no such file'')], adsCalls = []\<rparr>)"
    by (simp add: watch_files_def sendEvent_result load_snapshot_def fails monad_simps)
  have "fst ?r = Inl (ErrorPanic ''no such file'')"
    using unreadable_settings_end_service [OF sample_toYaml_def fails files w, of "[]" False
        "(Inr ?S, Inl (ErrorPanic ''no such file''))" "[]" "Inr ?S" False False "NewHealthChecker [] ''ratelimit'' False"
        sample_world "fst ?r" "snd ?r"]
    by simp
  then show ?thesis by (intro exI [of _ "snd ?r"]) (auto simp: prod_eq_iff)
qed

end
