(* ===== verification/Xds_Connection.thy ===== *)
theory Xds_Connection
  imports Prelude
begin

text \<open>
  The connection of the xDS provider (\<open>src/provider/xds_grpc_sotw_provider.go\<close>): the goroutine
  \<open>initXdsClient\<close>, the goroutines \<open>watchConfigs\<close> it starts, the callers of \<open>Stop\<close>, and the unbuffered
  channel \<open>connectionRetryChannel\<close> they meet on. A step is what one goroutine does between two points
  where it may wait; a send and its receive are one step.
\<close>

section \<open>Goroutines\<close>

text \<open>
  Where \<open>initXdsClient\<close> is: in \<open>getGrpcConnection\<close>, in the call of \<open>retryGrpcConn\<close> of
  \<open>initializeAndWatch\<close>, receiving at the head of its loop, sleeping, or past the loop.
\<close>

datatype init_pc = Dialing | Retrying | Receiving | Sleeping | Stopped

text \<open>
  Where a \<open>watchConfigs\<close> is: waiting for a response, handing a configuration to the service
  (\<open>sendConfigs\<close>), or in its call of \<open>retryGrpcConn\<close>, after which it returns.
\<close>

datatype watch_pc = Fetching | Sending | WantsRetry

text \<open>\<open>opened\<close> and \<open>closed\<close> count connections, \<open>stoppers\<close> the calls of \<open>Stop\<close> that have not returned.\<close>

record xds =
  init :: init_pc
  conn :: bool
  watchers :: "watch_pc list"
  stoppers :: nat
  opened :: nat
  closed :: nat

definition NewXds :: xds where
  "NewXds = \<lparr>init = Dialing, conn = False, watchers = [], stoppers = 0, opened = 0, closed = 0\<rparr>"

text \<open>\<open>initializeAndWatch\<close> with a connection and with an error.\<close>

definition connected :: "xds \<Rightarrow> xds" where
  "connected st = st\<lparr>init := Receiving, conn := True, watchers := watchers st @ [Fetching], opened := opened st + 1\<rparr>"

definition dial_failed :: "xds \<Rightarrow> xds" where
  "dial_failed st = st\<lparr>init := Retrying\<rparr>"

text \<open>The iteration of \<open>watchConfigs\<close>.\<close>

definition set_watcher :: "nat \<Rightarrow> watch_pc \<Rightarrow> xds \<Rightarrow> xds" where
  "set_watcher i pc st = st\<lparr>watchers := (watchers st)[i := pc]\<rparr>"

section \<open>The channel\<close>

datatype sender = FromInit | FromWatcher nat | FromStop

text \<open>The value a goroutine offers on the channel.\<close>

fun offers :: "xds \<Rightarrow> sender \<Rightarrow> bool option" where
  "offers st FromInit = (if init st = Retrying then Some True else None)"
| "offers st (FromWatcher i) =
     (if i < length (watchers st) \<and> watchers st ! i = WantsRetry then Some True else None)"
| "offers st FromStop = (if stoppers st > 0 then Some False else None)"

text \<open>What the sender does when its value is taken: \<open>initializeAndWatch\<close> returns nil, \<open>watchConfigs\<close> and \<open>Stop\<close> return.\<close>

fun sent :: "sender \<Rightarrow> xds \<Rightarrow> xds" where
  "sent FromInit st = st\<lparr>init := Receiving, conn := False\<rparr>"
| "sent (FromWatcher i) st = st\<lparr>watchers := take i (watchers st) @ drop (Suc i) (watchers st)\<rparr>"
| "sent FromStop st = st\<lparr>stoppers := stoppers st - 1\<rparr>"

text \<open>The body of the loop of \<open>initXdsClient\<close> up to its next wait.\<close>

definition received :: "bool \<Rightarrow> xds \<Rightarrow> xds" where
  "received retryEvent st =
     (let st = (if conn st then st\<lparr>closed := closed st + 1\<rparr> else st) in
      if \<not> retryEvent then st\<lparr>init := Stopped\<rparr> else st\<lparr>init := Sleeping\<rparr>)"

section \<open>Steps\<close>

inductive step :: "xds \<Rightarrow> xds \<Rightarrow> bool" where
  dial: "init st = Dialing \<Longrightarrow> step st (connected st)"
| dial_error: "init st = Dialing \<Longrightarrow> step st (dial_failed st)"
| fetch: "i < length (watchers st) \<Longrightarrow> watchers st ! i = Fetching \<Longrightarrow> step st (set_watcher i Sending st)"
| fetch_error: "i < length (watchers st) \<Longrightarrow> watchers st ! i = Fetching \<Longrightarrow> step st (set_watcher i WantsRetry st)"
| taken: "i < length (watchers st) \<Longrightarrow> watchers st ! i = Sending \<Longrightarrow> step st (set_watcher i Fetching st)"
| wake: "init st = Sleeping \<Longrightarrow> step st (st\<lparr>init := Dialing\<rparr>)"
| stop_called: "step st (st\<lparr>stoppers := stoppers st + 1\<rparr>)"
| communicate: "init st = Receiving \<Longrightarrow> offers st p = Some v \<Longrightarrow> step st (received v (sent p st))"

inductive_cases step_cases: "step st st'"

inductive steps :: "xds \<Rightarrow> xds \<Rightarrow> bool" where
  steps_refl: "steps st st"
| steps_trans: "steps st st1 \<Longrightarrow> step st1 st2 \<Longrightarrow> steps st st2"

definition reachable :: "xds \<Rightarrow> bool" where
  "reachable st = steps NewXds st"

section \<open>Lemmas\<close>

definition xds_inv :: "xds \<Rightarrow> bool" where
  "xds_inv st =
     (opened st = closed st + (if init st = Receiving then 1 else 0) \<and>
      (case init st of
         Receiving \<Rightarrow> conn st \<and> length (watchers st) = 1
       | Stopped \<Rightarrow> length (watchers st) \<le> 1
       | _ \<Rightarrow> watchers st = []))"

lemma xds_inv_New: "xds_inv NewXds"
  by (simp add: xds_inv_def NewXds_def)

lemma sender_cases:
  assumes "init st = Receiving" and "offers st p = Some v"
  obtains i where "p = FromWatcher i" and "v" and "i < length (watchers st)" and "watchers st ! i = WantsRetry"
  | "p = FromStop" and "\<not> v" and "stoppers st > 0"
  using assms by (cases p) (auto split: if_splits)

lemma xds_inv_step: "step st st' \<Longrightarrow> xds_inv st \<Longrightarrow> xds_inv st'"
proof (induction rule: step.induct)
  case (communicate st p v)
  from communicate(1,2) show ?case
  proof (cases rule: sender_cases)
    case (1 i)
    with communicate show ?thesis by (auto simp: xds_inv_def received_def Let_def)
  next
    case 2
    with communicate show ?thesis by (auto simp: xds_inv_def received_def Let_def)
  qed
qed (auto simp: xds_inv_def connected_def dial_failed_def set_watcher_def split: init_pc.splits)

lemma steps_inv: "steps st st' \<Longrightarrow> xds_inv st \<Longrightarrow> xds_inv st'"
  by (induction rule: steps.induct) (auto dest: xds_inv_step)

lemma reachable_inv: "reachable st \<Longrightarrow> xds_inv st"
  unfolding reachable_def using steps_inv xds_inv_New by blast

text \<open>A goroutine that sends on the channel it alone receives from waits for ever.\<close>

lemma stuck_step:
  assumes "step st st'" and "init st = Retrying" and "watchers st = []"
  shows "init st' = Retrying \<and> watchers st' = [] \<and> stoppers st' \<ge> stoppers st \<and> opened st' = opened st"
  using assms by (auto elim!: step_cases)

lemma stuck_steps:
  "steps st st' \<Longrightarrow> init st = Retrying \<Longrightarrow> watchers st = [] \<Longrightarrow>
   init st' = Retrying \<and> watchers st' = [] \<and> stoppers st' \<ge> stoppers st \<and> opened st' = opened st"
proof (induction rule: steps.induct)
  case (steps_trans st st1 st2)
  then show ?case using stuck_step [of st1 st2] by auto
qed simp

lemma stopped_step:
  assumes "step st st'" and "init st = Stopped"
  shows "init st' = Stopped \<and> stoppers st' \<ge> stoppers st \<and> opened st' = opened st"
  using assms by (auto elim!: step_cases simp: set_watcher_def)

lemma stopped_steps:
  "steps st st' \<Longrightarrow> init st = Stopped \<Longrightarrow> init st' = Stopped \<and> stoppers st' \<ge> stoppers st \<and> opened st' = opened st"
proof (induction rule: steps.induct)
  case (steps_trans st st1 st2)
  then show ?case using stopped_step [of st1 st2] by auto
qed simp

lemma one_watcher_failed:
  assumes "xds_inv st" and "init st = Receiving" and "WantsRetry \<in> set (watchers st)"
  shows "watchers st = [WantsRetry]" and "conn st"
  using assms by (auto simp: xds_inv_def length_Suc_conv)

lemma failed_watcher_leaves:
  assumes "init st = Receiving" and "watchers st = [WantsRetry]"
  shows "step st (received True (st\<lparr>watchers := []\<rparr>))"
proof -
  have "step st (received True (sent (FromWatcher 0) st))"
    using assms by (intro communicate) simp_all
  then show ?thesis using assms(2) by simp
qed

section \<open>Properties\<close>

text \<open>
  C18. At any time at most one goroutine watches for configurations, so that configurations reach the
  service in the order in which they were received, and every connection but the one in use has been
  closed; while the provider waits for events it has exactly one connection and one watcher.
\<close>

theorem xds_one_watcher:
  assumes "reachable st"
  shows "length (watchers st) \<le> 1 \<and> opened st = closed st + (if init st = Receiving then 1 else 0) \<and>
    (init st = Receiving \<longrightarrow> conn st \<and> length (watchers st) = 1)"
  using reachable_inv [OF assms] by (auto simp: xds_inv_def split: init_pc.splits)

lemma reachable_connected: "reachable (connected NewXds)"
  unfolding reachable_def
  by (rule steps_trans [OF steps_refl dial]) (simp add: NewXds_def)

theorem xds_one_watcher_witness:
  "length (watchers (connected NewXds)) \<le> 1 \<and> opened (connected NewXds) = closed (connected NewXds) + 1"
  using xds_one_watcher [OF reachable_connected] by (simp add: connected_def)

text \<open>
  C29. A lost connection is replaced. When the watcher has failed to fetch, the provider can close the
  connection, sleep, dial again and watch a new connection; and while the provider waits for events a
  call of \<open>Stop\<close> can return at once.
\<close>

theorem xds_reconnects:
  assumes "reachable st" and "init st = Receiving"
  shows "(WantsRetry \<in> set (watchers st) \<longrightarrow>
      (\<exists>st'. steps st st' \<and> init st' = Receiving \<and> conn st' \<and> watchers st' = [Fetching] \<and>
        opened st' = opened st + 1 \<and> closed st' = closed st + 1)) \<and>
    (stoppers st > 0 \<longrightarrow> (\<exists>st'. step st st' \<and> init st' = Stopped \<and> stoppers st' = stoppers st - 1))"
proof (intro conjI impI)
  assume "WantsRetry \<in> set (watchers st)"
  with assms reachable_inv have w: "watchers st = [WantsRetry]" "conn st" by (auto dest: one_watcher_failed)
  let ?s1 = "received True (st\<lparr>watchers := []\<rparr>)"
  let ?s2 = "?s1\<lparr>init := Dialing\<rparr>"
  have "step st ?s1" by (rule failed_watcher_leaves [OF assms(2) w(1)])
  moreover have "step ?s1 ?s2" by (rule wake) (simp add: received_def Let_def)
  moreover have "step ?s2 (connected ?s2)" by (rule dial) simp
  ultimately have "steps st (connected ?s2)" by (meson steps_refl steps_trans)
  then show "\<exists>st'. steps st st' \<and> init st' = Receiving \<and> conn st' \<and> watchers st' = [Fetching] \<and>
      opened st' = opened st + 1 \<and> closed st' = closed st + 1"
    using w by (intro exI [of _ "connected ?s2"]) (simp add: connected_def received_def Let_def)
next
  assume "stoppers st > 0"
  with assms(2) have "step st (received False (sent FromStop st))" by (intro communicate) simp_all
  then show "\<exists>st'. step st st' \<and> init st' = Stopped \<and> stoppers st' = stoppers st - 1"
    by (intro exI [of _ "received False (sent FromStop st)"]) (simp add: received_def Let_def)
qed

theorem xds_reconnects_witness:
  "\<exists>st st'. reachable st \<and> watchers st = [WantsRetry] \<and> steps st st' \<and> watchers st' = [Fetching] \<and> opened st' = 2"
proof -
  let ?st = "set_watcher 0 WantsRetry (connected NewXds)"
  have "step (connected NewXds) ?st" by (rule fetch_error) (simp_all add: connected_def NewXds_def)
  with reachable_connected have r: "reachable ?st" unfolding reachable_def by (rule steps_trans)
  have w: "init ?st = Receiving" "watchers ?st = [WantsRetry]" "opened ?st = 1"
    by (simp_all add: connected_def set_watcher_def NewXds_def)
  with xds_reconnects [OF r w(1)] obtain st' where "steps ?st st'" "watchers st' = [Fetching]" "opened st' = 2"
    by auto
  with r w show ?thesis by blast
qed

text \<open>
  C30. A connection that cannot be dialled is never retried. Once \<open>getGrpcConnection\<close> has failed, the
  goroutine of the provider sends on the channel that only it receives from: it stays there for ever, no
  connection is opened, no configuration is fetched, and no call of \<open>Stop\<close> returns.
\<close>

theorem xds_dial_error_is_final:
  assumes "reachable st" and "init st = Dialing" and "steps (dial_failed st) st'"
  shows "init st' = Retrying \<and> watchers st' = [] \<and> opened st' = opened st \<and> stoppers st \<le> stoppers st'"
proof -
  have "watchers st = []" using reachable_inv [OF assms(1)] assms(2) by (simp add: xds_inv_def)
  then show ?thesis
    using stuck_steps [OF assms(3)] by (simp add: dial_failed_def)
qed

theorem xds_dial_error_is_final_witness:
  "\<exists>st'. steps (dial_failed NewXds) st' \<and> stoppers st' = 1 \<and> init st' = Retrying \<and> watchers st' = []"
proof -
  let ?st = "(dial_failed NewXds)\<lparr>stoppers := stoppers (dial_failed NewXds) + 1\<rparr>"
  have s: "steps (dial_failed NewXds) ?st" by (rule steps_trans [OF steps_refl stop_called])
  have "reachable NewXds" by (simp add: reachable_def steps_refl)
  from xds_dial_error_is_final [OF this _ s] s show ?thesis
    by (intro exI [of _ ?st]) (simp add: dial_failed_def NewXds_def)
qed

end
