(* ===== verification/Example_Server.thy ===== *)
theory Example_Server
  imports Providers
begin

text \<open>
  The example management server (\<open>examples/xds-sotw-config-server/\<close>): the configuration it serves to the
  xDS provider, its snapshot, and its start. The snapshot cache, the xDS server, gRPC, the network and
  the package \<open>flag\<close> are outside the sources and are arguments; so are the numbers of the units in
  the enumeration of the messages.
\<close>

section \<open>The configuration\<close>

definition policy :: "int \<Rightarrow> u32 \<Rightarrow> string \<Rightarrow> string list \<Rightarrow> RateLimitPolicyPb option" where
  "policy u n name rs =
     Some \<lparr>pp_Unit = u, pp_RequestsPerUnit = n, pp_Unlimited = False, pp_Name = name, pp_Replaces = rs\<rparr>"

text \<open>A policy that sets \<open>Unlimited\<close> only: the other fields have their zero values.\<close>

definition unlimited_policy :: "RateLimitPolicyPb option" where
  "unlimited_policy =
     Some \<lparr>pp_Unit = 0, pp_RequestsPerUnit = 0, pp_Unlimited = True, pp_Name = '''', pp_Replaces = []\<rparr>"

definition makeRlsConfig :: "int \<Rightarrow> int \<Rightarrow> RateLimitConfigPb list" where
  "makeRlsConfig unit_SECOND unit_MINUTE =
    [\<lparr>cp_Name = ''mongo_cps'', cp_Domain = ''mongo_cps'', cp_Descriptors =
       [RateLimitDescriptorPb ''database'' ''users'' (policy unit_SECOND 500 '''' []) [] False False,
        RateLimitDescriptorPb ''database'' ''default'' (policy unit_SECOND 500 '''' []) [] False False]\<rparr>,
     \<lparr>cp_Name = ''rl'', cp_Domain = ''rl'', cp_Descriptors =
       [RateLimitDescriptorPb ''category'' ''account'' (policy unit_MINUTE 4 '''' [''bkthomps'', ''fake_name'']) [] False False,
        RateLimitDescriptorPb ''source_cluster'' ''proxy'' None
          [RateLimitDescriptorPb ''destination_cluster'' ''bkthomps'' (policy unit_MINUTE 2 '''' [''bkthomps'']) [] False False,
           RateLimitDescriptorPb ''destination_cluster'' ''mock'' (policy unit_MINUTE 1 '''' []) [] False False,
           RateLimitDescriptorPb ''destination_cluster'' ''override'' (policy unit_MINUTE 2 '''' [''banned_limit'']) [] False False,
           RateLimitDescriptorPb ''destination_cluster'' ''fake'' (policy unit_MINUTE 2 ''fake_name'' []) [] False False]
          False False,
        RateLimitDescriptorPb ''foo'' '''' (policy unit_MINUTE 2 '''' [])
          [RateLimitDescriptorPb ''bar'' '''' (policy unit_MINUTE 3 '''' []) [] False True,
           RateLimitDescriptorPb ''bar'' ''bkthomps'' (policy unit_MINUTE 1 ''bkthomps'' []) [] False False,
           RateLimitDescriptorPb ''bar'' ''banned'' (policy unit_MINUTE 0 ''banned_limit'' []) [] False False,
           RateLimitDescriptorPb ''baz'' '''' (policy unit_SECOND 1 '''' []) [] False False,
           RateLimitDescriptorPb ''baz'' ''not-so-shady'' (policy unit_MINUTE 3 '''' []) [] False False,
           RateLimitDescriptorPb ''baz'' ''shady'' (policy unit_MINUTE 3 '''' []) [] True False,
           RateLimitDescriptorPb ''bay'' '''' unlimited_policy [] False False]
          False False,
        RateLimitDescriptorPb ''qux'' '''' unlimited_policy [] False False]\<rparr>]"

text \<open>
  What is used of the control plane library: the type of the resources, the numbers of the units, and
  what \<open>NewSnapshot\<close>, \<open>Consistent\<close>, \<open>SetSnapshot\<close> and the formatting (\<open>%+v\<close>, \<open>%q\<close>) do.
\<close>

record ('snap, 'cache) control_plane =
  RateLimitConfigType :: string
  unit_SECOND :: int
  unit_MINUTE :: int
  NewSnapshot :: "string \<Rightarrow> (string \<times> RateLimitConfigPb list) list \<Rightarrow> 'snap \<times> string option"
  Consistent :: "'snap \<Rightarrow> string option"
  NewSnapshotCache :: 'cache
  SetSnapshot :: "string \<Rightarrow> 'snap \<Rightarrow> 'cache \<Rightarrow> string + 'cache"
  show_snapshot :: "'snap \<Rightarrow> string"
  quoted :: "string \<Rightarrow> string"

text \<open>The snapshot, under the type of the rate limit configurations; the error of \<open>NewSnapshot\<close> is dropped.\<close>

definition GenerateSnapshot :: "('snap, 'cache) control_plane \<Rightarrow> 'snap" where
  "GenerateSnapshot cp =
     (let (snap, _) = NewSnapshot cp ''1'' [(RateLimitConfigType cp, makeRlsConfig (unit_SECOND cp) (unit_MINUTE cp))] in snap)"

section \<open>The process\<close>

text \<open>The lines it logs, and the server it serves on a listener, if it gets there.\<close>

record ('g, 'lis) example_process =
  lines :: "string list"
  serving :: "('g \<times> 'lis) option"

definition Printf :: "string \<Rightarrow> (('g, 'lis) example_process, unit) M" where
  "Printf line = modify (\<lambda>st. st\<lparr>lines := lines st @ [line]\<rparr>)"

text \<open>The logger; the arguments of a line are already formatted into it.\<close>

record Logger =
  Debug :: bool

definition Debugf :: "Logger \<Rightarrow> string \<Rightarrow> (('g, 'lis) example_process, unit) M" where
  "Debugf logger line = (if Debug logger then Printf (''[DEBUG] '' @ line @ ''\<newline>'') else ret ())"

definition Infof :: "Logger \<Rightarrow> string \<Rightarrow> (('g, 'lis) example_process, unit) M" where
  "Infof logger line = Printf (''[INFO]'' @ line @ ''\<newline>'')"

definition Warnf :: "Logger \<Rightarrow> string \<Rightarrow> (('g, 'lis) example_process, unit) M" where
  "Warnf logger line = Printf (''[WARN] '' @ line @ ''\<newline>'')"

definition Errorf :: "Logger \<Rightarrow> string \<Rightarrow> (('g, 'lis) example_process, unit) M" where
  "Errorf logger line = Printf (''[ERROR]'' @ line @ ''\<newline>'')"

text \<open>The options of the gRPC server, times in seconds.\<close>

record grpc_options =
  MaxConcurrentStreams :: nat
  KeepaliveTime :: int
  KeepaliveTimeout :: int
  KeepaliveMinTime :: int
  PermitWithoutStream :: bool

definition RunServer_options :: grpc_options where
  "RunServer_options = \<lparr>MaxConcurrentStreams = 1000000, KeepaliveTime = 30, KeepaliveTimeout = 5,
     KeepaliveMinTime = 30, PermitWithoutStream = True\<rparr>"

text \<open>\<open>Serve\<close> serves until it ends, with an error or without.\<close>

definition RunServer ::
  "(grpc_options \<Rightarrow> 'g) \<Rightarrow> (string \<Rightarrow> string \<Rightarrow> string + 'lis) \<Rightarrow> ('g \<Rightarrow> 'srv \<Rightarrow> 'g) \<Rightarrow> ('g \<Rightarrow> 'lis \<Rightarrow> string option)
    \<Rightarrow> 'srv \<Rightarrow> nat \<Rightarrow> (('g, 'lis) example_process, unit) M" where
  "RunServer NewServer Listen Register Serve srv port =
     (let grpcServer = NewServer RunServer_options in
      case Listen ''tcp'' ('':'' @ FormatNat port) of
        Inl err \<Rightarrow> bind (Printf err) (\<lambda>_. raise (FatalExit err))
      | Inr lis \<Rightarrow>
          (let grpcServer = Register grpcServer srv in
           bind (Printf (''Management server listening on '' @ FormatNat port @ ''\<newline>'')) (\<lambda>_.
           bind (modify (\<lambda>st. st\<lparr>serving := Some (grpcServer, lis)\<rparr>)) (\<lambda>_.
           case Serve grpcServer lis of
             None \<Rightarrow> ret ()
           | Some err \<Rightarrow> Printf err))))"

text \<open>The flags, with the values they have if they are not given.\<close>

record example_flags =
  logger :: Logger
  port :: nat
  nodeID :: string

definition default_flags :: example_flags where
  "default_flags = \<lparr>logger = \<lparr>Debug = False\<rparr>, port = 18000, nodeID = ''test-node-id''\<rparr>"

definition example_main ::
  "('snap, 'cache) control_plane \<Rightarrow> ('cache \<Rightarrow> bool \<Rightarrow> 'srv)
    \<Rightarrow> ('srv \<Rightarrow> nat \<Rightarrow> (('g, 'lis) example_process, unit) M) \<Rightarrow> example_flags \<Rightarrow> (('g, 'lis) example_process, unit) M" where
  "example_main cp NewServer run flags =
     (let cache = NewSnapshotCache cp; snapshot = GenerateSnapshot cp in
      case Consistent cp snapshot of
        Some err \<Rightarrow>
          bind (Errorf (logger flags) (''Snapshot is inconsistent: '' @ show_snapshot cp snapshot @ ''\<newline>'' @ err)) (\<lambda>_.
          raise (FatalExit err))
      | None \<Rightarrow>
          bind (Debugf (logger flags) (''Will serve snapshot '' @ show_snapshot cp snapshot)) (\<lambda>_.
          case SetSnapshot cp (nodeID flags) snapshot cache of
            Inl err \<Rightarrow>
              bind (Errorf (logger flags) (''Snapshot error '' @ quoted cp err @ '' for '' @ show_snapshot cp snapshot)) (\<lambda>_.
              raise (FatalExit err))
          | Inr cache \<Rightarrow> run (NewServer cache (Debug (logger flags))) (port flags)))"

section \<open>Lemmas\<close>

text \<open>
  The process serves exactly when the snapshot is consistent, the cache takes it under the node of the
  flags and the port can be listened on, and then it serves that cache; otherwise it exits.
\<close>

lemma example_main_outcome:
  assumes "serving st = None" and run: "run = RunServer NewGrpc Listen Register Serve"
  shows "case example_main cp NewServer run flags st of
      (Inl p, t) \<Rightarrow> (\<exists>err. p = FatalExit err) \<and> serving t = None \<and>
        (Consistent cp (GenerateSnapshot cp) \<noteq> None \<or> isl (SetSnapshot cp (nodeID flags) (GenerateSnapshot cp) (NewSnapshotCache cp)) \<or>
         isl (Listen ''tcp'' ('':'' @ FormatNat (port flags))))
    | (Inr _, t) \<Rightarrow> \<exists>cache lis. Consistent cp (GenerateSnapshot cp) = None \<and>
        SetSnapshot cp (nodeID flags) (GenerateSnapshot cp) (NewSnapshotCache cp) = Inr cache \<and>
        Listen ''tcp'' ('':'' @ FormatNat (port flags)) = Inr lis \<and>
        serving t = Some (Register (NewGrpc RunServer_options) (NewServer cache (Debug (logger flags))), lis)"
  using assms(1)
  by (auto simp: run example_main_def RunServer_def Errorf_def Debugf_def Printf_def Let_def monad_simps
      split: option.splits sum.splits prod.splits)

text \<open>Without flags and settings, the service looks for its management server where the example listens.\<close>

lemma example_default_address:
  "s_ConfigGrpcXdsServerUrl default_Settings = ''localhost'' @ '':'' @ FormatNat (port default_flags)"
proof -
  have "FormatNat 18000 = ''18000''" by (simp add: FormatNat.simps digit_char_def) code_simp
  then show ?thesis by (simp add: default_Settings_def default_flags_def)
qed

text \<open>The files the messages of the example stand for.\<close>

abbreviation (input) example_files :: "(int \<Rightarrow> string) \<Rightarrow> int \<Rightarrow> int \<Rightarrow> RateLimitConfigToLoad list" where
  "example_files us sec mnt \<equiv> map (from_xds us) (makeRlsConfig sec mnt)"

lemmas example_simps = finalKey_def composite_def makeRlsConfig_def policy_def unlimited_policy_def from_xds_def ConfigXdsProtoToYaml_def
  rateLimitDescriptorsPbToYaml_def rateLimitPolicyPbToYaml_def rateLimitReplacesPbToYaml_def

lemma example_files_ok:
  assumes "tbl (ToUpper (us sec)) = Some SECOND" and "tbl (ToUpper (us mnt)) = Some MINUTE"
    and "tbl (ToUpper (us 0)) \<in> {None, Some UNKNOWN}"
  shows "files_ok tbl merge (example_files us sec mnt)"
  using assms by (simp add: files_ok_def file_domain_def yaml_of_def rate_limit_ok_def example_simps)

text \<open>A limit as the example writes it: requests, unit, name, replaced names, unlimited, shadow mode, detailed metric.\<close>

type_synonym limit_row = "nat \<times> Unit \<times> string \<times> string list \<times> bool \<times> bool \<times> bool"

definition limit_view :: "RateLimit option \<Rightarrow> limit_row option" where
  "limit_view lim = map_option (\<lambda>l. (unat (RequestsPerUnit (Limit l)), lim_Unit (Limit l), Name l, Replaces l,
     Unlimited l, ShadowMode l, DetailedMetric l)) lim"

definition asked :: "(string \<times> string) list \<Rightarrow> Descriptor" where
  "asked es = \<lparr>Entries = map (\<lambda>(k, v). \<lparr>en_Key = k, en_Value = v\<rparr>) es, de_Limit = None\<rparr>"

definition view_of :: "(string \<Rightarrow> Unit option) \<Rightarrow> YamlDescriptor list \<Rightarrow> (string \<times> string) list \<Rightarrow> limit_row option" where
  "view_of tbl ys es = Option.bind (yaml_lookup '''' ys (Entries (asked es))) (\<lambda>(k, y).
     map_option (\<lambda>rl. (unat (yl_RequestsPerUnit rl), unit_of tbl (yl_Unit rl), yl_Name rl, yl_Replaces rl,
       yl_Unlimited rl, yd_ShadowMode y, yd_DetailedMetric y)) (yd_RateLimit y))"

lemma yaml_lookup_parent:
  "map_option snd (yaml_lookup parent ys es) = map_option snd (yaml_lookup parent' ys es)"
proof (induction es arbitrary: parent parent' ys)
  case (Cons e es)
  then show ?case by (cases "yaml_find ys e") auto
qed simp

lemma detail_detailed: "DetailedMetric (detail sm k rl) = DetailedMetric rl"
  by (simp add: detail_def)

lemma limit_view_spec:
  assumes "list_ex (\<lambda>c. yr_Domain (cl_ConfigYaml c) = domain) cs"
  shows "limit_view (limit_spec tbl cs sm domain (asked es)) = view_of tbl (yaml_of cs domain) es"
proof -
  let ?l = "\<lambda>p. yaml_lookup p (yaml_of cs domain) (Entries (asked es))"
  from yaml_lookup_parent [of "domain @ ''.''" "yaml_of cs domain" "Entries (asked es)" "''''"] assms show ?thesis
    by (cases "?l (domain @ ''.'')"; cases "?l ''''")
      (auto simp: limit_view_def limit_spec_def view_of_def yaml_limit_def asked_def unit_of_def NewRateLimit_def detail_detailed option.map_comp comp_def)
qed

lemmas view_simps = view_of_def asked_def yaml_of_def yaml_find_def unit_of_def example_simps

text \<open>All limits of the example, and what they are asked by.\<close>

definition example_table :: "(string \<times> (string \<times> string) list \<times> limit_row option) list" where
  "example_table =
    [(''mongo_cps'', [(''database'', ''users'')], Some (500, SECOND, '''', [], False, False, False)),
     (''mongo_cps'', [(''database'', ''default'')], Some (500, SECOND, '''', [], False, False, False)),
     (''rl'', [(''category'', ''account'')], Some (4, MINUTE, '''', [''bkthomps'', ''fake_name''], False, False, False)),
     (''rl'', [(''source_cluster'', ''proxy'')], None),
     (''rl'', [(''source_cluster'', ''proxy''), (''destination_cluster'', ''bkthomps'')], Some (2, MINUTE, '''', [''bkthomps''], False, False, False)),
     (''rl'', [(''source_cluster'', ''proxy''), (''destination_cluster'', ''mock'')], Some (1, MINUTE, '''', [], False, False, False)),
     (''rl'', [(''source_cluster'', ''proxy''), (''destination_cluster'', ''override'')], Some (2, MINUTE, '''', [''banned_limit''], False, False, False)),
     (''rl'', [(''source_cluster'', ''proxy''), (''destination_cluster'', ''fake'')], Some (2, MINUTE, ''fake_name'', [], False, False, False)),
     (''rl'', [(''foo'', ''any'')], Some (2, MINUTE, '''', [], False, False, False)),
     (''rl'', [(''foo'', ''any''), (''bar'', ''any'')], Some (3, MINUTE, '''', [], False, False, True)),
     (''rl'', [(''foo'', ''any''), (''bar'', ''bkthomps'')], Some (1, MINUTE, ''bkthomps'', [], False, False, False)),
     (''rl'', [(''foo'', ''any''), (''bar'', ''banned'')], Some (0, MINUTE, ''banned_limit'', [], False, False, False)),
     (''rl'', [(''foo'', ''any''), (''baz'', ''any'')], Some (1, SECOND, '''', [], False, False, False)),
     (''rl'', [(''foo'', ''any''), (''baz'', ''not-so-shady'')], Some (3, MINUTE, '''', [], False, False, False)),
     (''rl'', [(''foo'', ''any''), (''baz'', ''shady'')], Some (3, MINUTE, '''', [], False, True, False)),
     (''rl'', [(''foo'', ''any''), (''bay'', ''any'')], Some (0, UNKNOWN, '''', [], True, False, False)),
     (''rl'', [(''qux'', ''any'')], Some (0, UNKNOWN, '''', [], True, False, False))]"

lemma example_views:
  assumes "tbl (ToUpper (us sec)) = Some SECOND" and "tbl (ToUpper (us mnt)) = Some MINUTE"
    and "tbl (ToUpper (us 0)) \<in> {None, Some UNKNOWN}"
  shows "\<forall>(dn, es, row) \<in> set example_table. view_of tbl (yaml_of (example_files us sec mnt) dn) es = row"
  using assms by (auto simp: example_table_def view_simps fits_def ends_with_star_def)

section \<open>The example is served\<close>

text \<open>
  The resources the example management server puts into its snapshot, sent to the xDS provider of the
  service, are accepted: whatever the settings, the provider passes on one configuration and
  acknowledges it. Lookups in that configuration, at any later time, find exactly the rows of the table.
\<close>

lemma example_configuration_served:
  fixes s :: "('c, 'p, 'i) Settings" and cp :: "('snap, 'cache) control_plane"
  defines "pbs \<equiv> makeRlsConfig (unit_SECOND cp) (unit_MINUTE cp)"
  assumes tbl: "tbl (ToUpper (us (unit_SECOND cp))) = Some SECOND" "tbl (ToUpper (us (unit_MINUTE cp))) = Some MINUTE"
    "tbl (ToUpper (us 0)) \<in> {None, Some UNKNOWN}"
    and any: "\<forall>pb \<in> set pbs. UnmarshalTo (Any pb) = Inr pb"
  shows "\<exists>cfg. sendConfigs tbl us Sprint UnmarshalTo sm (Inr s) (map Any pbs) st =
      (Inr (), st\<lparr>configUpdateEvents := configUpdateEvents st @ [Inr cfg], adsCalls := adsCalls st @ [Ack]\<rparr>) \<and>
    in_service tbl (map (from_xds us) pbs) sm (s_MergeDomainConfigurations s) cfg \<and>
    (\<forall>cfg'. in_service tbl (map (from_xds us) pbs) sm (s_MergeDomainConfigurations s) cfg' \<longrightarrow>
      (\<forall>(dn, es, row) \<in> set example_table.
        case GetLimit cfg' dn (asked es) of (p, cfg'', _) \<Rightarrow> limit_view (deref cfg'' p) = row))"
proof -
  let ?files = "map (from_xds us) pbs" and ?m = "s_MergeDomainConfigurations s"
  have dec: "decode_resources us UnmarshalTo (map Any ps) = Inr (map (from_xds us) ps)"
    if "\<forall>pb \<in> set ps. UnmarshalTo (Any pb) = Inr pb" for ps
    using that by (induction ps) (simp_all add: from_xds_def)
  have "files_ok tbl ?m ?files" unfolding pbs_def by (rule example_files_ok [OF tbl])
  then obtain cfg where cfg: "NewRateLimitConfigImpl tbl ?files sm ?m = Inr cfg"
    using load_accepts [of tbl ?files sm ?m] by blast
  have send: "sendConfigs tbl us Sprint UnmarshalTo sm (Inr s) (map Any pbs) st =
      (Inr (), st\<lparr>configUpdateEvents := configUpdateEvents st @ [Inr cfg], adsCalls := adsCalls st @ [Ack]\<rparr>)"
    by (simp add: sendConfigs_def dec [OF any] cfg with_recover_def send_event_def ads_do_def monad_simps)
  have known: "list_ex (\<lambda>c. yr_Domain (cl_ConfigYaml c) = dn) ?files" if "(dn, es, row) \<in> set example_table" for dn es row
    using that by (auto simp: example_table_def pbs_def makeRlsConfig_def from_xds_def ConfigXdsProtoToYaml_def)
  have found: "case GetLimit cfg' dn (asked es) of (p, cfg'', _) \<Rightarrow> limit_view (deref cfg'' p) = row"
    if srv: "in_service tbl ?files sm ?m cfg'" and row: "(dn, es, row) \<in> set example_table" for cfg' dn es row
  proof -
    obtain p cfg'' ev where g: "GetLimit cfg' dn (asked es) = (p, cfg'', ev)" by (cases "GetLimit cfg' dn (asked es)")
    have "view_of tbl (yaml_of ?files dn) es = row"
      using example_views [of tbl us, OF tbl, folded pbs_def] row by fast
    then show ?thesis using g GetLimit_refines [OF srv g] limit_view_spec [OF known [OF row]] by simp
  qed
  have "\<forall>(dn, es, row) \<in> set example_table. case GetLimit cfg' dn (asked es) of (p, cfg'', _) \<Rightarrow> limit_view (deref cfg'' p) = row"
    if "in_service tbl ?files sm ?m cfg'" for cfg'
    using found [OF that] by (intro ballI) (clarify, fastforce)
  then show ?thesis using send loaded [OF cfg] by blast
qed

end
