(* ===== verification/Commands.thy ===== *)
theory Commands
  imports Providers Service
begin

text \<open>
  The command line tools: the client (\<open>src/client_cmd/main.go\<close>), with its parser of descriptors, and
  the configuration checker (\<open>src/config_check_cmd/main.go\<close>). The flags are given as parsed by the
  package \<open>flag\<close>; dialling, the remote call and the file system are arguments.
\<close>

section \<open>Descriptors on the command line\<close>

fun parse_pairs :: "string list \<Rightarrow> string + Entry list" where
  "parse_pairs [] = Inr []"
| "parse_pairs (pair # pairs) =
     (let parts = Split pair ''='' in
      if length parts \<noteq> 2 then Inl ''invalid descriptor list''
      else case parse_pairs pairs of
             Inl err \<Rightarrow> Inl err
           | Inr entries \<Rightarrow> Inr (\<lparr>en_Key = parts ! 0, en_Value = parts ! 1\<rparr> # entries))"

definition Set :: "string \<Rightarrow> Descriptor list \<Rightarrow> string option \<times> Descriptor list" where
  "Set arg this =
     (case parse_pairs (Split arg '','') of
        Inl err \<Rightarrow> (Some err, this)
      | Inr entries \<Rightarrow> (None, this @ [\<lparr>Entries = entries, de_Limit = None\<rparr>]))"

definition String :: "Descriptor list \<Rightarrow> string" where
  "String this =
     concat (map (\<lambda>descriptor. ''['' @ concat (map (\<lambda>entry.
        '' <key='' @ en_Key entry @ '', value='' @ en_Value entry @ ''> '') (Entries descriptor)) @ ''] '') this)"

section \<open>The client\<close>

record client_flags =
  dial_string :: string
  cf_domain :: string
  cf_descriptors :: "Descriptor list"
  oltp_protocol :: string
  grpc_server_ca_file :: string
  grpc_use_tls :: bool
  grpc_cert_file :: string
  grpc_key_file :: string

text \<open>The values of flags that are not given.\<close>

definition default_client_flags :: client_flags where
  "default_client_flags = \<lparr>dial_string = ''localhost:8081'', cf_domain = '''', cf_descriptors = [], oltp_protocol = '''',
     grpc_server_ca_file = '''', grpc_use_tls = False, grpc_cert_file = '''', grpc_key_file = ''''\<rparr>"

text \<open>\<open>InitTracerProvider\<close>: \<open>new_exporter\<close> makes the exporter of a protocol.\<close>

definition InitTracerProvider :: "(string \<Rightarrow> string + 'tp) \<Rightarrow> string \<Rightarrow> 'tp res" where
  "InitTracerProvider new_exporter protocol =
     (if protocol = ''http'' \<or> protocol = ''grpc''
      then case new_exporter protocol of
             Inl err \<Rightarrow> Inl (FatalExit (''creating OTLP trace exporter: '' @ err))
           | Inr tp \<Rightarrow> Inr tp
      else Inl (StringPanic ''Invalid otlptrace client protocol''))"

text \<open>What the client ends with: an error text and exit status 1, or the response.\<close>

definition client_main ::
  "(string \<Rightarrow> string + 'tp) \<Rightarrow> ('c, 'p) pki \<Rightarrow> (string \<Rightarrow> ('c, 'p) tls_Config option \<Rightarrow> string + 'conn)
    \<Rightarrow> ('conn \<Rightarrow> RateLimitRequest \<Rightarrow> string + RateLimitResponse) \<Rightarrow> client_flags
    \<Rightarrow> (string + RateLimitResponse) res" where
  "client_main new_exporter pk Dial call f =
     res_bind (if oltp_protocol f \<noteq> '''' then res_bind (InitTracerProvider new_exporter (oltp_protocol f)) (\<lambda>_. Inr ())
               else Inr ()) (\<lambda>_.
     res_bind (if grpc_use_tls f
               then res_bind (TlsConfigFromFiles pk (grpc_cert_file f) (grpc_key_file f) (grpc_server_ca_file f)
                      ServerCA False) (\<lambda>tlsConfig. Inr (Some tlsConfig))
               else Inr None) (\<lambda>credentials.
     case Dial (dial_string f) credentials of
       Inl err \<Rightarrow> Inr (Inl (''error connecting: '' @ err))
     | Inr conn \<Rightarrow>
         (case call conn \<lparr>Domain = cf_domain f, Descriptors = cf_descriptors f, HitsAddend = 1\<rparr> of
            Inl err \<Rightarrow> Inr (Inl (''request error: '' @ err))
          | Inr response \<Rightarrow> Inr (Inr response))))"

section \<open>The configuration checker\<close>

text \<open>
  The result is the exit status after a normal end or \<open>os.Exit\<close>, or the panic that ends the process.
  \<open>loadConfigs\<close> recovers from errors; a panic with another value makes its type assertion panic.
\<close>

definition check_loadConfigs ::
  "(string \<Rightarrow> Unit option) \<Rightarrow> ('c, 'p, 'i) Settings res \<Rightarrow> RateLimitConfigToLoad list \<Rightarrow> bool \<Rightarrow> nat res" where
  "check_loadConfigs tbl rlSettings allConfigs merge =
     (case res_bind rlSettings (\<lambda>s. NewRateLimitConfigImpl tbl allConfigs (NewStatManager (s_ExtraTags s)) merge) of
        Inr _ \<Rightarrow> Inr 0
      | Inl p \<Rightarrow>
          (case p of
             RateLimitConfigError _ \<Rightarrow> Inr 1
           | RedisError _ \<Rightarrow> Inr 1
           | ServiceError _ \<Rightarrow> Inr 1
           | MemcacheError _ \<Rightarrow> Inr 1
           | ErrorPanic _ \<Rightarrow> Inr 1
           | NilPanic \<Rightarrow> Inr 1
           | StringPanic _ \<Rightarrow> Inl p
           | AssertPanic \<Rightarrow> Inl p
           | FatalExit _ \<Rightarrow> Inl p))"

text \<open>The loop over the files: \<open>Inl\<close> is a panic, \<open>Inr None\<close> an exit with status 1.\<close>

fun check_read ::
  "(string \<Rightarrow> string + string) \<Rightarrow> (string \<Rightarrow> string \<Rightarrow> YamlRoot res) \<Rightarrow> string \<Rightarrow> string list
    \<Rightarrow> RateLimitConfigToLoad list option res" where
  "check_read read toYaml configDirectory [] = Inr (Some [])"
| "check_read read toYaml configDirectory (file # files) =
     (let finalPath = filepath_Join [configDirectory, file] in
      case read finalPath of
        Inl err \<Rightarrow> Inr None
      | Inr bytes \<Rightarrow>
          res_bind (toYaml finalPath bytes) (\<lambda>configYaml.
          res_bind (check_read read toYaml configDirectory files) (\<lambda>rest.
          Inr (map_option (\<lambda>cs. \<lparr>cl_Name = finalPath, cl_ConfigYaml = configYaml\<rparr> # cs) rest))))"

definition config_check_main ::
  "(string \<Rightarrow> Unit option) \<Rightarrow> (string \<Rightarrow> string + string list) \<Rightarrow> (string \<Rightarrow> string + string)
    \<Rightarrow> (string \<Rightarrow> string \<Rightarrow> YamlRoot res) \<Rightarrow> ('c, 'p, 'i) Settings res \<Rightarrow> string \<Rightarrow> bool \<Rightarrow> nat res" where
  "config_check_main tbl ReadDir read toYaml rlSettings configDirectory merge =
     (case ReadDir configDirectory of
        Inl err \<Rightarrow> Inr 1
      | Inr files \<Rightarrow>
          res_bind (check_read read toYaml configDirectory files) (\<lambda>configs.
          case configs of
            None \<Rightarrow> Inr 1
          | Some allConfigs \<Rightarrow> check_loadConfigs tbl rlSettings allConfigs merge))"

section \<open>Lemmas\<close>

text \<open>Texts and entries without the two separators, and the text of an entry.\<close>

definition plain_entries :: "Entry list \<Rightarrow> bool" where
  "plain_entries es = (es \<noteq> [] \<and>
     list_all (\<lambda>e. CHR '','' \<notin> set (en_Key e @ en_Value e) \<and> CHR ''='' \<notin> set (en_Key e @ en_Value e)) es)"

definition print_entry :: "Entry \<Rightarrow> string" where
  "print_entry e = en_Key e @ ''='' @ en_Value e"

lemma Split_pieces: "x \<in> set (Split s [c]) \<Longrightarrow> c \<notin> set x"
proof (induction "length s" arbitrary: s rule: less_induct)
  case less
  show ?case
  proof (cases "c \<in> set s")
    case False
    with less.prems show ?thesis by (simp add: Split_none)
  next
    case True
    then obtain a b where s: "s = a @ c # b" and "c \<notin> set a" by (meson split_list_first)
    with less.prems less.hyps [of b] show ?thesis by (auto simp: Split_char)
  qed
qed

lemma Split_two: "length (Split s [c]) = 2 \<longleftrightarrow> (\<exists>a b. s = a @ c # b \<and> c \<notin> set a \<and> c \<notin> set b)"
proof
  assume len: "length (Split s [c]) = 2"
  then obtain a b where ab: "Split s [c] = [a, b]" by (auto simp: numeral_2_eq_2 length_Suc_conv)
  with Split_pieces [of _ s c] Join_Split [of s "[c]"] show "\<exists>a b. s = a @ c # b \<and> c \<notin> set a \<and> c \<notin> set b" by auto
qed (auto simp: Split_char Split_none)

lemma parse_pairs_iff:
  "parse_pairs ps = Inr es \<longleftrightarrow>
     map print_entry es = ps \<and> list_all (\<lambda>e. CHR ''='' \<notin> set (en_Key e @ en_Value e)) es"
proof (induction ps arbitrary: es)
  case (Cons p ps)
  show ?case
  proof (cases "length (Split p ''='') = 2")
    case True
    then obtain a b where p: "p = a @ CHR ''='' # b" "CHR ''='' \<notin> set a" "CHR ''='' \<notin> set b"
      using Split_two by blast
    then have s: "Split p ''='' = [a, b]" by (simp add: Split_char Split_none)
    have one: "print_entry e = p \<and> CHR ''='' \<notin> set (en_Key e @ en_Value e) \<longleftrightarrow> e = \<lparr>en_Key = a, en_Value = b\<rparr>" for e
    proof
      assume "print_entry e = p \<and> CHR ''='' \<notin> set (en_Key e @ en_Value e)"
      then have "en_Key e @ CHR ''='' # en_Value e = a @ CHR ''='' # b" and "CHR ''='' \<notin> set (en_Key e)"
        using p by (auto simp: print_entry_def)
      then have "en_Key e = a \<and> en_Value e = b" using p(2) Cut_char by (metis option.inject prod.inject)
      then show "e = \<lparr>en_Key = a, en_Value = b\<rparr>" by (cases e) simp
    qed (use p in \<open>simp add: print_entry_def\<close>)
    show ?thesis
    proof (cases es)
      case Nil
      then show ?thesis by (auto simp: s Let_def split: sum.splits)
    next
      case es: (Cons e es')
      have "parse_pairs (p # ps) = Inr es \<longleftrightarrow> e = \<lparr>en_Key = a, en_Value = b\<rparr> \<and> parse_pairs ps = Inr es'"
        by (cases "parse_pairs ps") (auto simp: s Let_def es)
      also have "\<dots> \<longleftrightarrow> map print_entry es = p # ps \<and> list_all (\<lambda>e. CHR ''='' \<notin> set (en_Key e @ en_Value e)) es"
        unfolding one [symmetric] Cons.IH es by auto
      finally show ?thesis .
    qed
  next
    case False
    then have "print_entry e \<noteq> p" if "CHR ''='' \<notin> set (en_Key e @ en_Value e)" for e
      using that Split_two [of p "CHR ''=''"] by (auto simp: print_entry_def)
    with False show ?thesis by (cases es) (auto simp: Let_def)
  qed
qed auto

lemma check_read_error:
  "config_errors toYaml \<Longrightarrow> check_read read toYaml dir files = Inl e \<Longrightarrow> \<exists>m. e = RateLimitConfigError m"
  by (induction files)
    (auto simp: Let_def res_bind_def config_errors_def split: sum.splits)

text \<open>Without flags the client dials the local server in the clear and asks about no descriptor.\<close>

lemma client_without_flags:
  "client_main new_exporter pk Dial call default_client_flags =
     Inr (case Dial ''localhost:8081'' None of
            Inl err \<Rightarrow> Inl (''error connecting: '' @ err)
          | Inr conn \<Rightarrow>
              (case call conn \<lparr>Domain = '''', Descriptors = [], HitsAddend = 1\<rparr> of
                 Inl err \<Rightarrow> Inl (''request error: '' @ err)
               | Inr response \<Rightarrow> Inr response))"
  by (simp add: client_main_def default_client_flags_def res_bind_def split: sum.split)

section \<open>Properties\<close>

text \<open>
  C39. Descriptors on the command line are read back as they are written: \<open>Set\<close> accepts a text exactly
  when it is the list of \<open>key=value\<close> pairs, joined by commas, of some entries that are free of both
  separators, and then adds these entries as one descriptor.
\<close>

theorem Set_reads_entries:
  "Set arg ds = (None, ds') \<longleftrightarrow>
     (\<exists>es. plain_entries es \<and> Join (map print_entry es) '','' = arg \<and> ds' = ds @ [\<lparr>Entries = es, de_Limit = None\<rparr>])"
proof -
  have "Split arg '','' = map print_entry es \<and> list_all (\<lambda>e. CHR ''='' \<notin> set (en_Key e @ en_Value e)) es \<longleftrightarrow>
      plain_entries es \<and> Join (map print_entry es) '','' = arg" for es
  proof
    assume l: "Split arg '','' = map print_entry es \<and> list_all (\<lambda>e. CHR ''='' \<notin> set (en_Key e @ en_Value e)) es"
    then have "es \<noteq> []" using Split_ne [of arg "'',''"] by auto
    moreover have "CHR '','' \<notin> set (print_entry e)" if "e \<in> set es" for e
      using l that Split_pieces [of "print_entry e" arg "CHR '',''"] by simp
    moreover have "Join (map print_entry es) '','' = arg" using l Join_Split by metis
    ultimately show "plain_entries es \<and> Join (map print_entry es) '','' = arg"
      using l by (auto simp: plain_entries_def print_entry_def list_all_iff)
  next
    assume r: "plain_entries es \<and> Join (map print_entry es) '','' = arg"
    then have "Split (Join (map print_entry es) '','') '','' = map print_entry es"
      by (intro Split_Join_char) (auto simp: plain_entries_def print_entry_def list_all_iff)
    with r show "Split arg '','' = map print_entry es \<and> list_all (\<lambda>e. CHR ''='' \<notin> set (en_Key e @ en_Value e)) es"
      by (auto simp: plain_entries_def list_all_iff)
  qed
  then have eq: "parse_pairs (Split arg '','') = Inr es \<longleftrightarrow> plain_entries es \<and> Join (map print_entry es) '','' = arg" for es
    unfolding parse_pairs_iff by (metis (no_types))
  show ?thesis
  proof (cases "parse_pairs (Split arg '','')")
    case (Inl e)
    then show ?thesis using eq by (auto simp: Set_def)
  next
    case (Inr es)
    then have es: "plain_entries es" "Join (map print_entry es) '','' = arg" using eq [of es] by simp_all
    show ?thesis
    proof
      assume "Set arg ds = (None, ds')"
      with Inr es show "\<exists>es. plain_entries es \<and> Join (map print_entry es) '','' = arg \<and> ds' = ds @ [\<lparr>Entries = es, de_Limit = None\<rparr>]"
        by (intro exI [of _ es]) (simp add: Set_def)
    next
      assume "\<exists>es. plain_entries es \<and> Join (map print_entry es) '','' = arg \<and> ds' = ds @ [\<lparr>Entries = es, de_Limit = None\<rparr>]"
      then obtain x where "parse_pairs (Split arg '','') = Inr x" and "ds' = ds @ [\<lparr>Entries = x, de_Limit = None\<rparr>]"
        using eq by blast
      then show "Set arg ds = (None, ds')" by (simp add: Set_def)
    qed
  qed
qed

text \<open>
  The verdict of the configuration checker is that of the loader, except that a file that cannot be
  parsed ends the checker with the panic itself: only \<open>loadConfigs\<close> recovers.
\<close>

lemma config_check_verdict:
  fixes s :: "('c, 'p, 'i) Settings"
  assumes "ReadDir dir = Inr files" and "config_errors toYaml"
  shows "case check_read read toYaml dir files of
      Inl e \<Rightarrow> config_check_main tbl ReadDir read toYaml (Inr s) dir merge = Inl e \<and> (\<exists>m. e = RateLimitConfigError m)
    | Inr None \<Rightarrow> config_check_main tbl ReadDir read toYaml (Inr s) dir merge = Inr 1
    | Inr (Some cs) \<Rightarrow> config_check_main tbl ReadDir read toYaml (Inr s) dir merge =
        Inr (if files_ok tbl merge cs then 0 else 1)"
proof (cases "check_read read toYaml dir files")
  case (Inl e)
  then show ?thesis using assms check_read_error by (auto simp: config_check_main_def)
next
  case (Inr c)
  show ?thesis
  proof (cases c)
    case None
    then show ?thesis using Inr assms(1) by (simp add: config_check_main_def)
  next
    case (Some cs)
    show ?thesis
    proof (cases "NewRateLimitConfigImpl tbl cs (NewStatManager (s_ExtraTags s)) merge")
      case inl: (Inl p)
      then obtain m where "p = RateLimitConfigError m" using load_error by blast
      moreover have "\<not> files_ok tbl merge cs" using inl load_accepts [of tbl cs _ merge] by (metis sum.distinct(1))
      ultimately show ?thesis using Some Inr inl assms(1) by (simp add: config_check_main_def check_loadConfigs_def)
    next
      case inr: (Inr cfg)
      then have "files_ok tbl merge cs" using load_accepts by blast
      then show ?thesis using Some Inr inr assms(1) by (simp add: config_check_main_def check_loadConfigs_def)
    qed
  qed
qed

end
