(* ===== verification/Metrics.thy ===== *)
theory Metrics
  imports Utils
begin

text \<open>
  Metrics of the server: the gRPC interceptor (\<open>src/metrics/\<close>) and the gauges of the local cache
  (\<open>src/limiter/local_cache_stats.go\<close>). What the interceptor measures, in milliseconds, and the
  statistics freecache keeps are arguments.
\<close>

section \<open>The interceptor\<close>

definition splitMethodName :: "string \<Rightarrow> string \<times> string" where
  "splitMethodName fullMethodName =
     (case Cut (TrimPrefix fullMethodName ''/'') ''/'' of
        Some (service, method) \<Rightarrow> (service, method)
      | None \<Rightarrow> (''unknown'', ''unknown''))"

record serverMetrics =
  totalRequests :: metric
  responseTime :: metric

definition newServerMetrics :: "scope \<Rightarrow> string \<Rightarrow> serverMetrics" where
  "newServerMetrics scope fullMethod =
     (let methodName = snd (splitMethodName fullMethod) in
      \<lparr>totalRequests = Metric scope (methodName @ ''.total_requests''),
       responseTime = Metric scope (methodName @ ''.response_time'')\<rparr>)"

definition UnaryServerInterceptor ::
  "scope \<Rightarrow> string \<Rightarrow> int \<Rightarrow> ('x world_scheme, 'a) M \<Rightarrow> ('x world_scheme, 'a) M" where
  "UnaryServerInterceptor scope fullMethod elapsed handler =
     (let s = newServerMetrics scope fullMethod in
      bind (emit [CounterInc (totalRequests s)]) (\<lambda>_.
      bind handler (\<lambda>resp.
      bind (emit [TimerAdd (responseTime s) elapsed]) (\<lambda>_.
      ret resp))))"

section \<open>The local cache\<close>

text \<open>The numbers freecache reports, each an \<open>int64\<close>.\<close>

record freecache_stats =
  EvacuateCount :: int
  ExpiredCount :: int
  EntryCount :: int
  AverageAccessTime :: int
  HitCount :: int
  MissCount :: int
  LookupCount :: int
  OverwriteCount :: int

record localCacheStats =
  evacuateCount :: metric
  expiredCount :: metric
  entryCount :: metric
  averageAccessTime :: metric
  hitCount :: metric
  missCount :: metric
  lookupCount :: metric
  overwriteCount :: metric

definition NewLocalCacheStats :: "scope \<Rightarrow> localCacheStats" where
  "NewLocalCacheStats scope =
     \<lparr>evacuateCount = Metric scope ''evacuateCount'',
      expiredCount = Metric scope ''expiredCount'',
      entryCount = Metric scope ''entryCount'',
      averageAccessTime = Metric scope ''averageAccessTime'',
      hitCount = Metric scope ''hitCount'',
      missCount = Metric scope ''missCount'',
      lookupCount = Metric scope ''lookupCount'',
      overwriteCount = Metric scope ''overwriteCount''\<rparr>"

definition GenerateStats :: "localCacheStats \<Rightarrow> freecache_stats \<Rightarrow> ('x world_scheme, unit) M" where
  "GenerateStats this cache =
     emit [GaugeSet (evacuateCount this) (word_of_int (EvacuateCount cache)),
       GaugeSet (expiredCount this) (word_of_int (ExpiredCount cache)),
       GaugeSet (entryCount this) (word_of_int (EntryCount cache)),
       GaugeSet (averageAccessTime this) (word_of_int (AverageAccessTime cache)),
       GaugeSet (hitCount this) (word_of_int (HitCount cache)),
       GaugeSet (missCount this) (word_of_int (MissCount cache)),
       GaugeSet (lookupCount this) (word_of_int (LookupCount cache)),
       GaugeSet (overwriteCount this) (word_of_int (OverwriteCount cache))]"

section \<open>Lemmas\<close>

lemma splitMethodName_full:
  "CHR ''/'' \<notin> set service \<Longrightarrow> splitMethodName (''/'' @ service @ ''/'' @ method) = (service, method)"
  by (simp add: splitMethodName_def TrimPrefix_def Cut_char)

text \<open>
  The interceptor is transparent: it returns what the handler returns and panics as the handler does.
  Each call is counted before the handler runs, its time after it, and not if it panics.
\<close>

lemma UnaryServerInterceptor_transparent:
  assumes "\<And>s es. handler (s\<lparr>stats := es\<rparr>) = (fst (handler s), (snd (handler s))\<lparr>stats := es @ log s\<rparr>)"
  shows "UnaryServerInterceptor scope m elapsed handler s =
    (fst (handler s), (snd (handler s))\<lparr>stats := stats s @ [CounterInc (totalRequests (newServerMetrics scope m))] @ log s @
      (if isl (fst (handler s)) then [] else [TimerAdd (responseTime (newServerMetrics scope m)) elapsed])\<rparr>)"
  using assms [where s = s and es = "stats s @ [CounterInc (totalRequests (newServerMetrics scope m))]"]
  by (cases "fst (handler s)") (auto simp: UnaryServerInterceptor_def Let_def emit_def monad_simps)

lemma gauges_distinct:
  "distinct [evacuateCount (NewLocalCacheStats sc), expiredCount (NewLocalCacheStats sc), entryCount (NewLocalCacheStats sc),
     averageAccessTime (NewLocalCacheStats sc), hitCount (NewLocalCacheStats sc), missCount (NewLocalCacheStats sc),
     lookupCount (NewLocalCacheStats sc), overwriteCount (NewLocalCacheStats sc)]"
  by (simp add: NewLocalCacheStats_def)

end
