(* ===== verification/Srv.thy ===== *)
theory Srv
  imports Prelude "HOL-Library.List_Lexorder" "HOL-Library.Char_ord" "HOL-Library.Multiset"
begin

text \<open>
  The resolver of SRV records (\<open>src/srv/srv.go\<close>), through which the memcached client finds its servers.
  The DNS lookup \<open>net.LookupSRV\<close> is an argument.
\<close>

section \<open>Parsing\<close>

text \<open>
  The expression \<open>^_(.+?)\._(.+?)\.(.+)$\<close>: \<open>lazy sep cont [] s\<close> is the shortest non-empty text without
  a newline that is followed by \<open>sep\<close> and a rest the continuation matches.
\<close>

fun lazy :: "string \<Rightarrow> (string \<Rightarrow> 'b option) \<Rightarrow> string \<Rightarrow> string \<Rightarrow> (string \<times> 'b) option" where
  "lazy sep cont acc s =
     (let more = (case s of [] \<Rightarrow> None | c # cs \<Rightarrow> if c = CHR 10 then None else lazy sep cont (acc @ [c]) cs)
      in if acc \<noteq> [] \<and> prefix sep s
         then (case cont (drop (length sep) s) of Some r \<Rightarrow> Some (acc, r) | None \<Rightarrow> more)
         else more)"

declare lazy.simps [simp del]

definition to_end :: "string \<Rightarrow> string option" where
  "to_end s = (if s \<noteq> [] \<and> CHR 10 \<notin> set s then Some s else None)"

definition srvRegex :: "string \<Rightarrow> (string \<times> string \<times> string) option" where
  "srvRegex s = (if prefix ''_'' s then lazy ''._'' (lazy ''.'' to_end []) [] (drop 1 s) else None)"

definition ParseSrv :: "string \<Rightarrow> string + (string \<times> string \<times> string)" where
  "ParseSrv srv =
     (case srvRegex srv of
        None \<Rightarrow> Inl (''could not parse '' @ srv @ '' to SRV parts'')
      | Some matches \<Rightarrow> Inr matches)"

section \<open>Lookup\<close>

record SRV =
  Target :: string
  Port :: "16 word"

definition server_string :: "SRV \<Rightarrow> string" where
  "server_string srv = Target srv @ '':'' @ FormatNat (unat (Port srv))"

text \<open>\<open>sort.Strings\<close> orders by bytes.\<close>

definition lookupServerStringsFromSrv ::
  "(string \<Rightarrow> string \<Rightarrow> string \<Rightarrow> string + SRV list) \<Rightarrow> string \<Rightarrow> string + string list" where
  "lookupServerStringsFromSrv addrsLookup srv =
     (case ParseSrv srv of
        Inl err \<Rightarrow> Inl err
      | Inr (service, proto, name) \<Rightarrow>
          (case addrsLookup service proto name of
             Inl err \<Rightarrow> Inl err
           | Inr srvs \<Rightarrow> Inr (sort (map server_string srvs))))"

section \<open>Lemmas\<close>

lemma lazy_Some:
  "lazy sep cont acc s = Some (a, r) \<Longrightarrow>
   \<exists>x rest. a = acc @ x \<and> s = x @ sep @ rest \<and> cont rest = Some r \<and> a \<noteq> [] \<and> CHR 10 \<notin> set x"
proof (induction sep cont acc s rule: lazy.induct)
  case (1 sep cont acc s)
  have more: ?case if m: "s = c # cs" "c \<noteq> CHR 10" "lazy sep cont (acc @ [c]) cs = Some (a, r)" for c cs
  proof -
    from "1.IH" [OF m] obtain x rest where "a = (acc @ [c]) @ x" "cs = x @ sep @ rest" "cont rest = Some r"
        "CHR 10 \<notin> set x" by blast
    then show ?thesis using m by (intro exI [of _ "c # x"] exI [of _ rest]) auto
  qed
  show ?case
  proof (cases "acc \<noteq> [] \<and> prefix sep s \<and> cont (drop (length sep) s) \<noteq> None")
    case True
    with "1.prems" have "a = acc" "cont (drop (length sep) s) = Some r"
      by (auto simp: lazy.simps [of sep cont acc s] Let_def)
    with True show ?thesis
      by (intro exI [of _ "[]"] exI [of _ "drop (length sep) s"]) (auto simp: prefix_def)
  next
    case False
    with "1.prems" have "(case s of [] \<Rightarrow> None | c # cs \<Rightarrow> if c = CHR 10 then None else lazy sep cont (acc @ [c]) cs) = Some (a, r)"
      by (auto simp: lazy.simps [of sep cont acc s] Let_def split: if_splits option.splits)
    then obtain c cs where "s = c # cs" "c \<noteq> CHR 10" "lazy sep cont (acc @ [c]) cs = Some (a, r)"
      by (auto split: list.splits if_splits)
    then show ?thesis by (rule more)
  qed
qed

lemma lazy_None:
  "lazy sep cont acc s = None \<Longrightarrow> s = x @ sep @ rest \<Longrightarrow> acc @ x \<noteq> [] \<Longrightarrow> CHR 10 \<notin> set x \<Longrightarrow> cont rest = None"
proof (induction x arbitrary: acc s)
  case Nil
  then show ?case by (auto simp: lazy.simps [of sep cont acc "sep @ rest"] Let_def split: option.splits)
next
  case (Cons c x)
  then have "lazy sep cont (acc @ [c]) (x @ sep @ rest) = None"
    by (auto simp: lazy.simps [of sep cont acc "c # x @ sep @ rest"] Let_def split: if_splits option.splits)
  then show ?case by (rule Cons.IH) (use Cons.prems in auto)
qed

text \<open>The three parts of an SRV name.\<close>

definition srv_parts :: "string \<Rightarrow> string \<times> string \<times> string \<Rightarrow> bool" where
  "srv_parts srv = (\<lambda>(service, proto, name).
     srv = ''_'' @ service @ ''._'' @ proto @ ''.'' @ name \<and>
     service \<noteq> [] \<and> proto \<noteq> [] \<and> name \<noteq> [] \<and> CHR 10 \<notin> set srv)"

lemma srvRegex_Some: "srvRegex s = Some p \<Longrightarrow> srv_parts s p"
proof -
  assume m: "srvRegex s = Some p"
  obtain a b c where p: "p = (a, b, c)" by (metis prod_cases3)
  have s: "s = ''_'' @ drop 1 s" using m by (auto simp: srvRegex_def prefix_def split: if_splits)
  have "lazy ''._'' (lazy ''.'' to_end []) [] (drop 1 s) = Some (a, b, c)"
    using m p by (auto simp: srvRegex_def split: if_splits)
  from lazy_Some [OF this] obtain rest where
    r: "drop 1 s = a @ ''._'' @ rest" "lazy ''.'' to_end [] rest = Some (b, c)" "a \<noteq> []" "CHR 10 \<notin> set a" by auto
  from lazy_Some [OF r(2)] obtain last where
    l: "rest = b @ ''.'' @ last" "to_end last = Some c" "b \<noteq> []" "CHR 10 \<notin> set b" by auto
  have "last = c" "c \<noteq> []" "CHR 10 \<notin> set c" using l(2) by (auto simp: to_end_def split: if_splits)
  with s r l show ?thesis by (auto simp: srv_parts_def p)
qed

lemma srvRegex_None: "srvRegex s = None \<Longrightarrow> \<not> srv_parts s p"
proof
  assume m: "srvRegex s = None" and "srv_parts s p"
  then obtain a b c where s: "s = ''_'' @ a @ ''._'' @ b @ ''.'' @ c" "a \<noteq> []" "b \<noteq> []" "c \<noteq> []" "CHR 10 \<notin> set s"
    by (auto simp: srv_parts_def)
  have "lazy ''._'' (lazy ''.'' to_end []) [] (a @ ''._'' @ (b @ ''.'' @ c)) = None"
    using m by (simp add: srvRegex_def s(1))
  then have "lazy ''.'' to_end [] (b @ ''.'' @ c) = None"
    using lazy_None [of "''._''" "lazy ''.'' to_end []" "[]" "a @ ''._'' @ (b @ ''.'' @ c)" a "b @ ''.'' @ c"] s by auto
  then have "to_end c = None" using lazy_None [of "''.''" to_end "[]" "b @ ''.'' @ c" b c] s by auto
  with s show False by (auto simp: to_end_def split: if_splits)
qed

lemma ParseSrv_parts:
  "case ParseSrv srv of Inr p \<Rightarrow> srv_parts srv p | Inl e \<Rightarrow> (\<nexists>p. srv_parts srv p)"
  using srvRegex_Some srvRegex_None by (auto simp: ParseSrv_def split: option.splits)

section \<open>Properties\<close>

text \<open>
  C34. The servers of an SRV name are the same in every lookup. A name is accepted exactly when it
  has the three parts of an SRV name; two answers of the DNS that differ in order only give the same
  list, which is sorted and holds \<open>host:port\<close> for each record, so that every instance assigns the
  same shards.
\<close>

theorem servers_in_one_order:
  assumes "\<And>s p n. rel_sum (=) (\<lambda>xs ys. mset xs = mset ys) (lookup1 s p n) (lookup2 s p n)"
  shows "lookupServerStringsFromSrv lookup1 srv = lookupServerStringsFromSrv lookup2 srv \<and>
    (case lookupServerStringsFromSrv lookup1 srv of
       Inl e \<Rightarrow> (\<nexists>p. srv_parts srv p) \<or> (\<exists>s p n. srv_parts srv (s, p, n) \<and> lookup1 s p n = Inl e)
     | Inr servers \<Rightarrow> \<exists>s p n xs. srv_parts srv (s, p, n) \<and> lookup1 s p n = Inr xs \<and>
         sorted servers \<and> mset servers = image_mset server_string (mset xs))"
proof (cases "ParseSrv srv")
  case (Inl e)
  with ParseSrv_parts [of srv] show ?thesis by (simp add: lookupServerStringsFromSrv_def)
next
  case (Inr m)
  obtain s p n where m: "m = (s, p, n)" by (metis prod_cases3)
  with Inr ParseSrv_parts [of srv] have parts: "srv_parts srv (s, p, n)" by simp
  show ?thesis
  proof (cases "lookup1 s p n")
    case l: (Inl e)
    with assms [of s p n] have "lookup2 s p n = Inl e" by (cases "lookup2 s p n") auto
    with Inr m l parts show ?thesis by (auto simp: lookupServerStringsFromSrv_def)
  next
    case l: (Inr xs)
    with assms [of s p n] obtain ys where ys: "lookup2 s p n = Inr ys" "mset xs = mset ys"
      by (cases "lookup2 s p n") auto
    then have "sort (map server_string xs) = sort (map server_string ys)"
      by (intro properties_for_sort) simp_all
    moreover have "\<exists>s p n xs'. srv_parts srv (s, p, n) \<and> lookup1 s p n = Inr xs' \<and>
        sorted (sort (map server_string xs)) \<and> mset (sort (map server_string xs)) = image_mset server_string (mset xs')"
      using parts l by (intro exI [of _ s] exI [of _ p] exI [of _ n] exI [of _ xs]) simp
    ultimately show ?thesis
      using Inr m l ys by (simp add: lookupServerStringsFromSrv_def)
  qed
qed

definition sample_lookup :: "bool \<Rightarrow> string \<Rightarrow> string \<Rightarrow> string \<Rightarrow> string + SRV list" where
  "sample_lookup swap s p n =
     (let a = \<lparr>Target = ''a'', Port = 11211\<rparr>; b = \<lparr>Target = ''b'', Port = 80\<rparr> in Inr (if swap then [b, a] else [a, b]))"

theorem servers_in_one_order_witness:
  "lookupServerStringsFromSrv (sample_lookup True) ''_memcache._tcp.mycompany.com'' =
     lookupServerStringsFromSrv (sample_lookup False) ''_memcache._tcp.mycompany.com''"
proof -
  have "rel_sum (=) (\<lambda>xs ys. mset xs = mset ys) (sample_lookup True s p n) (sample_lookup False s p n)" for s p n
    by (simp add: sample_lookup_def Let_def)
  from servers_in_one_order [of "sample_lookup True" "sample_lookup False" "''_memcache._tcp.mycompany.com''", OF this] show ?thesis by blast
qed

end
