(* ===== verification/Server.thy ===== *)
theory Server
  imports Providers Service_Backends Metrics Srv
begin

text \<open>
  The server (\<open>src/server/server_impl.go\<close>, \<open>src/server/tls.go\<close>): its construction from the settings, the
  check of client certificates, the JSON endpoint, the debug endpoints, start and stop.

  Outside the sources: \<open>net/http\<close>, \<open>gorilla/mux\<close>, gRPC and \<open>crypto/tls\<close>. Listeners and servers are
  the arguments and results of the calls that make them, handlers are what they write.
\<close>

section \<open>Client certificates\<close>


section \<open>The JSON endpoint\<close>

record http_response =
  hr_status :: nat
  hr_contentType :: string
  hr_body :: string

definition StatusText :: "nat \<Rightarrow> string" where
  "StatusText code = (if code = 400 then ''Bad Request'' else if code = 500 then ''Internal Server Error'' else '''')"

definition writeHttpStatus :: "nat \<Rightarrow> http_response" where
  "writeHttpStatus code =
     \<lparr>hr_status = code, hr_contentType = ''text/plain; charset=utf-8'', hr_body = StatusText code @ ''\<newline>''\<rparr>"

text \<open>
  \<open>body\<close> is the result of reading the request, \<open>Unmarshal\<close> and \<open>Marshal\<close> are those of protojson. The
  service may return a nil response with a nil error as far as the handler knows.
\<close>

definition NewJsonHandler ::
  "(string \<Rightarrow> string + RateLimitRequest) \<Rightarrow> (RateLimitResponse \<Rightarrow> string + string)
    \<Rightarrow> (RateLimitRequest \<Rightarrow> ('s, string + RateLimitResponse option) M) \<Rightarrow> string + string \<Rightarrow> ('s, http_response) M" where
  "NewJsonHandler Unmarshal Marshal rls body =
     (case body of
        Inl err \<Rightarrow> ret (writeHttpStatus 400)
      | Inr bytes \<Rightarrow>
          (case Unmarshal bytes of
             Inl err \<Rightarrow> ret (writeHttpStatus 400)
           | Inr req \<Rightarrow>
               bind (rls req) (\<lambda>result.
               case result of
                 Inl err \<Rightarrow> ret (writeHttpStatus 400)
               | Inr None \<Rightarrow> ret (writeHttpStatus 500)
               | Inr (Some resp) \<Rightarrow>
                   (case Marshal resp of
                      Inl err \<Rightarrow> ret (writeHttpStatus 500)
                    | Inr jsonResp \<Rightarrow>
                        ret \<lparr>hr_status = (case OverallCode resp of CODE_UNKNOWN \<Rightarrow> 500 | OVER_LIMIT \<Rightarrow> 429 | OK \<Rightarrow> 200),
                             hr_contentType = ''application/json'', hr_body = jsonResp\<rparr>))))"

text \<open>The service as the handler calls it.\<close>

definition json_service ::
  "(RateLimitRequest \<Rightarrow> RateLimit option list \<Rightarrow> ('x world_scheme, DescriptorStatus list) M) \<Rightarrow> RateLimitRequest
    \<Rightarrow> ('x world_scheme svc_state, string + RateLimitResponse option) M" where
  "json_service do_limit req = bind (ShouldRateLimit do_limit req) (\<lambda>r. ret (map_sum id Some r))"

section \<open>The server\<close>

datatype grpcListenType = tcp | unixDomainSocket

text \<open>The provider in use; \<open>'rt\<close> is the runtime a file provider watches.\<close>

datatype 'rt config_provider = FileProvider 'rt | XdsGrpcSotwProvider "string \<times> (string \<times> string) list"

text \<open>
  The TLS credentials of the gRPC server: the configuration, the provider of the certificate and
  the pool and name against which client chains are checked.
\<close>

record ('c, 'p) grpc_tls =
  gt_config :: "('c, 'p) tls_Config"
  gt_certProvider :: "'c CertProvider"
  gt_verify :: "('p option \<times> string) option"

datatype stat_generator = RuntimeStats scope | LocalCacheStats localCacheStats

record ('c, 'p, 'i, 'rt) server =
  httpAddress :: string
  grpcAddress :: string
  grpcListenType :: grpcListenType
  debugAddress :: string
  router :: "string list"
  grpcTls :: "('c, 'p) grpc_tls option"
  grpcKeepalive :: "int \<times> int"
  grpcInterceptor :: "'i option"
  srv_scope :: scope
  statGenerators :: "stat_generator list"
  provider :: "'rt config_provider"
  srv_health :: HealthChecker
  debugMux :: "string list"
  endpoints :: "(string \<times> string) list"
  debugListener :: bool
  httpServer :: bool

text \<open>\<open>HandleFunc\<close> of a \<open>ServeMux\<close> panics on a path that is already registered.\<close>

definition AddDebugHttpEndpoint :: "string \<Rightarrow> string \<Rightarrow> ('c, 'p, 'i, 'rt) server \<Rightarrow> ('c, 'p, 'i, 'rt) server res" where
  "AddDebugHttpEndpoint path help srv =
     (if path \<in> set (debugMux srv) then Inl (StringPanic (''http: multiple registrations for '' @ path))
      else Inr (srv\<lparr>debugMux := debugMux srv @ [path], endpoints := store path help (endpoints srv)\<rparr>))"

definition AddJsonHandler :: "('c, 'p, 'i, 'rt) server \<Rightarrow> ('c, 'p, 'i, 'rt) server" where
  "AddJsonHandler srv = srv\<lparr>router := router srv @ [''/json'']\<rparr>"

text \<open>What the root of the debug listener prints.\<close>

definition debug_root :: "('c, 'p, 'i, 'rt) server \<Rightarrow> string" where
  "debug_root srv =
     concat (map (\<lambda>key. key @ '': '' @ (case map_of (endpoints srv) key of None \<Rightarrow> '''' | Some h \<Rightarrow> h) @ ''\<newline>'')
       (sort (map fst (endpoints srv))))"

definition getProviderImpl ::
  "(loader_args \<Rightarrow> string + 'rt) \<Rightarrow> ('c, 'p, 'i) Settings \<Rightarrow> 'rt config_provider res" where
  "getProviderImpl New2 s =
     (if s_ConfigType s = ''FILE'' then res_bind (NewFileProvider New2 s) (\<lambda>rt. Inr (FileProvider rt))
      else if s_ConfigType s = ''GRPC_XDS_SOTW'' then Inr (XdsGrpcSotwProvider (getClientNode s))
      else Inl (FatalExit (''Invalid setting for ConfigType: '' @ s_ConfigType s)))"

text \<open>\<open>net.JoinHostPort\<close>: a host with a colon is bracketed.\<close>

definition JoinHostPort :: "string \<Rightarrow> string \<Rightarrow> string" where
  "JoinHostPort host port = (if CHR '':'' \<in> set host then ''['' @ host @ '']:'' @ port else host @ '':'' @ port)"

text \<open>The block of \<open>newServer\<close> for TLS; \<open>loaded\<close> is the key pair at that moment.\<close>

definition server_tls ::
  "(loader_args \<Rightarrow> string + 'rt) \<Rightarrow> string + 'c \<Rightarrow> ('c, 'p, 'i) Settings \<Rightarrow> ('c, 'p) grpc_tls option res" where
  "server_tls New2 loaded s =
     (if s_GrpcServerUseTLS s
      then res_bind (NewCertProvider New2 s loaded (s_GrpcServerTlsCert s) (s_GrpcServerTlsKey s)) (\<lambda>certProvider.
           case s_GrpcServerTlsConfig s of
             None \<Rightarrow> Inl NilPanic
           | Some config \<Rightarrow>
               Inr (Some \<lparr>gt_config = config\<lparr>Certificates := []\<rparr>, gt_certProvider = certProvider,
                 gt_verify = (if s_GrpcClientTlsSAN s \<noteq> '''' then Some (ClientCAs config, s_GrpcClientTlsSAN s) else None)\<rparr>))
      else Inr None)"

fun apply_options :: "('c, 'p, 'i) Option list \<Rightarrow> ('c, 'p, 'i) Option" where
  "apply_options [] s = Inr s"
| "apply_options (opt # opts) s = res_bind (opt s) (apply_options opts)"

definition debug_endpoints :: "(string \<times> string) list" where
  "debug_endpoints =
     [(''/debug/pprof/'', ''root of various pprof endpoints. hit for help.''),
      (''/debug/pprof/profile'', ''CPU profiling endpoint''),
      (''/stats'', ''print out stats''),
      (''/debug/pprof/trace'', ''trace endpoint'')]"

fun add_endpoints :: "(string \<times> string) list \<Rightarrow> ('c, 'p, 'i, 'rt) server \<Rightarrow> ('c, 'p, 'i, 'rt) server res" where
  "add_endpoints [] srv = Inr srv"
| "add_endpoints ((path, help) # rest) srv = res_bind (AddDebugHttpEndpoint path help srv) (add_endpoints rest)"

definition newServer ::
  "(loader_args \<Rightarrow> string + 'rt) \<Rightarrow> string + 'c \<Rightarrow> ('c, 'p, 'i) Settings \<Rightarrow> string \<Rightarrow> bool \<Rightarrow> ('c, 'p, 'i) Option list
    \<Rightarrow> ('c, 'p, 'i, 'rt) server res" where
  "newServer New2 loaded settings name hasLocalCache opts =
     res_bind (apply_options opts settings) (\<lambda>s.
     let scope = ScopeWithTags name (s_ExtraTags s);
         generators = [RuntimeStats (Scope scope ''go'')] @
           (if hasLocalCache then [LocalCacheStats (NewLocalCacheStats (Scope scope ''localcache''))] else []) in
     res_bind (server_tls New2 loaded s) (\<lambda>tls.
     res_bind (getProviderImpl New2 s) (\<lambda>configProvider.
     res_bind (add_endpoints debug_endpoints
       \<lparr>httpAddress = JoinHostPort (s_Host s) (FormatInt (s_Port s)),
        grpcAddress = (if s_GrpcUds s \<noteq> '''' then s_GrpcUds s
                       else JoinHostPort (s_GrpcHost s) (FormatInt (s_GrpcPort s))),
        grpcListenType = (if s_GrpcUds s \<noteq> '''' then unixDomainSocket else tcp),
        debugAddress = JoinHostPort (s_DebugHost s) (FormatInt (s_DebugPort s)),
        router = [''/healthcheck''],
        grpcTls = tls,
        grpcKeepalive = (s_GrpcMaxConnectionAge s, s_GrpcMaxConnectionAgeGrace s),
        grpcInterceptor = s_GrpcUnaryInterceptor s,
        srv_scope = scope,
        statGenerators = generators,
        provider = configProvider,
        srv_health = NewHealthChecker [] ''ratelimit'' (s_HealthyWithAtLeastOneConfigLoaded s),
        debugMux = [], endpoints = [], debugListener = False, httpServer = False\<rparr>) (\<lambda>srv.
     Inr (srv\<lparr>debugMux := debugMux srv @ [''/'']\<rparr>)))))"

section \<open>Start and stop\<close>

text \<open>
  The listeners that are opened: network, address, and whether the port may be shared. \<open>startGrpc\<close>
  serves on its listener or ends the process.
\<close>

definition startGrpc :: "(bool \<Rightarrow> string \<Rightarrow> string \<Rightarrow> string + 'l) \<Rightarrow> ('c, 'p, 'i, 'rt) server \<Rightarrow> 'l res" where
  "startGrpc Listen srv =
     (case (case grpcListenType srv of
              tcp \<Rightarrow> Listen True ''tcp'' (grpcAddress srv)
            | unixDomainSocket \<Rightarrow> Listen False ''unix'' (grpcAddress srv)) of
        Inl err \<Rightarrow> Inl (FatalExit (''Failed to listen for gRPC on '' @ [CHR 0x27] @ grpcAddress srv @ [CHR 0x27] @ '': '' @ err))
      | Inr lis \<Rightarrow> Inr lis)"

text \<open>
  \<open>Start\<close> in its own goroutine, up to the end of serving: the HTTP server is noted, for \<open>Stop\<close> to close,
  before it serves; \<open>Serve\<close> is what serving the listener ends with, \<open>None\<close> for \<open>http.ErrServerClosed\<close>. The goroutines it starts are \<open>startDebug\<close> and \<open>startGrpc\<close>.
\<close>

definition startDebug :: "(bool \<Rightarrow> string \<Rightarrow> string \<Rightarrow> string + 'l) \<Rightarrow> ('c, 'p, 'i, 'rt) server \<Rightarrow> ('c, 'p, 'i, 'rt) server" where
  "startDebug Listen srv =
     (case Listen True ''tcp'' (debugAddress srv) of Inl err \<Rightarrow> srv | Inr lis \<Rightarrow> srv\<lparr>debugListener := True\<rparr>)"

definition Start ::
  "(bool \<Rightarrow> string \<Rightarrow> string \<Rightarrow> string + 'l) \<Rightarrow> (('c, 'p, 'i, 'rt) server \<Rightarrow> 'l \<Rightarrow> string option)
    \<Rightarrow> (('c, 'p, 'i, 'rt) server, unit) M" where
  "Start Listen Serve = (\<lambda>srv.
     case Listen True ''tcp'' (httpAddress srv) of
       Inl err \<Rightarrow> (Inl (FatalExit (''Failed to open HTTP listener: '' @ [CHR 0x27] @ err @ [CHR 0x27])), srv)
     | Inr list \<Rightarrow>
         (let srv = srv\<lparr>httpServer := True\<rparr> in
          case Serve srv list of
            Some err \<Rightarrow> (Inl (FatalExit err), srv)
          | None \<Rightarrow> (Inr (), srv)))"

datatype stop_call = GracefulStopGrpc | CloseDebugListener | CloseHttpServer | StopProvider | Exit nat

definition Stop :: "('c, 'p, 'i, 'rt) server \<Rightarrow> stop_call list" where
  "Stop srv =
     [GracefulStopGrpc] @ (if debugListener srv then [CloseDebugListener] else [])
       @ (if httpServer srv then [CloseHttpServer] else []) @ [StopProvider]"

definition handleGracefulShutdown :: "('c, 'p, 'i, 'rt) server \<Rightarrow> stop_call list" where
  "handleGracefulShutdown srv = Stop srv @ [Exit 0]"

section \<open>Lemmas\<close>






lemma newServer_endpoints:
  "newServer New2 loaded s name lc opts = Inr srv \<Longrightarrow> map fst (endpoints srv) = map fst debug_endpoints"
  by (auto simp: newServer_def Let_def res_bind_Inr debug_endpoints_def AddDebugHttpEndpoint_def split: if_splits)

text \<open>The JSON endpoint over any back end the service can work with.\<close>

context recoverable_cache
begin

lemma json_endpoint:
  fixes st :: "'x world_scheme svc_state"
  assumes "svc_config (svc st) = Some cfg" and "in_service tbl cs sm merge cfg"
    and "\<forall>s u. tbl s = Some u \<longrightarrow> u = UNKNOWN \<or> valid_unit u"
    and "Unmarshal bytes = Inr request"
    and "Domain request \<noteq> ''''" and "Descriptors request \<noteq> []" and "overrides_ok request"
    and "\<And>resp. \<exists>json. Marshal resp = Inr json"
  shows "\<exists>r t. NewJsonHandler Unmarshal Marshal (json_service (do_limit)) (Inr bytes) st = (Inr r, t) \<and>
    (case ShouldRateLimit (do_limit) request st of
       (Inl p, u) \<Rightarrow> False
     | (Inr (Inl e), u) \<Rightarrow> hr_status r = 400 \<and> t = u
     | (Inr (Inr resp), u) \<Rightarrow> t = u \<and> Marshal resp = Inr (hr_body r) \<and>
         (if OverallCode resp = OVER_LIMIT then hr_status r = 429 else OverallCode resp = OK \<and> hr_status r = 200))"
proof (cases rule: ShouldRateLimit_answers
    [OF assms(1-3,5-7) refl, case_names response failed])
  case (response resp t lims sts es s)
  obtain json where json: "Marshal resp = Inr json" using assms(8) by blast
  have code: "OverallCode resp \<in> {OK, OVER_LIMIT}" using response(6) by (simp add: response_for_def)
  show ?thesis
    using response(1) json code assms(4)
    by (auto simp: NewJsonHandler_def json_service_def monad_simps split: Code.splits)
next
  case (failed e t lims es s)
  with assms(4) show ?thesis
    by (simp add: NewJsonHandler_def json_service_def monad_simps writeHttpStatus_def)
qed

end

section \<open>Properties\<close>






text \<open>
  C32. The JSON endpoint. Over a service on redis with a configuration, a body that is a proper request
  is answered with 200 exactly when the service says \<open>OK\<close>, with 429 exactly when it says
  \<open>OVER_LIMIT\<close>, and with 400 exactly when the back end failed; the body of an answer is the response.
  It is never answered with 500 as long as responses can be encoded, and the handler never panics.
\<close>

theorem json_endpoint_redis:
  fixes st :: "('lc, 'r, 'x) redis_state_scheme svc_state"
  assumes "svc_config (svc st) = Some cfg" and "in_service tbl cs sm merge cfg"
    and "\<forall>s u. tbl s = Some u \<longrightarrow> u = UNKNOWN \<or> valid_unit u"
    and "Unmarshal bytes = Inr request"
    and "Domain request \<noteq> ''''" and "Descriptors request \<noteq> []" and "overrides_ok request"
    and "\<And>resp. \<exists>json. Marshal resp = Inr json"
  shows "\<exists>r t. NewJsonHandler Unmarshal Marshal (json_service (DoLimit pf rx this)) (Inr bytes) st = (Inr r, t) \<and>
    (case ShouldRateLimit (DoLimit pf rx this) request st of
       (Inl p, u) \<Rightarrow> False
     | (Inr (Inl e), u) \<Rightarrow> hr_status r = 400 \<and> t = u
     | (Inr (Inr resp), u) \<Rightarrow> t = u \<and> Marshal resp = Inr (hr_body r) \<and>
         (if OverallCode resp = OVER_LIMIT then hr_status r = 429 else OverallCode resp = OK \<and> hr_status r = 200))"
  using assms by (rule redis_service.json_endpoint)

theorem json_endpoint_redis_witness:
  "\<exists>r t. NewJsonHandler (\<lambda>_. Inr sample_over_rq) (\<lambda>_. Inr ''{}'')
      (json_service (DoLimit set_cache counter_server sample_redis)) (Inr ''body'')
      (sample_service (Some sample_config) False busy_redis_state) = (Inr r, t) \<and> hr_status r = 429"
proof -
  let ?st = "sample_service (Some sample_config) False busy_redis_state"
  let ?r = "ShouldRateLimit (DoLimit set_cache counter_server sample_redis) sample_over_rq ?st"
  obtain resp t where run: "?r = (Inr (Inr resp), t)" and code: "OverallCode resp = OVER_LIMIT"
    by (rule sample_over_limit)
  have cfg: "svc_config (svc ?st) = Some sample_config" by (simp add: sample_service_def)
  have units: "\<forall>s u. sample_units s = Some u \<longrightarrow> u = UNKNOWN \<or> valid_unit u" using sample_units_valid by blast
  have rq: "Domain sample_over_rq \<noteq> ''''" "Descriptors sample_over_rq \<noteq> []" by simp_all
  have enc: "\<exists>json. (\<lambda>_ :: RateLimitResponse. Inr ''{}'' :: string + string) resp = Inr json" for resp by simp
  from json_endpoint_redis [where Unmarshal = "\<lambda>_. Inr sample_over_rq" and Marshal = "\<lambda>_. Inr ''{}''"
      and bytes = "''body''", OF cfg sample_in_service units refl rq sample_overrides enc, of set_cache counter_server sample_redis]
  show ?thesis using run code by (auto split: if_splits)
qed


end
