(* ===== verification/Dogstatsd.thy ===== *)
theory Dogstatsd
  imports Settings Utils
begin

text \<open>
  The dogstatsd sink (\<open>src/godogstats/\<close>): tags serialized into metric names are taken out again, and
  names are rewritten by patterns from the environment.

  Outside the sources: the DataDog client (the calls made on it are a log), envconfig
  (\<open>Process\<close>), and the patterns themselves. A compiled pattern is used through
  \<open>FindStringSubmatch\<close> only, and is that function: the empty list when there is no match.
\<close>

section \<open>Patterns\<close>

record mogrifierEntry =
  matcher :: "string \<Rightarrow> string list"
  handler :: "string list \<Rightarrow> string \<times> string list"

text \<open>
  \<open>makePatternHandler\<close>: \<open>varFinder\<close> matches a dollar sign and the longest run of digits after it;
  each match is replaced by the submatch of that number, or kept.
\<close>

definition var_value :: "string list \<Rightarrow> string \<Rightarrow> string" where
  "var_value matches s =
     (case ParseInt (drop 1 s) 64 of
        None \<Rightarrow> s
      | Some i \<Rightarrow> if i \<ge> int (length matches) then s else matches ! nat i)"

function makePatternHandler :: "string \<Rightarrow> string list \<Rightarrow> string" where
  "makePatternHandler [] matches = []"
| "makePatternHandler (c # cs) matches =
     (let digits = takeWhile is_digit cs in
      if c = CHR ''$'' \<and> digits \<noteq> []
      then var_value matches (c # digits) @ makePatternHandler (dropWhile is_digit cs) matches
      else c # makePatternHandler cs matches)"
  by pat_completeness auto
termination
  by (relation "measure (length \<circ> fst)") (auto simp: le_imp_less_Suc length_dropWhile_le)

text \<open>The structure read from the environment; the map of tags in the order Go ranges over it.\<close>

record mogrifier_config =
  Pattern :: string
  Tags :: "(string \<times> string) list"
  mc_Name :: string

definition envPrefix :: string where
  "envPrefix = ''DOG_STATSD_MOGRIFIER''"

fun check_tags :: "string \<Rightarrow> (string \<times> string) list \<Rightarrow> string + unit" where
  "check_tags mogrifier [] = Inr ()"
| "check_tags mogrifier ((key, value) # rest) =
     (if key = '''' then Inl (''no key specified for tag '' @ key @ '' for mogrifier '' @ mogrifier)
      else if value = '''' then Inl (''no value specified for tag '' @ key @ '' for mogrifier '' @ mogrifier)
      else check_tags mogrifier rest)"

definition mogrify_handler :: "mogrifier_config \<Rightarrow> string list \<Rightarrow> string \<times> string list" where
  "mogrify_handler cfg matches =
     (makePatternHandler (mc_Name cfg) matches,
      map (\<lambda>(tagKey, value). tagKey @ '':'' @ makePatternHandler value matches) (Tags cfg))"

fun newMogrifierMapFromEnv ::
  "(string \<Rightarrow> string + mogrifier_config) \<Rightarrow> (string \<Rightarrow> string + (string \<Rightarrow> string list)) \<Rightarrow> string list
    \<Rightarrow> string + mogrifierEntry list" where
  "newMogrifierMapFromEnv Process Compile [] = Inr []"
| "newMogrifierMapFromEnv Process Compile (mogrifier # keys) =
     (case Process (envPrefix @ ''_'' @ mogrifier) of
        Inl err \<Rightarrow> Inl (''failed to load mogrifier '' @ mogrifier @ '': '' @ err)
      | Inr cfg \<Rightarrow>
          if Pattern cfg = '''' then Inl (''no PATTERN specified for mogrifier '' @ mogrifier)
          else (case Compile (Pattern cfg) of
                  Inl err \<Rightarrow> Inl (''failed to compile pattern for '' @ mogrifier @ '': '' @ Pattern cfg @ '': '' @ err)
                | Inr re \<Rightarrow>
                    if mc_Name cfg = '''' then Inl (''no NAME specified for mogrifier '' @ mogrifier)
                    else (case check_tags mogrifier (Tags cfg) of
                            Inl err \<Rightarrow> Inl err
                          | Inr _ \<Rightarrow>
                              (case newMogrifierMapFromEnv Process Compile keys of
                                 Inl err \<Rightarrow> Inl err
                               | Inr mogrifiers \<Rightarrow>
                                   Inr (\<lparr>matcher = re, handler = mogrify_handler cfg\<rparr> # mogrifiers)))))"

fun mogrifierMap_mogrify :: "mogrifierEntry list \<Rightarrow> string \<Rightarrow> string \<times> string list" where
  "mogrifierMap_mogrify [] name = (name, [])"
| "mogrifierMap_mogrify (m # ms) name =
     (let matches = matcher m name in
      if length matches = 0 then mogrifierMap_mogrify ms name else handler m matches)"

section \<open>The sink\<close>

record godogStatsSink =
  sink_host :: string
  sink_port :: int
  mogrifier :: "mogrifierEntry list"

type_synonym sink_option = "godogStatsSink \<Rightarrow> godogStatsSink res"

definition WithStatsdHost :: "string \<Rightarrow> sink_option" where
  "WithStatsdHost host g = Inr (g\<lparr>sink_host := host\<rparr>)"

definition WithStatsdPort :: "int \<Rightarrow> sink_option" where
  "WithStatsdPort port g = Inr (g\<lparr>sink_port := port\<rparr>)"

text \<open>The map is given in the order Go ranges over it.\<close>

definition WithMogrifier :: "((string \<Rightarrow> string list) \<times> (string list \<Rightarrow> string \<times> string list)) list \<Rightarrow> sink_option" where
  "WithMogrifier mogrifiers g =
     Inr (g\<lparr>mogrifier := mogrifier g @ map (\<lambda>(m, h). \<lparr>matcher = m, handler = h\<rparr>) mogrifiers\<rparr>)"

definition WithMogrifierFromEnv ::
  "(string \<Rightarrow> string + mogrifier_config) \<Rightarrow> (string \<Rightarrow> string + (string \<Rightarrow> string list)) \<Rightarrow> string list \<Rightarrow> sink_option" where
  "WithMogrifierFromEnv Process Compile keys g =
     (case newMogrifierMapFromEnv Process Compile keys of
        Inl err \<Rightarrow> Inl (ErrorPanic err)
      | Inr ms \<Rightarrow> Inr (g\<lparr>mogrifier := ms\<rparr>))"

fun apply_sink_options :: "sink_option list \<Rightarrow> sink_option" where
  "apply_sink_options [] g = Inr g"
| "apply_sink_options (opt # opts) g = res_bind (opt g) (apply_sink_options opts)"

text \<open>\<open>statsd_New\<close> is \<open>statsd.New\<close> on the address; the sink is returned or the error.\<close>

definition NewSink :: "(string \<Rightarrow> string option) \<Rightarrow> sink_option list \<Rightarrow> (string + godogStatsSink) res" where
  "NewSink statsd_New opts =
     res_bind (apply_sink_options opts \<lparr>sink_host = '''', sink_port = 0, mogrifier = []\<rparr>) (\<lambda>sink.
     case statsd_New (sink_host sink @ '':'' @ FormatInt (sink_port sink)) of
       Some err \<Rightarrow> Inr (Inl err)
     | None \<Rightarrow> Inr (Inr sink))"

definition tag_prefix :: string where
  "tag_prefix = ''.__''"

text \<open>\<open>separateTags\<close>: without a tag, the second result is nil.\<close>

definition separateTags :: "string \<Rightarrow> string \<times> string list" where
  "separateTags name =
     (case Cut name tag_prefix of
        None \<Rightarrow> (name, [])
      | Some (shortName, tagString) \<Rightarrow>
          (shortName,
           concat (map (\<lambda>tagPair. case Cut tagPair ''='' of
                          None \<Rightarrow> []
                        | Some (tagName, tagValue) \<Rightarrow> [tagName @ '':'' @ tagValue])
             (Split tagString tag_prefix))))"

definition mogrify :: "godogStatsSink \<Rightarrow> string \<Rightarrow> string \<times> string list" where
  "mogrify g name =
     (case separateTags name of (name, extraTags) \<Rightarrow>
      case mogrifierMap_mogrify (mogrifier g) name of (name, tags) \<Rightarrow> (name, extraTags @ tags))"

text \<open>
  The calls on the client, with rate 1. A counter is an \<open>int64\<close>, the duration of a timer in
  nanoseconds; \<open>float64\<close> is the conversion of a gauge, \<open>trunc\<close> that of milliseconds to an integer.
\<close>

datatype 'f dog_call =
    Count string int "string list"
  | Gauge string 'f "string list"
  | Timing string int "string list"

definition to_int64 :: "int \<Rightarrow> int" where
  "to_int64 i = signed_take_bit 63 i"

definition FlushCounter :: "godogStatsSink \<Rightarrow> string \<Rightarrow> u64 \<Rightarrow> 'f dog_call" where
  "FlushCounter g name value = (case mogrify g name of (name, tags) \<Rightarrow> Count name (to_int64 (uint value)) tags)"

definition FlushGauge :: "(u64 \<Rightarrow> 'f) \<Rightarrow> godogStatsSink \<Rightarrow> string \<Rightarrow> u64 \<Rightarrow> 'f dog_call" where
  "FlushGauge float64 g name value = (case mogrify g name of (name, tags) \<Rightarrow> Gauge name (float64 value) tags)"

definition FlushTimer :: "('f \<Rightarrow> int) \<Rightarrow> godogStatsSink \<Rightarrow> string \<Rightarrow> 'f \<Rightarrow> 'f dog_call" where
  "FlushTimer trunc g name milliseconds =
     (case mogrify g name of (name, tags) \<Rightarrow> Timing name (to_int64 (trunc milliseconds * 1000000)) tags)"

section \<open>Lemmas\<close>

lemma border_free_prefix: "border_free tag_prefix"
  unfolding border_free_def tag_prefix_def by (auto simp: prefix_Cons suffix_def Cons_eq_append_conv)

text \<open>A pattern without a dollar sign is a constant, and no placeholder is replaced without its submatch.\<close>

lemma makePatternHandler_constant: "CHR ''$'' \<notin> set p \<Longrightarrow> makePatternHandler p matches = p"
  by (induction p) (auto simp: Let_def)

lemma ParseInt_digits:
  assumes "list_all is_digit ds" and "ParseInt ds bits = Some i"
  shows "i \<ge> 0"
proof (cases ds)
  case Nil
  with assms(2) show ?thesis by (simp add: ParseInt_def)
next
  case (Cons c cs)
  with assms(1) have "c \<noteq> CHR ''-''" and "c \<noteq> CHR ''+''" by (auto simp: is_digit_def)
  with assms(2) Cons show ?thesis by (simp add: ParseInt_def Let_def split: if_splits)
qed

lemma makePatternHandler_no_matches: "makePatternHandler p [] = p"
proof (induction "length p" arbitrary: p rule: less_induct)
  case less
  show ?case
  proof (cases p)
    case (Cons c cs)
    have d: "takeWhile is_digit cs @ dropWhile is_digit cs = cs" by simp
    have "var_value [] (c # takeWhile is_digit cs) = c # takeWhile is_digit cs"
    proof -
      have "list_all is_digit (takeWhile is_digit cs)" by (auto simp: list_all_iff dest: set_takeWhileD)
      then have "i \<ge> 0" if "ParseInt (takeWhile is_digit cs) 64 = Some i" for i
        using that by (rule ParseInt_digits)
      then show ?thesis by (cases "ParseInt (takeWhile is_digit cs) 64") (simp_all add: var_value_def)
    qed
    moreover have "length (dropWhile is_digit cs) < length p" by (simp add: Cons length_dropWhile_le le_imp_less_Suc)
    ultimately show ?thesis using less [of "dropWhile is_digit cs"] less [of cs] d by (auto simp: Cons Let_def)
  qed simp
qed

section \<open>Properties\<close>

text \<open>The name under which gostats serializes a metric with tags, and the tags in the form of the client.\<close>

definition serialize :: "string \<Rightarrow> (string \<times> string) list \<Rightarrow> string" where
  "serialize name tags = name @ concat (map (\<lambda>(k, v). tag_prefix @ k @ ''='' @ v) tags)"

definition plain_tags :: "string \<Rightarrow> (string \<times> string) list \<Rightarrow> bool" where
  "plain_tags name tags =
     (Cut name tag_prefix = None \<and>
      list_all (\<lambda>(k, v). CHR ''='' \<notin> set k \<and> Cut (k @ ''='' @ v) tag_prefix = None) tags)"

lemma serialize_Join:
  "tags \<noteq> [] \<Longrightarrow> serialize name tags = name @ tag_prefix @ Join (map (\<lambda>(k, v). k @ ''='' @ v) tags) tag_prefix"
proof (induction tags arbitrary: name)
  case (Cons t tags)
  obtain k v where t: "t = (k, v)" by (cases t)
  show ?case
  proof (cases tags)
    case Nil
    then show ?thesis by (simp add: serialize_def t)
  next
    case ts: (Cons u us)
    have "serialize name (t # tags) = serialize (name @ tag_prefix @ k @ ''='' @ v) tags"
      by (simp add: serialize_def t)
    also have "\<dots> = (name @ tag_prefix @ k @ ''='' @ v) @ tag_prefix @ Join (map (\<lambda>(k, v). k @ ''='' @ v) tags) tag_prefix"
      by (rule Cons.IH) (simp add: ts)
    finally show ?thesis by (simp add: t ts)
  qed
qed simp

text \<open>
  C37. Tags survive serialization. The sink gets back from a serialized metric name exactly the name and
  the tags it was made of, in order, as long as neither contains the markers that separate them.
\<close>

theorem separateTags_roundtrip:
  assumes "plain_tags name tags"
  shows "separateTags (serialize name tags) = (name, map (\<lambda>(k, v). k @ '':'' @ v) tags)"
proof (cases "tags = []")
  case True
  with assms show ?thesis by (simp add: separateTags_def serialize_def plain_tags_def)
next
  case False
  let ?pairs = "map (\<lambda>(k, v). k @ ''='' @ v) tags"
  have "Split (Join ?pairs tag_prefix) tag_prefix = ?pairs"
    using False assms by (intro Split_Join_border_free [OF border_free_prefix]) (auto simp: plain_tags_def list_all_iff)
  moreover have "Cut (serialize name tags) tag_prefix = Some (name, Join ?pairs tag_prefix)"
    using False assms by (simp add: serialize_Join Cut_unique [OF border_free_prefix] plain_tags_def)
  moreover have "concat (map (\<lambda>p. case Cut p ''='' of None \<Rightarrow> [] | Some (k, v) \<Rightarrow> [k @ '':'' @ v]) ?pairs) =
      map (\<lambda>(k, v). k @ '':'' @ v) tags"
    using assms by (induction tags) (auto simp: plain_tags_def Cut_char)
  ultimately show ?thesis by (simp add: separateTags_def)
qed

theorem separateTags_roundtrip_witness:
  "separateTags ''ratelimit.total_hits.__COMMIT=12345.__DEPLOY=67890'' =
     (''ratelimit.total_hits'', [''COMMIT:12345'', ''DEPLOY:67890''])"
proof -
  have "plain_tags ''ratelimit.total_hits'' [(''COMMIT'', ''12345''), (''DEPLOY'', ''67890'')]" by code_simp
  from separateTags_roundtrip [OF this] show ?thesis by (simp add: serialize_def tag_prefix_def)
qed

end
