(* ===== verification/Runner.thy ===== *)
theory Runner
  imports Server Dogstatsd Redis_Stop Service_Updates
begin

text \<open>
  Assembling the process (\<open>src/service_cmd/\<close>, \<open>src/redis/cache_impl.go\<close>, \<open>src/trace/trace.go\<close>): which
  sink, tracer, back end and endpoints the settings select, and what stopping the process closes.

  The libraries that do the work behind these choices are arguments: the OpenTelemetry exporter, the
  parser of log levels, radix, the memcached client, goruntime.
\<close>

section \<open>Tracing\<close>

datatype otlp_client = HttpClient | GrpcClient

record tracer_config =
  tc_client :: otlp_client
  tc_serviceName :: string
  tc_serviceNamespace :: string
  tc_serviceInstanceId :: string
  tc_samplingRate :: f64

definition createClient :: "string \<Rightarrow> otlp_client res" where
  "createClient protocol =
     (if protocol = ''http'' \<or> protocol = '''' then Inr HttpClient
      else if protocol = ''grpc'' then Inr GrpcClient
      else Inl (FatalExit (''Invalid otlptrace client protocol: '' @ protocol)))"

text \<open>\<open>otlptrace_New\<close> is the error of making the exporter, \<open>NewRandom\<close> the random UUID.\<close>

definition InitProductionTraceProvider ::
  "(otlp_client \<Rightarrow> string option) \<Rightarrow> string + string \<Rightarrow> string \<Rightarrow> string \<Rightarrow> string \<Rightarrow> string \<Rightarrow> f64 \<Rightarrow> tracer_config res" where
  "InitProductionTraceProvider otlptrace_New NewRandom protocol serviceName serviceNamespace serviceInstanceId samplingRate =
     res_bind (createClient protocol) (\<lambda>client.
     case otlptrace_New client of
       Some err \<Rightarrow> Inl (FatalExit (''creating OTLP trace exporter: '' @ err))
     | None \<Rightarrow>
         res_bind (if serviceInstanceId = ''''
                   then (case NewRandom of
                           Inl err \<Rightarrow> Inl (FatalExit (''generating random uuid for trace exporter: '' @ err))
                         | Inr uuid \<Rightarrow> Inr uuid)
                   else Inr serviceInstanceId) (\<lambda>useServiceInstanceId.
         Inr \<lparr>tc_client = client, tc_serviceName = serviceName, tc_serviceNamespace = serviceNamespace,
              tc_serviceInstanceId = useServiceInstanceId, tc_samplingRate = samplingRate\<rparr>))"

text \<open>
  \<open>GetTestSpanExporter\<close> with the package variable as its state: the exporter it makes is assigned to a
  new local variable of the same name.
\<close>

definition GetTestSpanExporter :: "'e \<Rightarrow> 'e option \<Rightarrow> 'e \<times> 'e option" where
  "GetTestSpanExporter NewInMemoryExporter testSpanExporter =
     (case testSpanExporter of
        Some e \<Rightarrow> (e, testSpanExporter)
      | None \<Rightarrow> (NewInMemoryExporter, testSpanExporter))"

section \<open>Statistics\<close>

datatype stats_sink = NullSink | DogStatsd godogStatsSink | TCPStatsdSink string int | LoggingSink

text \<open>\<open>NewRunner\<close>: the sink of the store and the statistics manager.\<close>

definition NewRunner ::
  "(string \<Rightarrow> string option) \<Rightarrow> (string \<Rightarrow> string + mogrifier_config) \<Rightarrow> (string \<Rightarrow> string + (string \<Rightarrow> string list))
    \<Rightarrow> ('c, 'p, 'i) Settings \<Rightarrow> (stats_sink \<times> ManagerImpl) res" where
  "NewRunner statsd_New Process Compile s =
     res_bind
       (if s_DisableStats s then Inr NullSink
        else if s_UseDogStatsd s then
          (if s_UseStatsd s
           then Inl (FatalExit (''Error: unable to use both stats sink at the same time. ''
             @ ''Set either USE_DOG_STATSD or USE_STATSD but not both.''))
           else res_bind (NewSink statsd_New
               [WithStatsdHost (s_StatsdHost s), WithStatsdPort (s_StatsdPort s),
                WithMogrifierFromEnv Process Compile (s_UseDogStatsdMogrifiers s)]) (\<lambda>r.
             case r of
               Inl err \<Rightarrow> Inl (FatalExit (''Failed to create dogstatsd sink: '' @ err))
             | Inr sink \<Rightarrow> Inr (DogStatsd sink)))
        else if s_UseStatsd s then Inr (TCPStatsdSink (s_StatsdHost s) (s_StatsdPort s))
        else Inr LoggingSink) (\<lambda>sink.
     Inr (sink, NewStatManager (s_ExtraTags s)))"

section \<open>The back end\<close>

text \<open>
  The redis back end with the connections of its clients, the one for per-second limits if there is
  one; the closers are those of both.
\<close>

record 'r redis_backend =
  rb_cache :: fixedRateLimitCacheImpl
  rb_redis :: 'r
  rb_perSecondRedis :: "'r option"

definition NewRateLimiterCacheImplFromSettings ::
  "'r radix \<Rightarrow> ('c, 'p, 'i) Settings \<Rightarrow> ManagerImpl \<Rightarrow> 'r redis_backend res" where
  "NewRateLimiterCacheImplFromSettings rx s sm =
     res_bind
       (if s_RedisPerSecond s
        then res_bind (NewClientImpl rx (s_RedisPerSecondTls s) (s_RedisPerSecondAuth s) (s_RedisPerSecondSocketType s)
               (s_RedisPerSecondType s) (s_RedisPerSecondUrl s) (s_RedisPerSecondPoolSize s)
               (s_RedisPerSecondPipelineWindow s) (s_RedisPerSecondPipelineLimit s)) (\<lambda>c. Inr (Some c))
        else Inr None) (\<lambda>perSecondPool.
     res_bind (NewClientImpl rx (s_RedisTls s) (s_RedisAuth s) (s_RedisSocketType s) (s_RedisType s) (s_RedisUrl s)
         (s_RedisPoolSize s) (s_RedisPipelineWindow s) (s_RedisPipelineLimit s)) (\<lambda>otherPool.
     Inr \<lparr>rb_cache = NewFixedRateLimitCacheImpl (fst otherPool) (map_option fst perSecondPool)
            (s_ExpirationJitterMaxSeconds s) (s_NearLimitRatio s) (s_CacheKeyPrefix s) sm
            (s_StopCacheKeyIncrementWhenOverlimit s),
          rb_redis = snd otherPool, rb_perSecondRedis = map_option snd perSecondPool\<rparr>))"

datatype ('r, 'mc) limiter = RedisLimiter "'r redis_backend" | MemcacheLimiter 'mc

text \<open>\<open>new_memcached\<close> is \<open>NewRateLimitCacheImplFromSettings\<close> on the scope of the server.\<close>

definition createLimiter ::
  "'r radix \<Rightarrow> (scope \<Rightarrow> 'mc res) \<Rightarrow> scope \<Rightarrow> ('c, 'p, 'i) Settings \<Rightarrow> ManagerImpl \<Rightarrow> ('r, 'mc) limiter res" where
  "createLimiter rx new_memcached scope s sm =
     (if s_BackendType s = ''redis'' \<or> s_BackendType s = ''''
      then res_bind (NewRateLimiterCacheImplFromSettings rx s sm) (\<lambda>b. Inr (RedisLimiter b))
      else if s_BackendType s = ''memcache'' then res_bind (new_memcached scope) (\<lambda>c. Inr (MemcacheLimiter c))
      else Inl (FatalExit (''Invalid setting for BackendType: '' @ s_BackendType s)))"

section \<open>The process\<close>

record ('c, 'p, 'i, 'rt, 'r, 'mc, 'w) process_parts =
  pr_tracer :: "tracer_config option"
  pr_logLevel :: nat
  pr_jsonLog :: bool
  pr_localCacheSize :: "int option"
  pr_server :: "('c, 'p, 'i, 'rt) server"
  pr_limiter :: "('r, 'mc) limiter"
  pr_service :: "'w svc_state"

text \<open>
  \<open>Run\<close> up to \<open>srv.Start()\<close>: what it has assembled. \<open>interceptor\<close> is that of the theory \<open>Metrics\<close>
  on the scope it is given, \<open>first\<close> the event the provider sends first, with the settings as they
  are read when it arrives, and \<open>w\<close> the world the service starts in.
\<close>

definition assemble ::
  "(otlp_client \<Rightarrow> string option) \<Rightarrow> string + string \<Rightarrow> (string \<Rightarrow> string + nat) \<Rightarrow> (loader_args \<Rightarrow> string + 'rt)
    \<Rightarrow> string + 'c \<Rightarrow> (scope \<Rightarrow> 'i) \<Rightarrow> 'r radix \<Rightarrow> (scope \<Rightarrow> 'mc res)
    \<Rightarrow> ('c, 'p, 'i) Settings res \<times> rateLimitConfigImpl res \<Rightarrow> 'x world_scheme
    \<Rightarrow> ('c, 'p, 'i) Settings \<Rightarrow> ManagerImpl \<Rightarrow> ('c, 'p, 'i, 'rt, 'r, 'mc, 'x world_scheme) process_parts res" where
  "assemble otlptrace_New NewRandom ParseLevel New2 loaded interceptor rx new_memcached first w s sm =
     res_bind (if s_TracingEnabled s
               then res_bind (InitProductionTraceProvider otlptrace_New NewRandom (s_TracingExporterProtocol s)
                      (s_TracingServiceName s) (s_TracingServiceNamespace s) (s_TracingServiceInstanceId s)
                      (s_TracingSamplingRate s)) (\<lambda>tp. Inr (Some tp))
               else Inr None) (\<lambda>tracer.
     res_bind (case ParseLevel (s_LogLevel s) of
                 Inl err \<Rightarrow> Inl (FatalExit (''Could not parse log level. '' @ err))
               | Inr level \<Rightarrow> Inr level) (\<lambda>level.
     let localCacheSize = (if s_LocalCacheSizeInBytes s \<noteq> 0 then Some (s_LocalCacheSizeInBytes s) else None);
         serverReporter = ScopeWithTags ''ratelimit_server'' (s_ExtraTags s) in
     res_bind (newServer New2 loaded s ''ratelimit'' (localCacheSize \<noteq> None)
         [GrpcUnaryInterceptor (interceptor serverReporter)]) (\<lambda>srv.
     res_bind (createLimiter rx new_memcached (srv_scope srv) s sm) (\<lambda>limiter.
     let (started, st) = NewService sm (s_GlobalShadowMode s) (s_ForceStartWithoutInitialConfig s)
           (s_HealthyWithAtLeastOneConfigLoaded s) first [] (srv_health srv) w in
     res_bind started (\<lambda>_.
     res_bind (AddDebugHttpEndpoint ''/rlconfig'' ''print out the currently loaded configuration for debugging'' srv) (\<lambda>srv.
     Inr \<lparr>pr_tracer = tracer, pr_logLevel = level, pr_jsonLog = (ToLower (s_LogFormat s) = ''json''),
          pr_localCacheSize = localCacheSize, pr_server = AddJsonHandler srv, pr_limiter = limiter,
          pr_service = st\<rparr>))))))"

definition Run ::
  "(bool \<Rightarrow> string \<Rightarrow> string \<Rightarrow> string + 'l) \<Rightarrow> (('c, 'p, 'i, 'rt) server \<Rightarrow> 'l \<Rightarrow> string option)
    \<Rightarrow> ('c, 'p, 'i, 'rt, 'r, 'mc, 'w) process_parts res \<Rightarrow> unit res" where
  "Run Listen Serve assembled = res_bind assembled (\<lambda>p. fst (Start Listen Serve (pr_server p)))"

text \<open>What \<open>/rlconfig\<close> prints.\<close>

definition rlconfig_page :: "(Unit \<Rightarrow> string) \<Rightarrow> service \<Rightarrow> string" where
  "rlconfig_page us this = (case svc_config this of None \<Rightarrow> '''' | Some current \<Rightarrow> Dump us current)"

text \<open>
  \<open>Runner.Stop\<close>: the calls on the server, if there is one, and then the closer of the back end, if
  there is one. A redis back end closes both its clients, per-second first; memcached has nothing
  to close.
\<close>

datatype close_call = CloseServer stop_call | ClosePerSecondPool | ClosePool

fun closers :: "('r, 'mc) limiter \<Rightarrow> close_call list" where
  "closers (RedisLimiter b) = (if rb_perSecondRedis b \<noteq> None then [ClosePerSecondPool] else []) @ [ClosePool]"
| "closers (MemcacheLimiter c) = []"

definition Runner_Stop ::
  "('c, 'p, 'i, 'rt) server option \<Rightarrow> ('r, 'mc) limiter option \<Rightarrow> close_call list" where
  "Runner_Stop srv ratelimitCloser =
     (case srv of None \<Rightarrow> [] | Some srv \<Rightarrow> map CloseServer (Stop srv)) @
     (case ratelimitCloser of None \<Rightarrow> [] | Some l \<Rightarrow> closers l)"

text \<open>\<open>main\<close>\<close>

definition main_NewRunner ::
  "(string \<Rightarrow> string option) \<Rightarrow> (string \<Rightarrow> string + mogrifier_config) \<Rightarrow> (string \<Rightarrow> string + (string \<Rightarrow> string list))
    \<Rightarrow> ('c, 'p) pki \<Rightarrow> string + ('c, 'p, 'i) Settings \<Rightarrow> (('c, 'p, 'i) Settings \<times> stats_sink \<times> ManagerImpl) res" where
  "main_NewRunner statsd_New Process Compile pk env =
     res_bind (NewSettings pk env) (\<lambda>s. res_bind (NewRunner statsd_New Process Compile s) (\<lambda>r. Inr (s, r)))"

section \<open>Lemmas\<close>

text \<open>The exporter of an earlier call is never returned: the second call makes another.\<close>

lemma GetTestSpanExporter_not_kept:
  "GetTestSpanExporter second (snd (GetTestSpanExporter first None)) = (second, None)"
  by (simp add: GetTestSpanExporter_def)

lemma createLimiter_backend:
  "createLimiter rx new_memcached scope s sm = Inr l \<Longrightarrow>
   (case l of
      RedisLimiter b \<Rightarrow> s_BackendType s \<in> {''redis'', ''''} \<and> (rb_perSecondRedis b \<noteq> None \<longleftrightarrow> s_RedisPerSecond s)
    | MemcacheLimiter c \<Rightarrow> s_BackendType s = ''memcache'' \<and> new_memcached scope = Inr c)"
  by (auto simp: createLimiter_def NewRateLimiterCacheImplFromSettings_def res_bind_Inr split: if_splits)

lemma newServer_routes:
  assumes "newServer New2 loaded s name lc opts = Inr srv"
  shows "router srv = [''/healthcheck'']" and "debugMux srv = map fst debug_endpoints @ [''/'']"
    and "endpoints srv = debug_endpoints"
  using assms by (auto simp: newServer_def Let_def res_bind_Inr debug_endpoints_def AddDebugHttpEndpoint_def split: if_splits)

lemma rlconfig_registered:
  assumes "newServer New2 loaded s name lc opts = Inr srv"
  shows "AddDebugHttpEndpoint ''/rlconfig'' descr srv =
    Inr (srv\<lparr>debugMux := map fst debug_endpoints @ [''/'', ''/rlconfig''], endpoints := debug_endpoints @ [(''/rlconfig'', descr)]\<rparr>)"
  using newServer_routes [OF assms] by (simp add: AddDebugHttpEndpoint_def debug_endpoints_def)

text \<open>
  A process that starts has the two HTTP endpoints and all debug endpoints, and traces exactly when
  tracing is enabled.
\<close>

lemma assemble_parts:
  assumes "assemble otlptrace_New NewRandom ParseLevel New2 loaded ic rx new_memcached first w s sm = Inr p"
  shows "router (pr_server p) = [''/healthcheck'', ''/json'']"
    and "map fst (endpoints (pr_server p)) = map fst debug_endpoints @ [''/rlconfig'']"
    and "s_TracingEnabled s \<longleftrightarrow> pr_tracer p \<noteq> None"
proof -
  from assms obtain srv l i where
    srv: "newServer New2 loaded s ''ratelimit'' (s_LocalCacheSizeInBytes s \<noteq> 0) [GrpcUnaryInterceptor i] = Inr srv" and
    p: "AddDebugHttpEndpoint ''/rlconfig'' ''print out the currently loaded configuration for debugging'' srv = Inr l"
      "pr_server p = AddJsonHandler l" "s_TracingEnabled s \<longleftrightarrow> pr_tracer p \<noteq> None"
    unfolding assemble_def Let_def res_bind_Inr by (fastforce simp: res_bind_Inr split: if_splits prod.splits)
  with rlconfig_registered [OF srv] newServer_routes [OF srv]
  show "router (pr_server p) = [''/healthcheck'', ''/json'']"
    and "map fst (endpoints (pr_server p)) = map fst debug_endpoints @ [''/rlconfig'']"
    and "s_TracingEnabled s \<longleftrightarrow> pr_tracer p \<noteq> None"
    by (auto simp: AddJsonHandler_def)
qed

text \<open>
  A process that was not forced to start works with the configuration of the first event, if that
  event has one; if the configuration of the first event is in error, it comes up without one.
\<close>

lemma NewService_first:
  assumes "NewService sm shadow False h first [] hc w = (Inr (), st)"
  shows "case snd first of Inr cfg \<Rightarrow> svc_config (svc st) = Some cfg | Inl err \<Rightarrow> svc_config (svc st) = None"
proof (cases "snd first")
  case (Inl err)
  with assms show ?thesis
    by (cases err; cases first)
      (auto simp: NewService_def take_events_def monad_simps SetConfig_def in_backend_def emit_def new_service_def)
next
  case (Inr cfg)
  with assms show ?thesis
    by (cases first; cases "fst first")
      (auto simp: NewService_def take_events_def monad_simps SetConfig_def lift_res_def in_backend_def emit_def
        apply_settings_def Let_def)
qed

lemma assembled_with_config:
  assumes "assemble otlptrace_New NewRandom ParseLevel New2 loaded ic rx new_memcached first w s sm = Inr p"
    and "\<not> s_ForceStartWithoutInitialConfig s"
  shows "case snd first of Inr cfg \<Rightarrow> svc_config (svc (pr_service p)) = Some cfg
    | Inl err \<Rightarrow> svc_config (svc (pr_service p)) = None"
proof -
  from assms obtain hc where "NewService sm (s_GlobalShadowMode s) False
      (s_HealthyWithAtLeastOneConfigLoaded s) first [] hc w = (Inr (), pr_service p)"
    unfolding assemble_def Let_def res_bind_Inr by (fastforce simp: res_bind_Inr split: if_splits prod.splits)
  then show ?thesis by (rule NewService_first)
qed

text \<open>Stopping the process stops the provider and closes exactly the clients of redis that were made.\<close>

lemma Runner_Stop_closes:
  assumes "createLimiter rx new_memcached scope s sm = Inr l"
  shows "CloseServer StopProvider \<in> set (Runner_Stop (Some srv) (Some l))"
    and "ClosePool \<in> set (Runner_Stop (Some srv) (Some l)) \<longleftrightarrow> s_BackendType s \<noteq> ''memcache''"
    and "ClosePerSecondPool \<in> set (Runner_Stop (Some srv) (Some l)) \<longleftrightarrow> s_BackendType s \<noteq> ''memcache'' \<and> s_RedisPerSecond s"
  using createLimiter_backend [OF assms] by (auto simp: Runner_Stop_def Stop_def split: limiter.splits)

text \<open>Settings that ask for both statsd sinks end the process, whatever else they say, unless statistics are off.\<close>

lemma NewRunner_two_sinks:
  "\<not> s_DisableStats s \<Longrightarrow> s_UseDogStatsd s \<Longrightarrow> s_UseStatsd s \<Longrightarrow>
   \<exists>m. NewRunner statsd_New Process Compile s = Inl (FatalExit m)"
  by (simp add: NewRunner_def)


end
