(* ===== verification/Spec2Isabelle.thy ===== *)
theory Spec2Isabelle
  imports Config_Accept Redis_Window Redis_Stop Redis_Concurrent Redis_Pool Memcached_Workers Service_Window Service_Updates
    Provider_Service Xds_Connection Example_Server Commands Runner
begin

text \<open>
  A verification development of the rate limit service.

  \<^bold>\<open>The program.\<close> An Envoy proxy asks the service, over gRPC or the JSON endpoint, whether a request with
  a domain and a list of descriptors is within its limits. The service looks each descriptor up in a
  tree built from configuration files, drops the limits that another limit replaces, and hands what
  remains to a back end, redis or memcached, which counts hits per descriptor and time window and
  decides. A provider (files or an xDS management server) sends new configurations; a health checker
  combines the state of the configuration, of redis and of the process; every decision is counted on
  metrics, which a sink sends away. The runner assembles all this from the settings. An example
  management server serves a fixed configuration to the xDS provider.

  \<^bold>\<open>The style of the model.\<close> Handlers are functions in the state-and-panic monad of the theory \<open>Prelude\<close>:
  a panic is a value of the datatype \<open>panic\<close> and keeps the state reached, \<open>recover\<close> is a case
  distinction on it, \<open>logger.Fatal\<close> is the panic \<open>FatalExit\<close> that nothing recovers. Construction code
  that keeps no state has the type \<open>'a res\<close>. Counters and limits are 32-bit words with wrap-around,
  \<open>int64\<close> are integers with truncated division, floats are modelled at their precision in \<open>Float32\<close>.
  Calls on metrics objects are an event log (field \<open>stats\<close> of the world), the clock and the jitter are
  sequences that are consumed. The limits of a configuration are shared by pointer in the code and are
  cells of a store in the model. What is not under \<open>src/\<close> is an argument: radix and the redis server,
  gomemcache, freecache, the YAML decoder, protojson, goruntime, the xDS client, the DataDog client,
  envconfig, the regular expressions of mogrifiers, OpenTelemetry. The laws assumed of redis
  (\<open>redis_laws\<close>), of memcached (\<open>mc_laws\<close>) and of freecache (\<open>cache_sound\<close>) are documented behaviour, and
  each is shown to hold of a server that is a table of counters. Those of memcached say that a key is
  accepted only with at most 250 characters, none of them white space or control characters, and that
  operations on other keys fail; they are those of a server that can be reached and evicts nothing. The
  law of \<open>EXPIRE\<close> leaves out expiries that overflow the clock of redis. \<open>ToUpper\<close> and \<open>ToLower\<close> change
  ASCII letters only.

  \<^bold>\<open>Theories and sources\<close> (paths under \<open>src/src/\<close>, or \<open>src/examples/\<close> for the example).
  \<^item> \<open>Prelude\<close>: monad, metrics calls, Go's \<open>strings\<close> and \<open>strconv\<close>; the collections \<open>monad_simps\<close>, \<open>go_simps\<close>.
  \<^item> \<open>Float32\<close>: rounding to single precision, for the near threshold and the ratios in settings.
  \<^item> \<open>Utils\<close>: \<open>utils/\<close>, \<open>assert/\<close>. \<open>Stats\<close>: \<open>stats/\<close>. \<open>Settings\<close>: \<open>settings/settings.go\<close>, \<open>utils/tls.go\<close>.
  \<^item> \<open>Config\<close>, \<open>Config_Lookup\<close>, \<open>Config_Accept\<close>: \<open>config/config_impl.go\<close>, loading, \<open>GetLimit\<close>, and which
    files are accepted. \<open>Config_Xds\<close>: \<open>config/config_xds.go\<close> and \<open>Dump\<close>.
  \<^item> \<open>Limiter\<close>: \<open>limiter/\<close>, the keys and the decision both back ends share, and their interface.
  \<^item> \<open>Redis_Driver\<close>, \<open>Redis_Cache\<close>, \<open>Redis_Contract\<close>, \<open>Redis_Window\<close>, \<open>Redis_Stop\<close>: \<open>redis/\<close>. The first two
    hold the code; then the interface, requests of one window in sequence, and the mode in which
    counting stops once a limit is exceeded. \<open>Redis_Steps\<close>, \<open>Redis_Concurrent\<close>: \<open>DoLimit\<close> as steps, one
    command at a time, and the interleaved steps of concurrent requests.
  \<^item> \<open>Memcached\<close>, \<open>Memcached_Async\<close>, \<open>Memcached_Workers\<close>: \<open>memcached/\<close>. The code and its decision; the
    background increments as interleaved calls; the pool of workers.
  \<^item> \<open>Health\<close>: \<open>server/health.go\<close>. \<open>Redis_Pool\<close>: the pool trace of \<open>redis/driver_impl.go\<close>, whose callbacks
    hold no lock and are lists of atomic operations that interleave.
  \<^item> \<open>Service\<close>, \<open>Service_Backends\<close>, \<open>Service_Window\<close>, \<open>Service_Updates\<close>: \<open>service/ratelimit.go\<close>; the service
    over each back end; a sequence of requests to the service over redis; sequences of configuration
    updates.
  \<^item> \<open>Providers\<close>, \<open>Provider_Service\<close>, \<open>Xds_Connection\<close>: \<open>provider/\<close>. What is read and sent; provider
    and service together; the goroutines of the xDS provider as a step relation.
  \<^item> \<open>Srv\<close>: \<open>srv/srv.go\<close>. \<open>Metrics\<close>: \<open>metrics/\<close>, \<open>limiter/local_cache_stats.go\<close>. \<open>Dogstatsd\<close>: \<open>godogstats/\<close>.
  \<^item> \<open>Server\<close>: \<open>server/server_impl.go\<close>, \<open>server/tls.go\<close>. \<open>Runner\<close>: \<open>service_cmd/\<close>, \<open>redis/cache_impl.go\<close>,
    \<open>trace/trace.go\<close>. \<open>Commands\<close>: \<open>client_cmd/\<close>, \<open>config_check_cmd/\<close>. \<open>Example_Server\<close>:
    \<open>examples/xds-sotw-config-server/\<close>.

  \<^bold>\<open>Interfaces.\<close> The locale \<open>rate_limit_cache\<close> (theory \<open>Limiter\<close>) is the contract of
  \<open>RateLimitCache.DoLimit\<close>: one well-formed status per limit, or a panic of a known kind. It is
  interpreted for \<open>DoLimit\<close> of redis (\<open>redis\<close>) and of memcached (\<open>memcached\<close>). The locale
  \<open>recoverable_cache\<close> (theory \<open>Service\<close>) extends it by what the service needs to recover, and holds the
  lemmas on the service and the JSON endpoint; it is interpreted as \<open>redis_service\<close> and
  \<open>memcached_service\<close>, on which the properties of the whole service rest.

  \<^bold>\<open>What is shown.\<close>
  \<^item> Decisions: the status, the metrics and the local cache after a count (\<open>Limiter\<close>); a redis request
    counts every descriptor once and decides on the counts, and over a window a request is admitted
    exactly while the hits asked for so far are within the limit, first for the back end and then for
    the service and the limits of the files (\<open>Redis_Cache\<close>, \<open>Redis_Window\<close>, \<open>Service_Window\<close>); stop mode
    (\<open>Redis_Stop\<close>); memcached decides on the counters it read, which are all zero if it rejects a key of
    the request (\<open>Memcached_Async\<close>).
  \<^item> Concurrent requests on redis: the steps are those of \<open>DoLimit\<close>, and under every interleaving what is
    admitted stays within the limit and a refusal means that the limit was used up (\<open>Redis_Steps\<close>,
    \<open>Redis_Concurrent\<close>).
  \<^item> Counting in the background: under every interleaving no hit on a key memcached accepts is lost,
    every task ends whatever memcached answers, and the interleaved calls are those of the code (\<open>Memcached_Async\<close>); each task is run once
    (\<open>Memcached_Workers\<close>).
  \<^item> Configuration: the files that load are those that satisfy a declarative predicate; the tree
    implements a direct reading of the files; xDS messages load to the same configuration; that of
    the example management server is accepted and gives all limits of a table.
  \<^item> The service: every well-formed request is answered as the configuration and the back end
    prescribe, or the error of the back end is returned as a value; what remains is the panic on overrides with an unknown
    unit. It follows the last good configuration, over updates and over file changes, and the JSON
    endpoint answers with the status that belongs to the response.
  \<^item> State machines: health as a refinement of a set of failing components; the health of redis, which
    is never good without a connection, and the race by which it is bad with one; the xDS connection, with one watcher and no leak, its recovery, and the state from which it cannot
    recover.
  \<^item> Boundaries: TLS settings and client names, certificates, SRV names, tags of metrics, the client's
    descriptors, pipelines in both modes.

  \<^bold>\<open>Bounds.\<close> All functions are total. Fuel is given to \<open>run_process\<close>, the number of calls a background
  task may make, where three calls per key are enough, and to \<open>run_alone\<close>, the number of steps of a
  redis request, where two and two more per descriptor are; both are part of what is proved of them.
  Loops that run for ever in the code (watching for configurations, workers) are given the finite
  sequence of their events, or are step relations; no theorem depends on its length.

  \<^bold>\<open>Not modelled.\<close> Log lines and tracing spans; the delays of back-off and of refreshing servers; the
  plumbing of gRPC and HTTP below the handlers, and signals before the shutdown they cause; data races
  on the local cache and the limits (requests are interleaved at their redis commands and at the
  background increments of memcached, and are atomic otherwise; what sharing the limits between
  requests can do is shown by a lemma of \<open>Config_Accept\<close>); concurrent requests in the mode that stops
  counting; generated mocks.
\<close>

end
